(* ===== verification/Prelude.thy ===== *)
theory Prelude
  imports Main "HOL-Library.Word"
begin

text \<open>
  Shared vocabulary of the development: Go's machine integers, results that carry an
  error, and the generic facts on lists, options and maps the components use.

  \<^item> Go's \<^verbatim>\<open>int64\<close> is an \<^typ>\<open>int\<close> together with the range predicate \<open>in64\<close>; every
    arithmetic operation of the source goes through \<open>wrap64\<close>, which writes the
    two's complement wrap-around out. \<open>wrap64_word\<close> ties the representation to
    \<^typ>\<open>64 word\<close>.
  \<^item> A Go function returning \<^verbatim>\<open>(T, error)\<close> is a sum: \<open>Inl\<close> is the error, \<open>Inr\<close> the value.
\<close>

named_theorems go_arith \<open>facts on Go's fixed-width arithmetic\<close>
named_theorems res_simps \<open>case distinctions on results\<close>

section \<open>Machine integers\<close>

definition MinInt64 :: int where
  "MinInt64 = - 9223372036854775808"

definition MaxInt64 :: int where
  "MaxInt64 = 9223372036854775807"

definition in64 :: "int \<Rightarrow> bool" where
  "in64 x \<longleftrightarrow> MinInt64 \<le> x \<and> x \<le> MaxInt64"

definition wrap64 :: "int \<Rightarrow> int" where
  "wrap64 x = (x + 9223372036854775808) mod 18446744073709551616 - 9223372036854775808"

definition add64 :: "int \<Rightarrow> int \<Rightarrow> int" where
  "add64 a b = wrap64 (a + b)"

definition sub64 :: "int \<Rightarrow> int \<Rightarrow> int" where
  "sub64 a b = wrap64 (a - b)"

definition neg64 :: "int \<Rightarrow> int" where
  "neg64 a = wrap64 (- a)"

definition mul64 :: "int \<Rightarrow> int \<Rightarrow> int" where
  "mul64 a b = wrap64 (a * b)"

text \<open>Go's integer division truncates towards zero; the remainder has the dividend's sign.\<close>

definition quot64 :: "int \<Rightarrow> int \<Rightarrow> int" where
  "quot64 a b = wrap64 (sgn a * sgn b * (\<bar>a\<bar> div \<bar>b\<bar>))"

definition rem64 :: "int \<Rightarrow> int \<Rightarrow> int" where
  "rem64 a b = sgn a * (\<bar>a\<bar> mod \<bar>b\<bar>)"

lemma in64_iff [go_arith]:
  "in64 x \<longleftrightarrow> - 9223372036854775808 \<le> x \<and> x \<le> 9223372036854775807"
  by (simp add: in64_def MinInt64_def MaxInt64_def)

lemma wrap64_in64 [simp]: "in64 (wrap64 x)"
proof -
  have "0 \<le> (x + 9223372036854775808) mod 18446744073709551616"
    and "(x + 9223372036854775808) mod 18446744073709551616 < 18446744073709551616"
    by simp_all
  then show ?thesis by (simp add: wrap64_def in64_iff)
qed

lemma wrap64_id [simp]: "in64 x \<Longrightarrow> wrap64 x = x"
  by (simp add: wrap64_def in64_iff)

lemma wrap64_eq_iff: "wrap64 x = x \<longleftrightarrow> in64 x"
  by (metis wrap64_id wrap64_in64)

lemma wrap64_cases:
  assumes "- 18446744073709551616 \<le> x" "x \<le> 18446744073709551614"
  shows "wrap64 x =
    (if x < MinInt64 then x + 18446744073709551616
     else if x > MaxInt64 then x - 18446744073709551616 else x)"
proof (cases "in64 x")
  case True
  then show ?thesis by (simp add: in64_def)
next
  case False
  then consider (low) "x < MinInt64" | (high) "x > MaxInt64"
    by (auto simp: in64_def)
  then show ?thesis
  proof cases
    case low
    have "(x + 9223372036854775808) mod 18446744073709551616
        = (x + 9223372036854775808 + 18446744073709551616) mod 18446744073709551616"
      by (simp only: mod_add_self2)
    also have "\<dots> = x + 9223372036854775808 + 18446744073709551616"
      using low assms by (intro mod_pos_pos_trivial) (simp_all add: MinInt64_def)
    finally show ?thesis using low by (simp add: wrap64_def)
  next
    case high
    have "(x + 9223372036854775808) mod 18446744073709551616
        = (x + 9223372036854775808 - 18446744073709551616) mod 18446744073709551616"
      by (simp only: minus_mod_self2)
    also have "\<dots> = x + 9223372036854775808 - 18446744073709551616"
      using high assms by (intro mod_pos_pos_trivial) (simp_all add: MaxInt64_def)
    finally show ?thesis using high by (simp add: wrap64_def MinInt64_def MaxInt64_def)
  qed
qed

text \<open>The representation agrees with two's complement words of the library.\<close>

lemma wrap64_word: "wrap64 x = sint (word_of_int x :: 64 word)"
proof -
  have "sint (word_of_int x :: 64 word) = signed_take_bit 63 x"
    by (simp add: signed_of_int)
  also have "\<dots> = (x + 9223372036854775808) mod 18446744073709551616 - 9223372036854775808"
    by (simp add: signed_take_bit_eq_take_bit_shift take_bit_eq_mod)
  finally show ?thesis by (simp add: wrap64_def)
qed

lemma add64_exact [go_arith]: "in64 (a + b) \<Longrightarrow> add64 a b = a + b"
  by (simp add: add64_def)

lemma neg64_exact [go_arith]: "in64 (- a) \<Longrightarrow> neg64 a = - a"
  by (simp add: neg64_def)

lemma mul64_exact [go_arith]: "in64 (a * b) \<Longrightarrow> mul64 a b = a * b"
  by (simp add: mul64_def)

lemma sub64_exact [go_arith]: "in64 (a - b) \<Longrightarrow> sub64 a b = a - b"
  by (simp add: sub64_def)

lemma neg64_total: "in64 a \<Longrightarrow> a \<noteq> MinInt64 \<Longrightarrow> neg64 a = - a"
  by (rule neg64_exact) (simp add: in64_iff MinInt64_def)

lemma neg64_MinInt64: "neg64 MinInt64 = MinInt64"
  by (simp add: neg64_def wrap64_def MinInt64_def)

lemma in64_neg: "in64 a \<Longrightarrow> a \<noteq> MinInt64 \<Longrightarrow> in64 (- a)"
  by (simp add: in64_iff MinInt64_def)

text \<open>
  On non-negative operands the truncating division is the library's, so that a routine
  which first takes absolute values can be read with \<open>div\<close> and \<open>mod\<close>.
\<close>

lemma quot64_nonneg:
  assumes "0 \<le> a" "0 < b" "in64 a"
  shows "quot64 a b = a div b"
proof -
  have "a div b \<le> a"
    using assms by (cases "b = 1") (auto intro: int_div_less_self [THEN less_imp_le]
        simp: order.order_iff_strict [of 0 a])
  moreover have "0 \<le> a div b"
    using assms by (simp add: pos_imp_zdiv_nonneg_iff)
  ultimately have "in64 (a div b)"
    using assms(3) by (simp add: in64_iff)
  with assms show ?thesis
    by (cases "a = 0") (simp_all add: quot64_def sgn_if)
qed

lemma rem64_nonneg: "0 \<le> a \<Longrightarrow> 0 < b \<Longrightarrow> rem64 a b = a mod b"
  by (cases "a = 0") (simp_all add: rem64_def sgn_if)

end
