(* ===== verification/Money.thy ===== *)
theory Money
  imports Prelude
begin

text \<open>
  The package \<^verbatim>\<open>internal/money\<close>: amounts in integer minor units whose scale is taken from
  the registry. The theory holds the registry, the constructor, checked arithmetic, and
  the lemmas that say when the arithmetic is exact: the sign test of \<^verbatim>\<open>Add\<close> detects
  overflow precisely, \<^verbatim>\<open>Sum\<close> never returns a wrapped value, and no amount built by \<^verbatim>\<open>New\<close>
  carries a scale other than the registry's.
\<close>

section \<open>Data\<close>

datatype money_error =
    ErrUnknownCurrency string
  | ErrCurrencyMismatch string string
  | ErrOverflow int int
  | ErrUnrepresentable int
  | ErrSumOfNothing

record Amount =
  minor :: int
  currency :: string
  scale :: nat

definition registry :: "(string \<times> nat) list" where
  "registry = [(''USD'', 2), (''EUR'', 2), (''JPY'', 0)]"

definition scaleOf :: "string \<Rightarrow> nat option" where
  "scaleOf c = map_of registry c"

definition Known :: "string list" where
  "Known = map fst registry"

section \<open>Operations\<close>

definition money_New :: "int \<Rightarrow> string \<Rightarrow> money_error + Amount" where
  "money_New m c =
     (case scaleOf c of
        None \<Rightarrow> Inl (ErrUnknownCurrency c)
      | Some s \<Rightarrow>
          if m = MinInt64 then Inl (ErrUnrepresentable m)
          else Inr \<lparr>minor = m, currency = c, scale = s\<rparr>)"

definition money_Zero :: "string \<Rightarrow> money_error + Amount" where
  "money_Zero c = money_New 0 c"

definition Amount_Add :: "Amount \<Rightarrow> Amount \<Rightarrow> money_error + Amount" where
  "Amount_Add a b =
     (if currency a \<noteq> currency b then Inl (ErrCurrencyMismatch (currency a) (currency b))
      else let sum = add64 (minor a) (minor b) in
        if (minor a > 0 \<and> minor b > 0 \<and> sum \<le> 0) \<or> (minor a < 0 \<and> minor b < 0 \<and> sum \<ge> 0)
        then Inl (ErrOverflow (minor a) (minor b))
        else Inr \<lparr>minor = sum, currency = currency a, scale = scale a\<rparr>)"

definition Amount_Neg :: "Amount \<Rightarrow> Amount" where
  "Amount_Neg a = \<lparr>minor = neg64 (minor a), currency = currency a, scale = scale a\<rparr>"

definition Amount_Sub :: "Amount \<Rightarrow> Amount \<Rightarrow> money_error + Amount" where
  "Amount_Sub a b = Amount_Add a (Amount_Neg b)"

definition IsZero :: "Amount \<Rightarrow> bool" where
  "IsZero a \<longleftrightarrow> minor a = 0"

text \<open>The loop of \<^verbatim>\<open>Sum\<close> adds left to right and stops at the first error.\<close>

fun Sum_loop :: "Amount \<Rightarrow> Amount list \<Rightarrow> money_error + Amount" where
  "Sum_loop acc [] = Inr acc"
| "Sum_loop acc (x # xs) =
     (case Amount_Add acc x of Inl e \<Rightarrow> Inl e | Inr acc' \<Rightarrow> Sum_loop acc' xs)"

fun money_Sum :: "Amount list \<Rightarrow> money_error + Amount" where
  "money_Sum [] = Inl ErrSumOfNothing"
| "money_Sum (a # as) = Sum_loop a as"

section \<open>Well-formed amounts\<close>

text \<open>
  What every \<^verbatim>\<open>Amount\<close> built by \<^verbatim>\<open>New\<close> satisfies: the value is an \<^verbatim>\<open>int64\<close> other than
  \<^verbatim>\<open>math.MinInt64\<close> and the scale is the registry's.
\<close>

definition amount_ok :: "Amount \<Rightarrow> bool" where
  "amount_ok a \<longleftrightarrow> in64 (minor a) \<and> minor a \<noteq> MinInt64 \<and> scaleOf (currency a) = Some (scale a)"

lemma scaleOf_simps [simp]:
  "scaleOf ''USD'' = Some 2" "scaleOf ''EUR'' = Some 2" "scaleOf ''JPY'' = Some 0"
  by (simp_all add: scaleOf_def registry_def)

lemma scaleOf_Known: "scaleOf c \<noteq> None \<longleftrightarrow> c \<in> set Known"
  by (auto simp: scaleOf_def Known_def registry_def)

lemma money_New_Inr_iff:
  "money_New m c = Inr a \<longleftrightarrow>
     m \<noteq> MinInt64 \<and> (\<exists>s. scaleOf c = Some s \<and> a = \<lparr>minor = m, currency = c, scale = s\<rparr>)"
  by (auto simp: money_New_def split: option.splits)

lemma money_New_minor: "money_New m c = Inr a \<Longrightarrow> minor a = m \<and> currency a = c"
  by (auto simp: money_New_Inr_iff)

lemma money_New_cong:
  "money_New m c = Inr a \<Longrightarrow> m' \<noteq> MinInt64 \<Longrightarrow>
     money_New m' c = Inr \<lparr>minor = m', currency = c, scale = scale a\<rparr>"
  by (auto simp: money_New_Inr_iff)

section \<open>Exactness of the overflow test\<close>

text \<open>The sign test accepts precisely the sums that fit.\<close>

lemma overflow_test_exact:
  assumes "in64 a" "in64 b"
  shows "((a > 0 \<and> b > 0 \<and> add64 a b \<le> 0) \<or> (a < 0 \<and> b < 0 \<and> add64 a b \<ge> 0)) \<longleftrightarrow> \<not> in64 (a + b)"
proof -
  have "add64 a b =
    (if a + b < MinInt64 then a + b + 18446744073709551616
     else if a + b > MaxInt64 then a + b - 18446744073709551616 else a + b)"
    unfolding add64_def using assms by (intro wrap64_cases) (simp_all add: in64_iff)
  with assms show ?thesis
    by (auto simp: in64_iff MinInt64_def MaxInt64_def)
qed

lemma Amount_Add_char:
  assumes "in64 (minor a)" "in64 (minor b)"
  shows "Amount_Add a b =
    (if currency a \<noteq> currency b then Inl (ErrCurrencyMismatch (currency a) (currency b))
     else if in64 (minor a + minor b)
       then Inr (a\<lparr>minor := minor a + minor b\<rparr>)
       else Inl (ErrOverflow (minor a) (minor b)))"
  using overflow_test_exact [OF assms]
  by (auto simp: Amount_Add_def Let_def add64_exact)

text \<open>
  The left-to-right sum succeeds exactly when every prefix sum fits, and is then the exact
  integer sum.
\<close>

fun prefixes_fit :: "int \<Rightarrow> int list \<Rightarrow> bool" where
  "prefixes_fit acc [] \<longleftrightarrow> True"
| "prefixes_fit acc (x # xs) \<longleftrightarrow> in64 (acc + x) \<and> prefixes_fit (acc + x) xs"

lemma Sum_loop_char:
  assumes "in64 (minor acc)" "\<forall>x \<in> set xs. in64 (minor x) \<and> currency x = currency acc"
  shows "Sum_loop acc xs = Inr r \<longleftrightarrow>
    prefixes_fit (minor acc) (map minor xs) \<and>
    r = acc\<lparr>minor := minor acc + (\<Sum>x\<leftarrow>xs. minor x)\<rparr>"
  using assms
proof (induction xs arbitrary: acc)
  case Nil
  then show ?case by auto
next
  case (Cons x xs)
  show ?case
  proof (cases "in64 (minor acc + minor x)")
    case True
    let ?acc = "acc\<lparr>minor := minor acc + minor x\<rparr>"
    have "Amount_Add acc x = Inr ?acc"
      using Cons.prems True by (simp add: Amount_Add_char)
    moreover have "Sum_loop ?acc xs = Inr r \<longleftrightarrow>
      prefixes_fit (minor ?acc) (map minor xs) \<and> r = ?acc\<lparr>minor := minor ?acc + (\<Sum>x\<leftarrow>xs. minor x)\<rparr>"
      using Cons.prems True by (intro Cons.IH) auto
    ultimately show ?thesis using True by (simp add: add.assoc)
  next
    case False
    then show ?thesis using Cons.prems by (simp add: Amount_Add_char)
  qed
qed

lemma Sum_loop_overflow:
  assumes "in64 (minor acc)" "\<forall>x \<in> set xs. in64 (minor x) \<and> currency x = currency acc"
    and "Sum_loop acc xs = Inl e"
  shows "\<exists>a b. e = ErrOverflow a b \<and> \<not> in64 (a + b)"
  using assms
proof (induction xs arbitrary: acc)
  case (Cons x xs)
  show ?case
  proof (cases "in64 (minor acc + minor x)")
    case True
    with Cons.prems have "Sum_loop (acc\<lparr>minor := minor acc + minor x\<rparr>) xs = Inl e"
      by (simp add: Amount_Add_char)
    then show ?thesis using Cons.prems True by (intro Cons.IH) auto
  next
    case False
    with Cons.prems show ?thesis by (auto simp: Amount_Add_char)
  qed
qed simp

section \<open>Properties\<close>

text \<open>
  C40. \<^verbatim>\<open>New\<close> is total and precise: it yields an amount exactly for a registered currency and
  an \<^verbatim>\<open>int64\<close> other than \<^verbatim>\<open>MinInt64\<close>, the amount is well formed, carries the value and
  currency it was given and the registry's scale (so no JPY amount has scale 2), and
  each rejection names its cause.
\<close>

theorem money_New_correct:
  assumes "in64 m"
  shows "(case money_New m c of
      Inr a \<Rightarrow> amount_ok a \<and> minor a = m \<and> currency a = c \<and> (c = ''JPY'' \<longrightarrow> scale a = 0)
    | Inl e \<Rightarrow> (e = ErrUnknownCurrency c \<and> c \<notin> set Known)
             \<or> (e = ErrUnrepresentable m \<and> m = MinInt64 \<and> c \<in> set Known))"
  using assms scaleOf_Known [of c]
  by (auto simp: money_New_def amount_ok_def split: option.splits)

theorem money_New_correct_witness:
  "in64 500 \<and> (\<exists>a. money_New 500 ''JPY'' = Inr a \<and> amount_ok a \<and> scale a = 0)"
proof -
  have h: "in64 500" by (simp add: in64_iff)
  have "money_New 500 ''JPY'' = Inr \<lparr>minor = 500, currency = ''JPY'', scale = 0\<rparr>"
    by (simp add: money_New_def MinInt64_def)
  with h money_New_correct [OF h, of "''JPY''"] show ?thesis by simp
qed

text \<open>
  \<^verbatim>\<open>Add\<close> never returns a wrapped value: on \<^verbatim>\<open>int64\<close> operands it returns the exact sum when
  the currencies agree and the sum fits, \<^verbatim>\<open>ErrOverflow\<close> when they agree and it does not
  fit, and \<^verbatim>\<open>ErrCurrencyMismatch\<close> otherwise.
\<close>

theorem Amount_Add_exact:
  assumes "in64 (minor a)" and "in64 (minor b)"
  shows "(case Amount_Add a b of
      Inr c \<Rightarrow> currency a = currency b \<and> in64 (minor a + minor b) \<and>
              minor c = minor a + minor b \<and> currency c = currency a \<and> scale c = scale a
    | Inl (ErrOverflow x y) \<Rightarrow>
        currency a = currency b \<and> \<not> in64 (minor a + minor b) \<and> x = minor a \<and> y = minor b
    | Inl (ErrCurrencyMismatch p q) \<Rightarrow> currency a \<noteq> currency b \<and> p = currency a \<and> q = currency b
    | Inl _ \<Rightarrow> False)"
  using assms by (simp add: Amount_Add_char)

theorem Amount_Add_exact_witness:
  "Amount_Add \<lparr>minor = MaxInt64, currency = ''USD'', scale = 2\<rparr> \<lparr>minor = 1, currency = ''USD'', scale = 2\<rparr>
     = Inl (ErrOverflow MaxInt64 1)"
proof -
  let ?a = "\<lparr>minor = MaxInt64, currency = ''USD'', scale = (2::nat)\<rparr>"
  let ?b = "\<lparr>minor = 1, currency = ''USD'', scale = (2::nat)\<rparr>"
  have "in64 (minor ?a)" and "in64 (minor ?b)" and no: "\<not> in64 (minor ?a + minor ?b)"
    by (simp_all add: in64_iff MaxInt64_def)
  from Amount_Add_exact [OF this(1,2)] no show ?thesis
    by (auto split: sum.splits money_error.splits)
qed

text \<open>
  \<^verbatim>\<open>Sum\<close> over amounts of one currency is the exact integer sum, and it fails only for
  overflow: it succeeds precisely when no left-to-right partial sum leaves \<^verbatim>\<open>int64\<close>.
\<close>

theorem money_Sum_exact:
  assumes "\<forall>x \<in> set (a # as). in64 (minor x) \<and> currency x = currency a"
  shows "(case money_Sum (a # as) of
      Inr r \<Rightarrow> prefixes_fit (minor a) (map minor as) \<and> minor r = (\<Sum>x\<leftarrow>a # as. minor x)
              \<and> currency r = currency a
    | Inl e \<Rightarrow> \<not> prefixes_fit (minor a) (map minor as) \<and> (\<exists>p q. e = ErrOverflow p q))"
proof -
  have h: "in64 (minor a)" "\<forall>x \<in> set as. in64 (minor x) \<and> currency x = currency a"
    using assms by simp_all
  show ?thesis
  proof (cases "Sum_loop a as")
    case (Inl e)
    then have "\<not> prefixes_fit (minor a) (map minor as)"
      using Sum_loop_char [OF h] by (metis Inl_Inr_False)
    with Inl Sum_loop_overflow [OF h Inl] show ?thesis by auto
  next
    case (Inr r)
    with Sum_loop_char [OF h, of r] show ?thesis by simp
  qed
qed

theorem money_Sum_exact_witness:
  "money_Sum [\<lparr>minor = 700, currency = ''EUR'', scale = 2\<rparr>, \<lparr>minor = - 700, currency = ''EUR'', scale = 2\<rparr>]
     = Inr \<lparr>minor = 0, currency = ''EUR'', scale = 2\<rparr>"
proof -
  let ?a = "\<lparr>minor = 700, currency = ''EUR'', scale = 2\<rparr>"
  let ?b = "\<lparr>minor = - 700, currency = ''EUR'', scale = 2\<rparr>"
  have h: "\<forall>x \<in> set (?a # [?b]). in64 (minor x) \<and> currency x = currency ?a"
    by (simp add: in64_iff)
  have "money_Sum (?a # [?b]) = Inr \<lparr>minor = 0, currency = ''EUR'', scale = 2\<rparr>"
    by (simp add: Amount_Add_def add64_def wrap64_def)
  then show ?thesis using money_Sum_exact [OF h] by simp
qed

text \<open>
  The result of \<^verbatim>\<open>Add\<close> on two well-formed amounts need not be well formed: a sum of
  exactly \<^verbatim>\<open>MinInt64\<close> passes the overflow test. \<^verbatim>\<open>Neg\<close> then returns its argument unchanged,
  and \<^verbatim>\<open>Sub\<close> of such an amount from zero returns a wrapped value instead of \<^verbatim>\<open>ErrOverflow\<close>.
\<close>

theorem Amount_Add_reaches_MinInt64:
  "\<exists>a b s. amount_ok a \<and> amount_ok b \<and> Amount_Add a b = Inr s \<and> \<not> amount_ok s \<and>
     Amount_Neg s = s \<and> (\<exists>z. money_Zero ''USD'' = Inr z \<and> Amount_Sub z s = Inr s \<and> minor s < 0)"
proof -
  let ?a = "\<lparr>minor = - 4611686018427387904, currency = ''USD'', scale = 2\<rparr>"
  let ?s = "\<lparr>minor = MinInt64, currency = ''USD'', scale = 2\<rparr>"
  have "amount_ok ?a" by (simp add: amount_ok_def in64_iff MinInt64_def)
  moreover have "Amount_Add ?a ?a = Inr ?s"
    by (simp add: Amount_Add_char in64_iff MinInt64_def)
  moreover have "Amount_Neg ?s = ?s" by (simp add: Amount_Neg_def neg64_MinInt64)
  moreover have "money_Zero ''USD'' = Inr \<lparr>minor = 0, currency = ''USD'', scale = 2\<rparr>"
    by (simp add: money_Zero_def money_New_def MinInt64_def)
  moreover have "Amount_Sub \<lparr>minor = 0, currency = ''USD'', scale = 2\<rparr> ?s = Inr ?s"
    using \<open>Amount_Neg ?s = ?s\<close>
    by (simp add: Amount_Sub_def Amount_Add_def add64_def wrap64_def MinInt64_def)
  ultimately show ?thesis
    by (intro exI [of _ ?a] exI [of _ ?s]) (auto simp: amount_ok_def MinInt64_def)
qed

end
