(* ===== verification/Bizdate.thy ===== *)
theory Bizdate
  imports Prelude
begin

text \<open>
  The file \<^verbatim>\<open>internal/bizdate/date.go\<close> and the part of Go's \<^verbatim>\<open>time\<close> package it uses.

  A \<^verbatim>\<open>time.Time\<close> is the number of nanoseconds since 0001-01-01 00:00 UTC. \<^verbatim>\<open>time.Date\<close>
  normalises its arguments and counts days by 400, 100, 4 and 1 year cycles;
  \<^verbatim>\<open>absDate\<close> inverts that count. The lemmas show that the two are inverse, so that the
  civil dates of the source are in bijection with the day numbers, and that calendar
  arithmetic (\<^verbatim>\<open>AddDays\<close>, \<^verbatim>\<open>DaysBetween\<close>, \<^verbatim>\<open>Before\<close>) is integer arithmetic on them.
\<close>

named_theorems date_simps \<open>rewriting dates to day numbers\<close>

section \<open>Go's civil calendar\<close>

datatype BusinessDate = BusinessDate (year: int) (month: int) (day: int)

datatype Weekday = Sunday | Monday | Tuesday | Wednesday | Thursday | Friday | Saturday

definition nsPerDay :: int where
  "nsPerDay = 86400000000000"

definition IsLeapYear :: "int \<Rightarrow> bool" where
  "IsLeapYear y \<longleftrightarrow> (y mod 4 = 0 \<and> y mod 100 \<noteq> 0) \<or> y mod 400 = 0"

definition DaysInYear :: "int \<Rightarrow> int" where
  "DaysInYear y = (if IsLeapYear y then 366 else 365)"

text \<open>Days before the given zero-based month of a non-leap year.\<close>

definition daysBefore :: "int \<Rightarrow> int" where
  "daysBefore m = [0, 31, 59, 90, 120, 151, 181, 212, 243, 273, 304, 334, 365] ! nat m"

definition daysSinceEpoch :: "int \<Rightarrow> int" where
  "daysSinceEpoch y =
     (let n400 = (y - 1) div 400; r400 = (y - 1) mod 400;
          n100 = r400 div 100; r100 = r400 mod 100
      in 146097 * n400 + 36524 * n100 + 1461 * (r100 div 4) + 365 * (r100 mod 4))"

text \<open>\<^verbatim>\<open>time.Date(y, m, d, 0, 0, 0, 0, time.UTC)\<close> as a day number: months and days overflow.\<close>

definition time_days :: "int \<Rightarrow> int \<Rightarrow> int \<Rightarrow> int" where
  "time_days y m d =
     (let y' = y + (m - 1) div 12; m' = (m - 1) mod 12
      in daysSinceEpoch y' + daysBefore m' + (if IsLeapYear y' \<and> m' \<ge> 2 then 1 else 0) + (d - 1))"

definition monthDay :: "bool \<Rightarrow> int \<Rightarrow> int \<times> int" where
  "monthDay leap yd =
     (if leap \<and> yd = 59 then (2, 29)
      else let dd = (if leap \<and> yd > 59 then yd - 1 else yd);
               m = dd div 31;
               end = daysBefore (m + 1)
           in if dd \<ge> end then (m + 2, dd - end + 1) else (m + 1, dd - daysBefore m + 1))"

definition absYear :: "int \<Rightarrow> int \<times> int" where
  "absYear n =
     (let n400 = n div 146097; r = n mod 146097;
          c = r div 36524; c = c - c div 4; r = r - 36524 * c;
          f = r div 1461; r = r - 1461 * f;
          g = r div 365; g = g - g div 4
      in (400 * n400 + 100 * c + 4 * f + g + 1, r - 365 * g))"

definition absDate :: "int \<Rightarrow> BusinessDate" where
  "absDate n = (case absYear n of (y, yd) \<Rightarrow>
     case monthDay (IsLeapYear y) yd of (m, d) \<Rightarrow> BusinessDate y m d)"

text \<open>An instant's civil date in UTC, and its weekday (day 0 is a Monday).\<close>

definition dayOf :: "int \<Rightarrow> int" where
  "dayOf t = t div nsPerDay"

definition weekdayOf :: "int \<Rightarrow> Weekday" where
  "weekdayOf n =
     [Sunday, Monday, Tuesday, Wednesday, Thursday, Friday, Saturday] ! nat ((n + 1) mod 7)"

section \<open>Business dates\<close>

definition Date :: "int \<Rightarrow> int \<Rightarrow> int \<Rightarrow> BusinessDate" where
  "Date y m d = absDate (time_days y m d)"

text \<open>The instant of a date: midnight UTC.\<close>

definition bd_days :: "BusinessDate \<Rightarrow> int" where
  "bd_days b = time_days (year b) (month b) (day b)"

definition bd_time :: "BusinessDate \<Rightarrow> int" where
  "bd_time b = bd_days b * nsPerDay"

definition AddDays :: "BusinessDate \<Rightarrow> int \<Rightarrow> BusinessDate" where
  "AddDays b n = absDate (time_days (year b) (month b) (day b + n))"

definition Before :: "BusinessDate \<Rightarrow> BusinessDate \<Rightarrow> bool" where
  "Before b o' \<longleftrightarrow> bd_time b < bd_time o'"

definition After :: "BusinessDate \<Rightarrow> BusinessDate \<Rightarrow> bool" where
  "After b o' \<longleftrightarrow> bd_time b > bd_time o'"

definition Equal :: "BusinessDate \<Rightarrow> BusinessDate \<Rightarrow> bool" where
  "Equal b o' \<longleftrightarrow> b = o'"

definition weekday :: "BusinessDate \<Rightarrow> Weekday" where
  "weekday b = weekdayOf (bd_days b)"

text \<open>\<^verbatim>\<open>time.Time.Sub\<close> saturates at the ends of \<^verbatim>\<open>time.Duration\<close>, an \<^verbatim>\<open>int64\<close> of nanoseconds.\<close>

definition time_Sub :: "int \<Rightarrow> int \<Rightarrow> int" where
  "time_Sub t u = (if in64 (t - u) then t - u else if t < u then MinInt64 else MaxInt64)"

definition DaysBetween :: "BusinessDate \<Rightarrow> BusinessDate \<Rightarrow> int" where
  "DaysBetween b o' = quot64 (time_Sub (bd_time o') (bd_time b)) nsPerDay"

definition daysIn :: "int \<Rightarrow> int \<Rightarrow> int" where
  "daysIn m y = (if m = 2 \<and> IsLeapYear y then 29 else daysBefore m - daysBefore (m - 1))"

definition valid_date :: "BusinessDate \<Rightarrow> bool" where
  "valid_date b \<longleftrightarrow> 1 \<le> month b \<and> month b \<le> 12 \<and> 1 \<le> day b \<and> day b \<le> daysIn (month b) (year b)"

section \<open>The day count and its inverse\<close>

lemma daysBefore_simps [simp]:
  "daysBefore 0 = 0" "daysBefore 1 = 31" "daysBefore 2 = 59" "daysBefore 3 = 90"
  "daysBefore 4 = 120" "daysBefore 5 = 151" "daysBefore 6 = 181" "daysBefore 7 = 212"
  "daysBefore 8 = 243" "daysBefore 9 = 273" "daysBefore 10 = 304" "daysBefore 11 = 334"
  "daysBefore 12 = 365"
  by (simp_all add: daysBefore_def)

lemma daysBefore_mono:
  assumes "0 \<le> i" "i \<le> j" "j \<le> 12"
  shows "daysBefore i \<le> daysBefore j"
  unfolding daysBefore_def using assms by (intro sorted_nth_mono) auto

lemma month_cases:
  fixes m :: int
  assumes "1 \<le> m" "m \<le> 12"
  shows "m = 1 \<or> m = 2 \<or> m = 3 \<or> m = 4 \<or> m = 5 \<or> m = 6 \<or> m = 7 \<or> m = 8 \<or> m = 9 \<or> m = 10 \<or> m = 11 \<or> m = 12"
  using assms by presburger

text \<open>The cycle decomposition of a year, and its day count.\<close>

lemma daysSinceEpoch_cycles:
  assumes "0 \<le> c" "c < 4" "0 \<le> f" "f < 25" "0 \<le> g" "g < 4"
  shows "daysSinceEpoch (400 * q + 100 * c + 4 * f + g + 1) = 146097 * q + 36524 * c + 1461 * f + 365 * g"
proof -
  let ?y = "400 * q + 100 * c + 4 * f + g + 1 - 1"
  have y: "?y = 400 * q + (100 * c + (4 * f + g))" by simp
  have b: "0 \<le> 4 * f + g" "4 * f + g < 100" "0 \<le> 100 * c + (4 * f + g)" "100 * c + (4 * f + g) < 400"
    using assms by linarith+
  have d1: "?y div 400 = q" by (rule int_div_pos_eq [OF y b(3,4)])
  have d2: "?y mod 400 = 100 * c + (4 * f + g)" by (rule int_mod_pos_eq [OF y b(3,4)])
  have d3: "(100 * c + (4 * f + g)) div 100 = c" by (rule int_div_pos_eq [OF refl b(1,2)])
  have d4: "(100 * c + (4 * f + g)) mod 100 = 4 * f + g" by (rule int_mod_pos_eq [OF refl b(1,2)])
  have d5: "(4 * f + g) div 4 = f" by (rule int_div_pos_eq [OF refl assms(5,6)])
  have d6: "(4 * f + g) mod 4 = g" by (rule int_mod_pos_eq [OF refl assms(5,6)])
  show ?thesis unfolding daysSinceEpoch_def Let_def d1 d2 d3 d4 d5 d6 by (rule refl)
qed

lemma year_cycles:
  obtains q c f g where "y = 400 * q + 100 * c + 4 * f + g + 1"
    "0 \<le> c" "c < 4" "0 \<le> f" "f < 25" "0 \<le> g" "g < (4::int)"
proof -
  let ?r = "(y - 1) mod 400" and ?s = "(y - 1) mod 400 mod 100"
  have "?r div 100 < 4" "0 \<le> ?r div 100"
    by (simp_all add: div_less_iff_less_mult pos_imp_zdiv_nonneg_iff)
  moreover have "?s div 4 < 25" "0 \<le> ?s div 4"
    by (simp_all add: div_less_iff_less_mult pos_imp_zdiv_nonneg_iff)
  moreover have "0 \<le> ?s mod 4" "?s mod 4 < 4" by simp_all
  moreover have "y = 400 * ((y - 1) div 400) + 100 * (?r div 100) + 4 * (?s div 4) + ?s mod 4 + 1"
    by presburger
  ultimately show ?thesis using that by blast
qed

lemma mod_eq_0_iff_top:
  fixes v k :: int
  assumes "0 < v" "v \<le> k"
  shows "v mod k = 0 \<longleftrightarrow> v = k"
  using assms by (cases "v = k") (simp_all add: mod_pos_pos_trivial)

lemma leap_cycles:
  assumes "0 \<le> c" "c < 4" "0 \<le> f" "f < 25" "0 \<le> g" "g < (4::int)"
  shows "IsLeapYear (400 * q + 100 * c + 4 * f + g + 1) \<longleftrightarrow> g = 3 \<and> (f \<noteq> 24 \<or> c = 3)"
proof -
  let ?y = "400 * q + 100 * c + 4 * f + g + 1"
  have "?y mod 4 = (g + 1 + 4 * (100 * q + 25 * c + f)) mod 4" by (simp add: algebra_simps)
  then have 4: "?y mod 4 = 0 \<longleftrightarrow> g = 3"
    using assms mod_eq_0_iff_top [of "g + 1" 4] by (simp only: mod_mult_self2) linarith
  have "?y mod 100 = (4 * f + g + 1 + 100 * (4 * q + c)) mod 100" by (simp add: algebra_simps)
  then have "?y mod 100 = 0 \<longleftrightarrow> 4 * f + g + 1 = 100"
    using assms mod_eq_0_iff_top [of "4 * f + g + 1" 100] by (simp only: mod_mult_self2)
  also have "\<dots> \<longleftrightarrow> f = 24 \<and> g = 3"
    using assms by (intro iffI conjI; linarith)
  finally have 100: "?y mod 100 = 0 \<longleftrightarrow> f = 24 \<and> g = 3" .
  have "?y mod 400 = (100 * c + 4 * f + g + 1 + 400 * q) mod 400" by (simp add: algebra_simps)
  then have "?y mod 400 = 0 \<longleftrightarrow> 100 * c + 4 * f + g + 1 = 400"
    using assms mod_eq_0_iff_top [of "100 * c + 4 * f + g + 1" 400] by (simp only: mod_mult_self2)
  also have "\<dots> \<longleftrightarrow> f = 24 \<and> g = 3 \<and> c = 3"
    using assms by (intro iffI conjI; linarith)
  finally show ?thesis unfolding IsLeapYear_def 4 100 by auto
qed

lemma daysSinceEpoch_Suc: "daysSinceEpoch (y + 1) = daysSinceEpoch y + DaysInYear y"
proof -
  obtain q c f g where y: "y = 400 * q + 100 * c + 4 * f + g + 1"
    and b: "0 \<le> c" "c < 4" "0 \<le> f" "f < 25" "0 \<le> g" "g < 4"
    by (rule year_cycles)
  have next_cycle: "y + 1 = 400 * q + 100 * c + 4 * f + (g + 1) + 1"
    "g = 3 \<Longrightarrow> y + 1 = 400 * q + 100 * c + 4 * (f + 1) + 0 + 1"
    "g = 3 \<Longrightarrow> f = 24 \<Longrightarrow> y + 1 = 400 * q + 100 * (c + 1) + 4 * 0 + 0 + 1"
    "g = 3 \<Longrightarrow> f = 24 \<Longrightarrow> c = 3 \<Longrightarrow> y + 1 = 400 * (q + 1) + 100 * 0 + 4 * 0 + 0 + 1"
    using y by simp_all
  have leap: "IsLeapYear y \<longleftrightarrow> g = 3 \<and> (f \<noteq> 24 \<or> c = 3)"
    unfolding y using b by (rule leap_cycles)
  have this_year: "daysSinceEpoch y = 146097 * q + 36524 * c + 1461 * f + 365 * g"
    unfolding y using b by (rule daysSinceEpoch_cycles)
  consider "g < 3" | "g = 3" "f < 24" | "g = 3" "f = 24" "c < 3" | "g = 3" "f = 24" "c = 3"
    using b by linarith
  then show ?thesis
  proof cases
    case 1
    then have "daysSinceEpoch (y + 1) = 146097 * q + 36524 * c + 1461 * f + 365 * (g + 1)"
      unfolding next_cycle(1) using b by (intro daysSinceEpoch_cycles) simp_all
    with 1 this_year leap show ?thesis by (simp add: DaysInYear_def)
  next
    case 2
    then have "daysSinceEpoch (y + 1) = 146097 * q + 36524 * c + 1461 * (f + 1) + 365 * 0"
      unfolding next_cycle(2) [OF 2(1)] using b by (intro daysSinceEpoch_cycles) simp_all
    with 2 this_year leap show ?thesis by (simp add: DaysInYear_def)
  next
    case 3
    then have "daysSinceEpoch (y + 1) = 146097 * q + 36524 * (c + 1) + 1461 * 0 + 365 * 0"
      unfolding next_cycle(3) [OF 3(1,2)] using b by (intro daysSinceEpoch_cycles) simp_all
    with 3 this_year leap show ?thesis by (simp add: DaysInYear_def)
  next
    case 4
    then have "daysSinceEpoch (y + 1) = 146097 * (q + 1) + 36524 * 0 + 1461 * 0 + 365 * 0"
      unfolding next_cycle(4) [OF 4] using b by (intro daysSinceEpoch_cycles) simp_all
    with 4 this_year leap show ?thesis by (simp add: DaysInYear_def)
  qed
qed

lemma daysSinceEpoch_strict: "y < z \<Longrightarrow> daysSinceEpoch y < daysSinceEpoch z"
proof (induction "nat (z - y)" arbitrary: z)
  case (Suc k)
  have step: "daysSinceEpoch z = daysSinceEpoch (z - 1) + DaysInYear (z - 1)"
    using daysSinceEpoch_Suc [of "z - 1"] by simp
  have "0 < DaysInYear (z - 1)" by (simp add: DaysInYear_def)
  moreover have "y = z - 1 \<or> y < z - 1" using Suc.prems by linarith
  then have "daysSinceEpoch y \<le> daysSinceEpoch (z - 1)"
    using Suc.hyps(1) [of "z - 1"] Suc.hyps(2) by fastforce
  ultimately show ?case using step by linarith
qed simp

text \<open>
  Cutting a range of four periods and possibly one extra day: the cut is 0 to 3, and only
  the last period may hold the extra day.
\<close>

lemma cut4:
  fixes r p :: int
  assumes "0 \<le> r" "r \<le> 4 * p" "0 < p"
  defines "c \<equiv> r div p - r div p div 4"
  shows "0 \<le> c" "c < 4" "0 \<le> r - p * c" "r - p * c \<le> p"
    "c < 3 \<longrightarrow> r - p * c < p" "r - p * c = p \<longrightarrow> r = 4 * p"
proof -
  have k: "p * (r div p) \<le> r" "r < p * (r div p) + p"
    using assms(3) by (simp_all add: mult.commute [of p] minus_mod_eq_div_mult [symmetric])
  have "0 \<le> r div p" using assms(1,3) by (simp add: pos_imp_zdiv_nonneg_iff)
  moreover have "r div p \<le> 4 * p div p" using assms(2,3) by (intro zdiv_mono1) simp_all
  then have "r div p \<le> 4" using assms(3) by simp
  ultimately consider "0 \<le> r div p" "r div p \<le> 3" "r div p div 4 = 0" | "r div p = 4" "r div p div 4 = 1"
    by (cases "r div p = 4") (auto simp: div_pos_pos_trivial)
  then have "(0 \<le> c \<and> c \<le> 3 \<and> c = r div p) \<or> (c = 3 \<and> r = 4 * p)"
  proof cases
    case 2
    with k assms(2) show ?thesis by (simp add: c_def)
  qed (simp add: c_def)
  then show "0 \<le> c" "c < 4" "0 \<le> r - p * c" "r - p * c \<le> p"
    "c < 3 \<longrightarrow> r - p * c < p" "r - p * c = p \<longrightarrow> r = 4 * p"
    using k by auto
qed

text \<open>\<^verbatim>\<open>absYear\<close> finds the year whose day range contains the given day.\<close>

lemma absYear_correct:
  assumes "absYear n = (y, yd)"
  shows "daysSinceEpoch y + yd = n \<and> 0 \<le> yd \<and> yd < DaysInYear y"
proof -
  define q r where "q = n div 146097" and "r = n mod 146097"
  define c where "c = r div 36524 - r div 36524 div 4"
  define r1 where "r1 = r - 36524 * c"
  define f where "f = r1 div 1461"
  define r2 where "r2 = r1 - 1461 * f"
  define g where "g = r2 div 365 - r2 div 365 div 4"
  note defs = q_def r_def c_def r1_def f_def r2_def g_def
  have "(400 * q + 100 * c + 4 * f + g + 1, r2 - 365 * g) = (y, yd)"
    using assms unfolding absYear_def Let_def defs .
  then have y: "y = 400 * q + 100 * c + 4 * f + g + 1" and yd: "yd = r2 - 365 * g" by blast+
  have n: "n = 146097 * q + r" unfolding q_def r_def by (rule mult_div_mod_eq [symmetric])
  have "0 \<le> r" unfolding r_def by (rule pos_mod_sign) simp
  note n = n this
  have "r < 146097" unfolding r_def by (rule pos_mod_bound) simp
  then have "r \<le> 4 * 36524" by simp
  note n = n this
  note c = cut4 [OF n(2,3), folded c_def, simplified, folded r1_def]
  have "0 \<le> r1" "r1 \<le> 36524" using c(3,4) by (simp_all add: r1_def)
  have fb: "1461 * f \<le> r1" "r1 < 1461 * f + 1461"
    by (simp_all add: f_def mult.commute [of 1461] minus_mod_eq_div_mult [symmetric])
  have f: "0 \<le> f" "f < 25" "0 \<le> r2" "r2 \<le> 4 * 365"
    using fb \<open>0 \<le> r1\<close> \<open>r1 \<le> 36524\<close> by (simp_all add: r2_def)
  have f24: "r2 < 1460" if "f = 24" "c < 3"
    using that c(5) by (simp add: r2_def)
  note g = cut4 [OF f(3,4), folded g_def, simplified, folded yd]
  have days: "daysSinceEpoch y = 146097 * q + 36524 * c + 1461 * f + 365 * g"
    unfolding y using c f g by (intro daysSinceEpoch_cycles) simp_all
  have leap: "IsLeapYear y \<longleftrightarrow> g = 3 \<and> (f \<noteq> 24 \<or> c = 3)"
    unfolding y using c f g by (intro leap_cycles) simp_all
  have "IsLeapYear y" if "yd = 365"
  proof -
    from that g(6) have "r2 = 1460" by simp
    with f24 c(2) have "f \<noteq> 24 \<or> c = 3" by linarith
    moreover have "g = 3" using that g(2,5) by linarith
    ultimately show ?thesis using leap by simp
  qed
  then have "yd < DaysInYear y" using g(4) by (cases "yd = 365") (simp_all add: DaysInYear_def)
  then show ?thesis using days n(1) yd r1_def r2_def g(3) by simp
qed

text \<open>Within a year, \<^verbatim>\<open>monthDay\<close> inverts the month table.\<close>

definition yearDay :: "bool \<Rightarrow> int \<Rightarrow> int \<Rightarrow> int" where
  "yearDay leap m d = daysBefore (m - 1) + (if leap \<and> m \<ge> 3 then 1 else 0) + (d - 1)"

definition monthLen :: "bool \<Rightarrow> int \<Rightarrow> int" where
  "monthLen leap m = (if m = 2 \<and> leap then 29 else daysBefore m - daysBefore (m - 1))"

lemma monthDay_table:
  fixes d :: int
  assumes "1 \<le> m" "m \<le> 12" "1 \<le> d" "d \<le> daysBefore m - daysBefore (m - 1)"
  shows "monthDay False (daysBefore (m - 1) + (d - 1)) = (m, d)"
proof -
  let ?dd = "daysBefore (m - 1) + (d - 1)"
  define k where "k = ?dd div 31"
  have k: "31 * k \<le> ?dd" "?dd < 31 * k + 31"
    by (simp_all add: k_def mult.commute [of 31] minus_mod_eq_div_mult [symmetric])
  have "m - 2 \<le> k" "k \<le> m - 1" "0 \<le> ?dd"
    using month_cases [OF assms(1,2)] k assms(3,4) by (elim disjE; simp)+
  moreover have "0 \<le> k" using k(2) \<open>0 \<le> ?dd\<close> by linarith
  ultimately consider "k = m - 1" | "k = m - 2" by linarith
  moreover have "monthDay False ?dd = (if ?dd \<ge> daysBefore (k + 1)
      then (k + 2, ?dd - daysBefore (k + 1) + 1) else (k + 1, ?dd - daysBefore k + 1))"
    by (simp add: monthDay_def Let_def k_def)
  ultimately show ?thesis
    using assms(3,4) by cases simp_all
qed

lemma monthDay_leap:
  "yd < 59 \<Longrightarrow> monthDay True yd = monthDay False yd"
  "yd > 59 \<Longrightarrow> monthDay True yd = monthDay False (yd - 1)"
  by (simp_all add: monthDay_def)

lemma monthDay_yearDay:
  assumes "1 \<le> m" "m \<le> 12" "1 \<le> d" "d \<le> monthLen leap m"
  shows "monthDay leap (yearDay leap m d) = (m, d)"
proof -
  have late: "m \<ge> 3 \<Longrightarrow> daysBefore (m - 1) \<ge> 59" and early: "m = 1 \<Longrightarrow> daysBefore m = 31"
    using month_cases [OF assms(1,2)] by (elim disjE; simp)+
  consider "leap" "m = 2" "d = 29" | "d \<le> daysBefore m - daysBefore (m - 1)"
    using assms(3,4) by (fastforce simp: monthLen_def split: if_splits)
  then show ?thesis
  proof cases
    case 1
    then show ?thesis by (simp add: monthDay_def yearDay_def)
  next
    case 2
    have table: "monthDay False (daysBefore (m - 1) + (d - 1)) = (m, d)"
      using assms(1-3) 2 by (rule monthDay_table)
    consider "\<not> leap" | "leap" "m = 1 \<or> m = 2" | "leap" "m \<ge> 3"
      using assms(1) by linarith
    then show ?thesis
    proof cases
      case 1
      with table show ?thesis by (simp add: yearDay_def)
    next
      case 2
      then have "daysBefore (m - 1) + (d - 1) < 59" using \<open>d \<le> daysBefore m - _\<close> by auto
      with table 2 show ?thesis by (auto simp: yearDay_def monthDay_leap)
    next
      case 3
      then have "daysBefore (m - 1) + (d - 1) \<ge> 59" using late assms(3) by linarith
      with table 3 show ?thesis by (simp add: yearDay_def monthDay_leap add_diff_eq)
    qed
  qed
qed

text \<open>Every day of a year is the day of some month.\<close>

lemma yearDay_surj:
  assumes "0 \<le> yd" "yd < (if leap then 366 else 365)"
  obtains m d where "1 \<le> m" "m \<le> 12" "1 \<le> d" "d \<le> monthLen leap m" "yearDay leap m d = yd"
proof -
  note that' = that
  define l :: int where "l = (if leap then 1 else 0)"
  have here: thesis
    if "1 \<le> m" "m \<le> 12" "daysBefore (m - 1) + (if m \<ge> 3 then l else 0) \<le> yd"
      "yd < daysBefore m + (if m \<ge> 2 then l else 0)" for m
  proof (rule that')
    show "1 \<le> m" "m \<le> 12" by fact+
    show "1 \<le> yd - daysBefore (m - 1) - (if m \<ge> 3 then l else 0) + 1" using that(3) by simp
    show "yd - daysBefore (m - 1) - (if m \<ge> 3 then l else 0) + 1 \<le> monthLen leap m"
      using that(1,4) by (cases "m = 2") (auto simp: monthLen_def l_def split: if_splits)
    show "yearDay leap m (yd - daysBefore (m - 1) - (if m \<ge> 3 then l else 0) + 1) = yd"
      by (simp add: yearDay_def l_def)
  qed
  have "yd < 365 + l" using assms(2) by (simp add: l_def split: if_splits)
  consider "yd < 31" | "31 \<le> yd" "yd < 59 + l" | "59 + l \<le> yd" "yd < 90 + l"
    | "90 + l \<le> yd" "yd < 120 + l" | "120 + l \<le> yd" "yd < 151 + l"
    | "151 + l \<le> yd" "yd < 181 + l" | "181 + l \<le> yd" "yd < 212 + l"
    | "212 + l \<le> yd" "yd < 243 + l" | "243 + l \<le> yd" "yd < 273 + l"
    | "273 + l \<le> yd" "yd < 304 + l" | "304 + l \<le> yd" "yd < 334 + l"
    | "334 + l \<le> yd" "yd < 365 + l"
    using \<open>yd < 365 + l\<close> by (meson not_le)
  then show thesis
    using assms(1)
    by cases (rule here [of 1] here [of 2] here [of 3] here [of 4] here [of 5] here [of 6]
        here [of 7] here [of 8] here [of 9] here [of 10] here [of 11] here [of 12]; simp; fail)+
qed

lemma absYear_unique:
  assumes "0 \<le> yd" "yd < DaysInYear y"
  shows "absYear (daysSinceEpoch y + yd) = (y, yd)"
proof -
  obtain y' yd' where abs: "absYear (daysSinceEpoch y + yd) = (y', yd')" by (metis surj_pair)
  from absYear_correct [OF abs]
  have sum: "daysSinceEpoch y' + yd' = daysSinceEpoch y + yd" and "0 \<le> yd'" "yd' < DaysInYear y'"
    by simp_all
  have gap: "daysSinceEpoch u + DaysInYear u \<le> daysSinceEpoch v" if "u < v" for u v
    using that daysSinceEpoch_Suc [of u] daysSinceEpoch_strict [of "u + 1" v]
    by (cases "u + 1 = v") auto
  have "\<not> y' < y" using gap [of y' y] sum \<open>yd' < DaysInYear y'\<close> assms(1) by linarith
  moreover have "\<not> y < y'" using gap [of y y'] sum \<open>0 \<le> yd'\<close> assms(2) by linarith
  ultimately have "y' = y" by linarith
  with abs sum show ?thesis by simp
qed

lemma monthLen_daysIn: "monthLen (IsLeapYear y) m = daysIn m y"
  by (simp add: monthLen_def daysIn_def)

lemma time_days_in_year:
  assumes "1 \<le> m" "m \<le> 12"
  shows "time_days y m d = daysSinceEpoch y + yearDay (IsLeapYear y) m d"
proof -
  have "(m - 1) div 12 = 0" "(m - 1) mod 12 = m - 1"
    using assms by (simp_all add: div_pos_pos_trivial mod_pos_pos_trivial)
  then show ?thesis by (simp add: time_days_def yearDay_def Let_def)
qed

lemma yearDay_bounds:
  assumes "1 \<le> m" "m \<le> 12" "1 \<le> d" "d \<le> daysIn m y"
  shows "0 \<le> yearDay (IsLeapYear y) m d" "yearDay (IsLeapYear y) m d < DaysInYear y"
  using month_cases [OF assms(1,2)] assms(3,4)
  by (elim disjE; simp add: yearDay_def daysIn_def DaysInYear_def split: if_splits)+

lemma time_days_shift: "time_days y m (d + n) = time_days y m d + n"
  by (simp add: time_days_def Let_def)

text \<open>The two directions of the bijection between valid dates and day numbers.\<close>

lemma absDate_bd_days [date_simps]: "valid_date b \<Longrightarrow> absDate (bd_days b) = b"
  by (cases b) (simp add: valid_date_def bd_days_def time_days_in_year absDate_def
      absYear_unique yearDay_bounds monthDay_yearDay monthLen_daysIn)

lemma absDate_valid_and_inverse: "valid_date (absDate n) \<and> bd_days (absDate n) = n"
proof -
  obtain y yd where abs: "absYear n = (y, yd)" by (metis surj_pair)
  from absYear_correct [OF abs]
  have n: "daysSinceEpoch y + yd = n" and "0 \<le> yd" "yd < DaysInYear y" by simp_all
  then have "0 \<le> yd" "yd < (if IsLeapYear y then 366 else 365)" by (simp_all add: DaysInYear_def)
  then obtain m d where md: "1 \<le> m" "m \<le> 12" "1 \<le> d" "d \<le> monthLen (IsLeapYear y) m"
      "yearDay (IsLeapYear y) m d = yd"
    by (rule yearDay_surj)
  then have "monthDay (IsLeapYear y) yd = (m, d)" using monthDay_yearDay by blast
  then have "absDate n = BusinessDate y m d" by (simp add: absDate_def abs)
  with md n show ?thesis
    by (simp add: valid_date_def bd_days_def time_days_in_year monthLen_daysIn)
qed

lemma valid_absDate [simp]: "valid_date (absDate n)"
  using absDate_valid_and_inverse by blast

lemma bd_days_absDate [simp]: "bd_days (absDate n) = n"
  using absDate_valid_and_inverse by blast

lemma bd_days_inj: "valid_date a \<Longrightarrow> valid_date b \<Longrightarrow> bd_days a = bd_days b \<longleftrightarrow> a = b"
  by (metis absDate_bd_days)

lemma valid_Date [simp]: "valid_date (Date y m d)"
  by (simp add: Date_def)

lemma bd_days_Date [simp]: "bd_days (Date y m d) = time_days y m d"
  by (simp add: Date_def)

lemma Date_bd_days: "Date (year b) (month b) (day b) = absDate (bd_days b)"
  by (simp add: Date_def bd_days_def)

lemma Date_valid [simp]: "valid_date (BusinessDate y m d) \<Longrightarrow> Date y m d = BusinessDate y m d"
  using Date_bd_days [of "BusinessDate y m d"] by (simp add: absDate_bd_days)

lemma daysIn_bounds:
  assumes "1 \<le> m" "m \<le> 12"
  shows "28 \<le> daysIn m y \<and> daysIn m y \<le> 31"
  using month_cases [OF assms] by (elim disjE) (simp_all add: daysIn_def)

lemma valid_date_bounds:
  assumes "valid_date b"
  shows "1 \<le> month b \<and> month b \<le> 12 \<and> 1 \<le> day b \<and> day b \<le> 31"
  using assms daysIn_bounds [of "month b" "year b"] by (auto simp: valid_date_def)

lemma AddDays_absDate [date_simps]: "AddDays b n = absDate (bd_days b + n)"
  by (simp add: AddDays_def bd_days_def time_days_shift)

lemma valid_AddDays [simp]: "valid_date (AddDays b n)"
  by (simp add: AddDays_absDate)

lemma bd_days_AddDays [simp]: "bd_days (AddDays b n) = bd_days b + n"
  by (simp add: AddDays_absDate)

lemma Before_iff [date_simps]: "Before a b \<longleftrightarrow> bd_days a < bd_days b"
  by (simp add: Before_def bd_time_def nsPerDay_def)

lemma After_iff [date_simps]: "After a b \<longleftrightarrow> bd_days b < bd_days a"
  by (simp add: After_def bd_time_def nsPerDay_def)

lemma weekdayOf_week: "weekdayOf (n + 7 * k) = weekdayOf n"
proof -
  have "(n + 7 * k + 1) mod 7 = (n + 1 + 7 * k) mod 7" by (simp add: algebra_simps)
  then show ?thesis by (simp add: weekdayOf_def)
qed

section \<open>Order\<close>

text \<open>
  Dates are ordered by year, month and day; on valid dates this is the order of the instants.\<close>

instantiation BusinessDate :: linorder
begin

definition less_eq_BusinessDate :: "BusinessDate \<Rightarrow> BusinessDate \<Rightarrow> bool" where
  "less_eq_BusinessDate a b \<longleftrightarrow>
     year a < year b \<or> year a = year b \<and> (month a < month b \<or> month a = month b \<and> day a \<le> day b)"

definition less_BusinessDate :: "BusinessDate \<Rightarrow> BusinessDate \<Rightarrow> bool" where
  "less_BusinessDate a b \<longleftrightarrow>
     year a < year b \<or> year a = year b \<and> (month a < month b \<or> month a = month b \<and> day a < day b)"

instance
  by standard
    (auto simp: less_eq_BusinessDate_def less_BusinessDate_def intro: BusinessDate.expand)

end

lemma bd_days_strict:
  assumes "valid_date a" "valid_date b" "a < b"
  shows "bd_days a < bd_days b"
proof -
  note va = assms(1) [unfolded valid_date_def] and vb = assms(2) [unfolded valid_date_def]
  have days: "bd_days d = daysSinceEpoch (year d) + yearDay (IsLeapYear (year d)) (month d) (day d)"
    if "valid_date d" for d
    using that by (simp add: bd_days_def time_days_in_year valid_date_def)
  have bounds: "0 \<le> yearDay (IsLeapYear (year d)) (month d) (day d)"
    "yearDay (IsLeapYear (year d)) (month d) (day d) < DaysInYear (year d)" if "valid_date d" for d
    using that yearDay_bounds by (simp_all add: valid_date_def)
  from assms(3) consider "year a < year b" | "year a = year b" "month a < month b"
    | "year a = year b" "month a = month b" "day a < day b"
    by (auto simp: less_BusinessDate_def)
  then show ?thesis
  proof cases
    case 1
    then have "daysSinceEpoch (year a) + DaysInYear (year a) \<le> daysSinceEpoch (year b)"
      using daysSinceEpoch_Suc [of "year a"] daysSinceEpoch_strict [of "year a + 1" "year b"]
      by (cases "year a + 1 = year b") auto
    with days bounds assms(1,2) show ?thesis by fastforce
  next
    case 2
    have "yearDay (IsLeapYear (year a)) (month a) (day a) < daysBefore (month a) + (if IsLeapYear (year a) \<and> month a \<ge> 2 then 1 else 0)"
      using va by (cases "month a = 2") (auto simp: yearDay_def daysIn_def)
    moreover have "daysBefore (month a) \<le> daysBefore (month b - 1)"
      using va vb 2(2) by (intro daysBefore_mono) simp_all
    ultimately show ?thesis
      using days [OF assms(1)] days [OF assms(2)] 2 vb by (auto simp: yearDay_def split: if_splits)
  next
    case 3
    then show ?thesis using days assms(1,2) by (simp add: yearDay_def)
  qed
qed

lemma less_iff_bd_days [date_simps]:
  "valid_date a \<Longrightarrow> valid_date b \<Longrightarrow> a < b \<longleftrightarrow> bd_days a < bd_days b"
  by (metis bd_days_strict less_asym less_irrefl neq_iff)

lemma in64_ns_iff: "in64 (k * nsPerDay) \<longleftrightarrow> - 106751 \<le> k \<and> k \<le> 106751"
  unfolding in64_iff nsPerDay_def by (intro iffI conjI; elim conjE; linarith)

lemma DaysBetween_char:
  "DaysBetween a b =
     (let k = bd_days b - bd_days a in if k < - 106751 then - 106751 else if k > 106751 then 106751 else k)"
proof -
  define k where "k = bd_days b - bd_days a"
  have k: "bd_time b - bd_time a = k * nsPerDay"
    by (simp add: bd_time_def k_def left_diff_distrib)
  have order: "bd_time b < bd_time a \<longleftrightarrow> k < 0"
    by (simp add: bd_time_def k_def nsPerDay_def)
  have small: "quot64 (k * nsPerDay) nsPerDay = k" if "in64 (k * nsPerDay)"
  proof -
    have "sgn (k * nsPerDay) * sgn nsPerDay * (\<bar>k * nsPerDay\<bar> div \<bar>nsPerDay\<bar>) = k"
      by (simp add: nsPerDay_def abs_mult sgn_mult sgn_mult_abs)
    moreover have "in64 k" using that in64_ns_iff [of k] by (simp add: in64_iff)
    ultimately show ?thesis by (simp add: quot64_def)
  qed
  have ends: "quot64 MinInt64 nsPerDay = - 106751" "quot64 MaxInt64 nsPerDay = 106751"
    by (simp_all add: quot64_def MinInt64_def MaxInt64_def nsPerDay_def wrap64_def)
  show ?thesis
  proof (cases "in64 (k * nsPerDay)")
    case True
    then show ?thesis
      using small in64_ns_iff [of k] by (simp add: DaysBetween_def time_Sub_def k Let_def flip: k_def)
  next
    case False
    then show ?thesis
      using ends in64_ns_iff [of k] order
      by (auto simp: DaysBetween_def time_Sub_def k Let_def simp flip: k_def)
  qed
qed

section \<open>Properties\<close>

text \<open>
  \<^verbatim>\<open>Date\<close> and the civil calendar agree: building a valid date from its own fields returns
  it, every call of \<^verbatim>\<open>Date\<close> or \<^verbatim>\<open>AddDays\<close> yields a valid date, and moving by days composes
  additively and is undone by moving back.
\<close>

theorem AddDays_group:
  assumes "valid_date b"
  shows "Date (year b) (month b) (day b) = b \<and> AddDays b 0 = b \<and>
    valid_date (AddDays b m) \<and> AddDays (AddDays b m) n = AddDays b (m + n) \<and>
    AddDays (AddDays b m) (- m) = b"
  using assms absDate_bd_days [of b] by (simp add: AddDays_absDate Date_bd_days add.assoc)

theorem AddDays_group_witness:
  "valid_date (BusinessDate 2028 2 28) \<and>
   AddDays (AddDays (BusinessDate 2028 2 28) 2) (- 2) = BusinessDate 2028 2 28"
proof -
  have h: "valid_date (BusinessDate 2028 2 28)"
    by (simp add: valid_date_def daysIn_def)
  show ?thesis using h AddDays_group [OF h, of 2] by simp
qed

text \<open>
  On valid dates the instant order used by \<^verbatim>\<open>Before\<close> and \<^verbatim>\<open>After\<close> is the lexicographic order
  of year, month and day, so the loops that step a date by one day until it is after an
  end date visit each calendar day once, in order.
\<close>

theorem Before_lexicographic:
  assumes "valid_date a" "valid_date b"
  shows "(Before a b \<longleftrightarrow> a < b) \<and> (After a b \<longleftrightarrow> b < a) \<and> Before a (AddDays a 1) \<and>
    (a < b \<longrightarrow> \<not> After (AddDays a 1) b)"
  using assms by (simp add: Before_iff After_iff less_iff_bd_days)

theorem Before_lexicographic_witness:
  "Before (BusinessDate 2027 12 31) (BusinessDate 2028 1 1)"
proof -
  have h: "valid_date (BusinessDate 2027 12 31)" "valid_date (BusinessDate 2028 1 1)"
    by (simp_all add: valid_date_def daysIn_def)
  show ?thesis using Before_lexicographic [OF h] by (simp add: less_BusinessDate_def)
qed

text \<open>
  \<^verbatim>\<open>DaysBetween\<close> counts calendar days exactly as long as the two dates are at most 106751
  days (292 years) apart, and returns that bound beyond it, because the difference passes
  through a saturating \<^verbatim>\<open>time.Duration\<close>.
\<close>

theorem DaysBetween_saturates:
  "DaysBetween b (AddDays b n) =
     (if n < - 106751 then - 106751 else if n > 106751 then 106751 else n)"
  by (simp add: DaysBetween_char Let_def)

end
