(* ===== verification/Dateformat.thy ===== *)
theory Dateformat
  imports Bizdate
begin

text \<open>
  The wire format of \<^verbatim>\<open>internal/bizdate/date.go\<close>: \<^verbatim>\<open>String\<close> (\<^verbatim>\<open>%04d-%02d-%02d\<close>) and \<^verbatim>\<open>Parse\<close>
  (\<^verbatim>\<open>time.ParseInLocation\<close> with the layout \<^verbatim>\<open>2006-01-02\<close>), and the proof that the accepted
  strings are exactly the printed valid dates of the years 0 to 9999.
\<close>

section \<open>Printing\<close>

definition digitChar :: "nat \<Rightarrow> char" where
  "digitChar n = char_of (48 + n)"

fun decimal :: "nat \<Rightarrow> string" where
  "decimal n = (if n < 10 then [digitChar n] else decimal (n div 10) @ [digitChar (n mod 10)])"

declare decimal.simps [simp del]

text \<open>\<^verbatim>\<open>%0<w>d\<close>: the sign counts towards the width, zeros are put after it.\<close>

definition fmt_0d :: "nat \<Rightarrow> int \<Rightarrow> string" where
  "fmt_0d w n =
     (let ds = decimal (nat \<bar>n\<bar>); sg = (if n < 0 then ''-'' else [])
      in sg @ replicate (w - length sg - length ds) (CHR ''0'') @ ds)"

definition BusinessDate_String :: "BusinessDate \<Rightarrow> string" where
  "BusinessDate_String b =
     fmt_0d 4 (year b) @ ''-'' @ fmt_0d 2 (month b) @ ''-'' @ fmt_0d 2 (day b)"

section \<open>Parsing\<close>

datatype date_error = ErrParse string

definition isDigit :: "char \<Rightarrow> bool" where
  "isDigit c \<longleftrightarrow> 48 \<le> (of_char c :: nat) \<and> (of_char c :: nat) \<le> 57"

definition digitVal :: "char \<Rightarrow> int" where
  "digitVal c = int ((of_char c :: nat) - 48)"

text \<open>The leading \<open>k\<close> characters as a number, if they are digits, and the rest.\<close>

definition getnum :: "nat \<Rightarrow> string \<Rightarrow> (int \<times> string) option" where
  "getnum k s =
     (if length s < k \<or> \<not> list_all isDigit (take k s) then None
      else Some (foldl (\<lambda>n c. 10 * n + digitVal c) 0 (take k s), drop k s))"

definition skip_dash :: "string \<Rightarrow> string option" where
  "skip_dash s = (case s of c # cs \<Rightarrow> if c = CHR ''-'' then Some cs else None | [] \<Rightarrow> None)"

definition time_Parse :: "string \<Rightarrow> BusinessDate option" where
  "time_Parse s =
     (case getnum 4 s of None \<Rightarrow> None | Some (y, s1) \<Rightarrow>
      case skip_dash s1 of None \<Rightarrow> None | Some s2 \<Rightarrow>
      case getnum 2 s2 of None \<Rightarrow> None | Some (m, s3) \<Rightarrow>
      if m \<le> 0 \<or> 12 < m then None else
      case skip_dash s3 of None \<Rightarrow> None | Some s4 \<Rightarrow>
      case getnum 2 s4 of None \<Rightarrow> None | Some (d, s5) \<Rightarrow>
      if s5 \<noteq> [] then None
      else if d < 1 \<or> d > daysIn m y then None
      else Some (BusinessDate y m d))"

definition Parse :: "string \<Rightarrow> date_error + BusinessDate" where
  "Parse s = (case time_Parse s of
      None \<Rightarrow> Inl (ErrParse s)
    | Some t \<Rightarrow> Inr (Date (year t) (month t) (day t)))"

section \<open>Digits\<close>

lemma of_char_digitChar: "n < 10 \<Longrightarrow> (of_char (digitChar n) :: nat) = 48 + n"
  by (simp add: digitChar_def)

lemma isDigit_digitChar [simp]: "n < 10 \<Longrightarrow> isDigit (digitChar n)"
  by (simp add: isDigit_def of_char_digitChar)

lemma digitVal_digitChar [simp]: "n < 10 \<Longrightarrow> digitVal (digitChar n) = int n"
  by (simp add: digitVal_def of_char_digitChar)

lemma digitVal_bounds: "isDigit c \<Longrightarrow> 0 \<le> digitVal c \<and> digitVal c < 10"
  by (auto simp: isDigit_def digitVal_def)

lemma digitChar_digitVal: "isDigit c \<Longrightarrow> digitChar (nat (digitVal c)) = c"
  by (simp add: isDigit_def digitVal_def digitChar_def of_nat_diff nat_diff_distrib)

lemma decimal_1: "n < 10 \<Longrightarrow> decimal n = [digitChar n]"
  by (subst decimal.simps) simp

lemma decimal_step: "10 \<le> n \<Longrightarrow> decimal n = decimal (n div 10) @ [digitChar (n mod 10)]"
  by (subst decimal.simps) simp

lemma digitChar_0: "digitChar 0 = CHR ''0''"
  unfolding digitChar_def by code_simp

text \<open>Padding and digits together are the base-10 expansion of the width.\<close>

fun expansion :: "nat \<Rightarrow> nat \<Rightarrow> string" where
  "expansion 0 n = []"
| "expansion (Suc w) n = expansion w (n div 10) @ [digitChar (n mod 10)]"

lemma expansion_zero: "expansion w 0 = replicate w (CHR ''0'')"
  by (induction w) (simp_all add: digitChar_0 replicate_append_same)

lemma expansion_decimal: "n < 10 ^ w \<Longrightarrow> n > 0 \<Longrightarrow>
    length (decimal n) \<le> w \<and> expansion w n = replicate (w - length (decimal n)) (CHR ''0'') @ decimal n"
proof (induction w arbitrary: n)
  case (Suc w)
  show ?case
  proof (cases "n < 10")
    case True
    then show ?thesis by (simp add: decimal_1 expansion_zero)
  next
    case False
    then have "n div 10 < 10 ^ w" "n div 10 > 0" using Suc.prems by (auto simp: div_less_iff_less_mult mult.commute)
    from Suc.IH [OF this] False show ?thesis by (simp add: decimal_step)
  qed
qed simp

lemma fmt_0d_expansion:
  assumes "0 \<le> n" "n < 10 ^ w" "0 < w"
  shows "fmt_0d w n = expansion w (nat n)"
proof (cases "n = 0")
  case True
  then show ?thesis
    using \<open>0 < w\<close> by (cases w) (simp_all add: fmt_0d_def Let_def decimal_1 digitChar_0 expansion_zero
        replicate_append_same)
next
  case False
  with assms have "nat n > 0" "nat n < 10 ^ w" by (simp_all add: nat_less_iff)
  from expansion_decimal [OF this(2,1)] assms(1) show ?thesis by (simp add: fmt_0d_def Let_def)
qed

lemma length_expansion [simp]: "length (expansion w n) = w"
  by (induction w arbitrary: n) auto

lemma list_all_isDigit_expansion [simp]: "list_all isDigit (expansion w n)"
  by (induction w arbitrary: n) auto

definition numval :: "string \<Rightarrow> int" where
  "numval s = foldl (\<lambda>n c. 10 * n + digitVal c) 0 s"

lemma numval_snoc: "numval (s @ [c]) = 10 * numval s + digitVal c"
  by (simp add: numval_def)

lemma numval_expansion: "n < 10 ^ w \<Longrightarrow> numval (expansion w n) = int n"
proof (induction w arbitrary: n)
  case (Suc w)
  then have "n div 10 < 10 ^ w" by (simp add: div_less_iff_less_mult mult.commute)
  with Suc.IH show ?case by (simp add: numval_snoc) presburger
qed (simp add: numval_def)

lemma numval_bounds: "list_all isDigit s \<Longrightarrow> 0 \<le> numval s \<and> numval s < 10 ^ length s"
proof (induction s rule: rev_induct)
  case (snoc c s)
  with digitVal_bounds [of c] show ?case by (simp add: numval_snoc)
qed (simp add: numval_def)

lemma expansion_numval: "list_all isDigit s \<Longrightarrow> expansion (length s) (nat (numval s)) = s"
proof (induction s rule: rev_induct)
  case (snoc c s)
  then have c: "0 \<le> digitVal c" "digitVal c < 10" and s: "0 \<le> numval s"
    using digitVal_bounds [of c] numval_bounds [of s] by simp_all
  have "nat (10 * numval s + digitVal c) div 10 = nat (numval s)"
    "nat (10 * numval s + digitVal c) mod 10 = nat (digitVal c)"
    using c s by (simp_all add: nat_div_distrib [symmetric] nat_mod_distrib [symmetric]
        div_pos_pos_trivial mod_pos_pos_trivial flip: nat_numeral)
  with snoc show ?case by (simp add: numval_snoc digitChar_digitVal)
qed simp

section \<open>The round trip\<close>

lemma getnum_expansion [simp]:
  assumes "n < 10 ^ k"
  shows "getnum k (expansion k n @ r) = Some (int n, r)"
  using numval_expansion [OF assms] by (simp add: getnum_def numval_def)

lemma getnum_Some:
  assumes "getnum k s = Some (n, r)"
  shows "s = expansion k (nat n) @ r \<and> 0 \<le> n \<and> n < 10 ^ k"
proof -
  let ?t = "take k s"
  from assms have len: "length ?t = k" and dig: "list_all isDigit ?t"
    and n: "n = numval ?t" and r: "r = drop k s"
    by (auto simp: getnum_def numval_def split: if_splits)
  from expansion_numval [OF dig] len n have "expansion k (nat n) = ?t" by simp
  moreover have "0 \<le> n" "n < 10 ^ k" using numval_bounds [OF dig] len n by simp_all
  ultimately show ?thesis using r by simp
qed

lemma skip_dash_Some [simp]: "skip_dash s = Some r \<longleftrightarrow> s = CHR ''-'' # r"
  by (auto simp: skip_dash_def split: list.splits)

lemma time_Parse_Some:
  "time_Parse s = Some b \<longleftrightarrow>
     0 \<le> year b \<and> year b \<le> 9999 \<and> valid_date b \<and>
     s = expansion 4 (nat (year b)) @ ''-'' @ expansion 2 (nat (month b)) @ ''-'' @ expansion 2 (nat (day b))"
  (is "?L \<longleftrightarrow> ?R")
proof
  assume ?L
  then obtain y s1 s2 m s3 s4 d where
    1: "getnum 4 s = Some (y, s1)" "s1 = CHR ''-'' # s2" "getnum 2 s2 = Some (m, s3)"
      "s3 = CHR ''-'' # s4" "getnum 2 s4 = Some (d, [])"
    and 2: "0 < m" "m \<le> 12" "1 \<le> d" "d \<le> daysIn m y" "b = BusinessDate y m d"
    by (auto simp: time_Parse_def split: option.splits if_splits)
  with getnum_Some [OF 1(1)] getnum_Some [OF 1(3)] getnum_Some [OF 1(5)] show ?R
    by (simp add: valid_date_def)
next
  assume R: ?R
  obtain y m d where b: "b = BusinessDate y m d" by (cases b)
  have "d \<le> 31" using R b valid_date_bounds [of b] by simp
  then have "nat y < 10 ^ 4" "nat m < 10 ^ 2" "nat d < 10 ^ 2"
    using R b by (auto simp: valid_date_def nat_less_iff)
  with R b getnum_expansion [of "nat d" 2 "[]"] show ?L
    by (simp add: time_Parse_def skip_dash_def valid_date_def)
qed

lemma BusinessDate_String_expansion:
  assumes "valid_date b" "0 \<le> year b" "year b \<le> 9999"
  shows "BusinessDate_String b =
    expansion 4 (nat (year b)) @ ''-'' @ expansion 2 (nat (month b)) @ ''-'' @ expansion 2 (nat (day b))"
proof -
  have "day b \<le> 31" "1 \<le> day b" "1 \<le> month b" "month b \<le> 12"
    using valid_date_bounds [OF assms(1)] by simp_all
  then show ?thesis
    using assms by (simp add: BusinessDate_String_def fmt_0d_expansion)
qed

text \<open>
  C37. The accepted strings are exactly the printed dates: \<^verbatim>\<open>Parse(s)\<close> succeeds with \<^verbatim>\<open>d\<close> if and
  only if \<^verbatim>\<open>d\<close> is a date of the calendar in the years 0 to 9999 and \<^verbatim>\<open>s\<close> is \<^verbatim>\<open>d.String()\<close>.
\<close>

theorem Parse_String_roundtrip:
  "Parse s = Inr b \<longleftrightarrow>
     valid_date b \<and> 0 \<le> year b \<and> year b \<le> 9999 \<and> s = BusinessDate_String b"
proof
  assume "Parse s = Inr b"
  then obtain t where t: "time_Parse s = Some t" "b = Date (year t) (month t) (day t)"
    by (auto simp: Parse_def split: option.splits)
  then have "valid_date t" "0 \<le> year t" "year t \<le> 9999" by (simp_all add: time_Parse_Some)
  moreover from this t have "b = t" by (cases t) (simp add: Date_valid)
  ultimately show "valid_date b \<and> 0 \<le> year b \<and> year b \<le> 9999 \<and> s = BusinessDate_String b"
    using t by (simp add: time_Parse_Some BusinessDate_String_expansion)
next
  assume b: "valid_date b \<and> 0 \<le> year b \<and> year b \<le> 9999 \<and> s = BusinessDate_String b"
  then have "time_Parse s = Some b" by (simp add: time_Parse_Some BusinessDate_String_expansion)
  moreover have "Date (year b) (month b) (day b) = b" using b by (cases b) (simp add: Date_valid)
  ultimately show "Parse s = Inr b" by (simp add: Parse_def)
qed

end
