(* ===== verification/Daycount.thy ===== *)
theory Daycount
  imports Dateformat
begin

text \<open>
  The file \<^verbatim>\<open>internal/bizdate/daycount.go\<close>: day-count bases, the accrual fraction as an exact
  integer ratio, and the two rounding rules. The arithmetic is Go's, wrap-around included;
  the lemmas characterise both rounding functions by the nearest integer with its tie
  rule, on the range of denominators for which the doubled remainder does not wrap, and
  show that the two rules differ by one minor unit on ties and nowhere else.
\<close>

section \<open>Bases\<close>

text \<open>\<^verbatim>\<open>Basis\<close> is a \<^verbatim>\<open>uint8\<close>; a value outside the constants is kept as its number.\<close>

datatype Basis = ACT365 | ACTACT | ACT360 | OtherBasis nat

definition Basis_String :: "Basis \<Rightarrow> string" where
  "Basis_String b = (case b of
      ACT365 \<Rightarrow> ''ACT/365''
    | ACTACT \<Rightarrow> ''ACT/ACT''
    | ACT360 \<Rightarrow> ''ACT/360''
    | OtherBasis n \<Rightarrow> ''Basis('' @ decimal n @ '')'')"

definition BasisFor :: "BusinessDate \<Rightarrow> Basis" where
  "BasisFor d = (if IsLeapYear (year d) then ACTACT else ACT365)"

definition DayCountFraction :: "BusinessDate \<Rightarrow> BusinessDate \<Rightarrow> Basis \<Rightarrow> int \<times> int" where
  "DayCountFraction from to b =
     (let num = DaysBetween from to;
          den = (case b of
                   ACT365 \<Rightarrow> 365
                 | ACTACT \<Rightarrow> DaysInYear (year from)
                 | ACT360 \<Rightarrow> 360
                 | OtherBasis _ \<Rightarrow> 365)
      in (num, den))"

section \<open>Rounding\<close>

datatype go_panic = Panic string

definition RoundHalfEven :: "int \<Rightarrow> int \<Rightarrow> go_panic + int" where
  "RoundHalfEven num den =
     (if den = 0 then Inl (Panic ''bizdate: RoundHalfEven with zero denominator'')
      else
        let (num, den) = (if den < 0 then (neg64 num, neg64 den) else (num, den));
            neg = (num < 0);
            num = (if neg then neg64 num else num);
            q = quot64 num den;
            r = rem64 num den;
            double = mul64 2 r;
            q = (if double > den then add64 q 1
                 else if double = den then (if rem64 q 2 \<noteq> 0 then add64 q 1 else q)
                 else q)
        in Inr (if neg then neg64 q else q))"

definition RoundHalfUp :: "int \<Rightarrow> int \<Rightarrow> go_panic + int" where
  "RoundHalfUp num den =
     (if den = 0 then Inl (Panic ''bizdate: RoundHalfUp with zero denominator'')
      else
        let (num, den) = (if den < 0 then (neg64 num, neg64 den) else (num, den));
            neg = (num < 0);
            num = (if neg then neg64 num else num);
            q = quot64 num den;
            r = rem64 num den;
            q = (if mul64 2 r \<ge> den then add64 q 1 else q)
        in Inr (if neg then neg64 q else q))"

section \<open>The rounding specifications\<close>

text \<open>
  \<open>nearest_even n d q\<close>: \<open>q\<close> is the integer nearest to \<open>n / d\<close>, the even one of two equally
  near; \<open>nearest_away\<close> takes the one further from zero. Both are written without division.
\<close>

definition nearest_even :: "int \<Rightarrow> int \<Rightarrow> int \<Rightarrow> bool" where
  "nearest_even n d q \<longleftrightarrow>
     2 * \<bar>n - q * d\<bar> \<le> \<bar>d\<bar> \<and> (2 * \<bar>n - q * d\<bar> = \<bar>d\<bar> \<longrightarrow> even q)"

definition nearest_away :: "int \<Rightarrow> int \<Rightarrow> int \<Rightarrow> bool" where
  "nearest_away n d q \<longleftrightarrow>
     2 * \<bar>n - q * d\<bar> \<le> \<bar>d\<bar> \<and> (2 * \<bar>n - q * d\<bar> = \<bar>d\<bar> \<longrightarrow> \<bar>n\<bar> < \<bar>q * d\<bar>)"

text \<open>The arguments for which the source's arithmetic does not wrap.\<close>

definition round_range :: "int \<Rightarrow> int \<Rightarrow> bool" where
  "round_range n d \<longleftrightarrow> in64 n \<and> n \<noteq> MinInt64 \<and> d \<noteq> 0 \<and> \<bar>d\<bar> \<le> 4611686018427387904"

lemma nearest_sign:
  "nearest_even (- n) d q \<longleftrightarrow> nearest_even n d (- q)"
  "nearest_away (- n) d q \<longleftrightarrow> nearest_away n d (- q)"
  "nearest_even n (- d) q \<longleftrightarrow> nearest_even n d (- q)"
  "nearest_away n (- d) q \<longleftrightarrow> nearest_away n d (- q)"
proof -
  have "\<bar>- n - q * d\<bar> = \<bar>n + q * d\<bar>" by linarith
  then show "nearest_even (- n) d q \<longleftrightarrow> nearest_even n d (- q)"
    "nearest_away (- n) d q \<longleftrightarrow> nearest_away n d (- q)"
    by (simp_all add: nearest_even_def nearest_away_def)
qed (simp_all add: nearest_even_def nearest_away_def)

text \<open>For a positive denominator the two nearest candidates are the floor and its successor.\<close>

lemma near_floor_aux:
  fixes a d r k :: int
  assumes "a = r - k" "0 \<le> r" "r < d" "0 < d" "2 * \<bar>a\<bar> \<le> d"
  shows "- d < k \<and> k < 2 * d"
  using assms by linarith

lemma near_floor:
  assumes "0 < d" "2 * \<bar>n - q * d\<bar> \<le> (d::int)"
  shows "q = n div d \<or> q = n div d + 1"
proof -
  have n: "n = n div d * d + n mod d" by simp
  have m: "0 \<le> n mod d" "n mod d < d" using assms by simp_all
  let ?k = "q - n div d"
  have e: "n - q * d = n mod d - ?k * d" using n by (simp add: algebra_simps)
  have "- d < ?k * d" "?k * d < 2 * d"
    using near_floor_aux [OF e m assms] by simp_all
  then have "- 1 < ?k" "?k < 2"
    using assms(1) by (metis mult_less_cancel_right_pos mult_minus1)+
  then show ?thesis by linarith
qed

lemma nearest_candidates:
  assumes "0 < (d::int)"
  shows "\<bar>n - n div d * d\<bar> = n mod d" "\<bar>n - (n div d + 1) * d\<bar> = d - n mod d"
proof -
  have n: "n - n div d * d = n mod d" by (simp add: minus_div_mult_eq_mod)
  have m: "0 \<le> n mod d" "n mod d < d" using assms by simp_all
  show "\<bar>n - n div d * d\<bar> = n mod d" using n m by simp
  have "n - (n div d + 1) * d = n mod d - d" using n by (simp add: algebra_simps)
  then show "\<bar>n - (n div d + 1) * d\<bar> = d - n mod d" using m by simp
qed

lemma nearest_even_pos:
  assumes "0 < d"
  shows "nearest_even n d q \<longleftrightarrow>
    q = (if 2 * (n mod d) > d then n div d + 1
         else if 2 * (n mod d) = d then (if odd (n div d) then n div d + 1 else n div d)
         else n div d)" (is "_ \<longleftrightarrow> q = ?q")
proof
  assume q: "nearest_even n d q"
  then have "q = n div d \<or> q = n div d + 1"
    using assms near_floor [of d n q] by (simp add: nearest_even_def)
  with q assms nearest_candidates [OF assms, of n] show "q = ?q"
    by (auto simp: nearest_even_def)
next
  assume "q = ?q"
  with assms nearest_candidates [OF assms, of n] show "nearest_even n d q"
    by (auto simp: nearest_even_def)
qed

lemma nearest_away_pos:
  assumes "0 < d" "0 \<le> n"
  shows "nearest_away n d q \<longleftrightarrow> q = (if 2 * (n mod d) \<ge> d then n div d + 1 else n div d)"
    (is "_ \<longleftrightarrow> q = ?q")
proof -
  have fl: "\<not> \<bar>n\<bar> < \<bar>n div d * d\<bar>"
  proof -
    have "n div d * d \<le> n"
      using minus_div_mult_eq_mod [of n d] pos_mod_sign [OF assms(1), of n] by linarith
    with assms show ?thesis by (simp add: abs_mult pos_imp_zdiv_nonneg_iff)
  qed
  have up: "\<bar>n\<bar> < \<bar>(n div d + 1) * d\<bar>"
  proof -
    have "n < (n div d + 1) * d"
      using minus_div_mult_eq_mod [of n d] pos_mod_bound [OF assms(1), of n]
      unfolding distrib_right by linarith
    with assms(2) show ?thesis by linarith
  qed
  show ?thesis
  proof
    assume q: "nearest_away n d q"
    then have "q = n div d \<or> q = n div d + 1"
      using assms near_floor [of d n q] by (simp add: nearest_away_def)
    with q assms fl nearest_candidates [OF assms(1), of n] show "q = ?q"
      by (auto simp: nearest_away_def)
  next
    assume "q = ?q"
    with assms up nearest_candidates [OF assms(1), of n] show "nearest_away n d q"
      by (auto simp: nearest_away_def)
  qed
qed

text \<open>The common core of both routines, on the absolute values.\<close>

lemma round_core:
  assumes "0 \<le> n" "n \<le> MaxInt64" "0 < d" "d \<le> 4611686018427387904"
  shows "quot64 n d = n div d" "rem64 n d = n mod d" "mul64 2 (n mod d) = 2 * (n mod d)"
    "n mod d \<noteq> 0 \<Longrightarrow> add64 (n div d) 1 = n div d + 1"
    "rem64 (n div d) 2 = n div d mod 2" "in64 (n div d)"
proof -
  have in64: "in64 n" using assms by (simp add: in64_def MinInt64_def)
  have q: "0 \<le> n div d" using assms by (simp add: pos_imp_zdiv_nonneg_iff)
  have r: "0 \<le> n mod d" "n mod d < d" using assms by simp_all
  have "n div d * 1 \<le> n div d * d" using q assms by (intro mult_left_mono) auto
  then have qn: "n div d \<le> n - n mod d" using minus_mod_eq_div_mult [of n d] by simp
  show "quot64 n d = n div d" using assms in64 by (intro quot64_nonneg)
  show "rem64 n d = n mod d" using assms by (intro rem64_nonneg)
  show "rem64 (n div d) 2 = n div d mod 2" using q by (intro rem64_nonneg) simp_all
  show "in64 (n div d)" using q qn r assms(2) unfolding in64_def MinInt64_def by linarith
  show "mul64 2 (n mod d) = 2 * (n mod d)"
    by (rule mul64_exact) (use r assms(4) in \<open>simp add: in64_iff\<close>)
  show "add64 (n div d) 1 = n div d + 1" if "n mod d \<noteq> 0"
  proof (rule add64_exact)
    from that r have "1 \<le> n mod d" by linarith
    with q qn assms(2) show "in64 (n div d + 1)" unfolding in64_def MinInt64_def by linarith
  qed
qed

lemma round_signs:
  assumes "round_range n d"
  shows "\<bar>n\<bar> \<le> MaxInt64" "0 < \<bar>d\<bar>" "\<bar>d\<bar> \<le> 4611686018427387904"
    "neg64 n = - n" "neg64 d = - d" "neg64 (- n) = n" "d \<noteq> 0"
proof -
  show "\<bar>n\<bar> \<le> MaxInt64" "0 < \<bar>d\<bar>" "\<bar>d\<bar> \<le> 4611686018427387904" "d \<noteq> 0"
    using assms by (auto simp: round_range_def in64_iff MinInt64_def MaxInt64_def)
  have "in64 (- n)" "in64 n" "in64 (- d)"
    using assms by (auto simp: round_range_def in64_iff MinInt64_def)
  then show "neg64 n = - n" "neg64 d = - d" "neg64 (- n) = n"
    by (simp_all add: neg64_def)
qed

definition core_even :: "int \<Rightarrow> int \<Rightarrow> int" where
  "core_even n d =
     (if 2 * (n mod d) > d then n div d + 1
      else if 2 * (n mod d) = d then (if odd (n div d) then n div d + 1 else n div d)
      else n div d)"

definition core_away :: "int \<Rightarrow> int \<Rightarrow> int" where
  "core_away n d = (if 2 * (n mod d) \<ge> d then n div d + 1 else n div d)"

lemma core_in64:
  assumes "0 \<le> n" "n \<le> MaxInt64" "0 < d" "d \<le> 4611686018427387904"
  shows "in64 (- core_even n d)" "in64 (- core_away n d)"
proof -
  note c = round_core [OF assms]
  have q: "0 \<le> n div d" using assms by (simp add: pos_imp_zdiv_nonneg_iff)
  then have "in64 (- (n div d))" using c(6) unfolding in64_iff by linarith
  moreover have "in64 (- (n div d + 1))" if "n mod d \<noteq> 0"
  proof -
    have "in64 (n div d + 1)" using c(4) [OF that] by (metis add64_def wrap64_in64)
    with q show ?thesis unfolding in64_iff by linarith
  qed
  moreover have "n mod d \<noteq> 0" if "2 * (n mod d) \<ge> d" using that assms by auto
  ultimately show "in64 (- core_even n d)" "in64 (- core_away n d)"
    by (auto simp: core_even_def core_away_def)
qed

lemma RoundHalfEven_core:
  assumes "round_range n d"
  shows "RoundHalfEven n d = Inr (sgn n * sgn d * core_even \<bar>n\<bar> \<bar>d\<bar>)"
proof -
  note s = round_signs [OF assms]
  note c = round_core [OF abs_ge_zero s(1-3)]
  define K where "K a b = (if mul64 2 (rem64 a b) > b then add64 (quot64 a b) 1
      else if mul64 2 (rem64 a b) = b
        then (if rem64 (quot64 a b) 2 \<noteq> 0 then add64 (quot64 a b) 1 else quot64 a b)
        else quot64 a b)" for a b
  have K: "K \<bar>n\<bar> \<bar>d\<bar> = core_even \<bar>n\<bar> \<bar>d\<bar>"
    unfolding K_def core_even_def c(1-3,5) odd_iff_mod_2_eq_one
    using s(2) by (cases "\<bar>n\<bar> mod \<bar>d\<bar> = 0") (simp_all add: c(4) not_mod_2_eq_0_eq_1)
  have g: "neg64 (core_even \<bar>n\<bar> \<bar>d\<bar>) = - core_even \<bar>n\<bar> \<bar>d\<bar>"
    using core_in64(1) [OF abs_ge_zero s(1-3)] by (rule neg64_exact)
  have "RoundHalfEven n d =
    (let n' = (if d < 0 then - n else n) in Inr (if n' < 0 then neg64 (K \<bar>n\<bar> \<bar>d\<bar>) else K \<bar>n\<bar> \<bar>d\<bar>))"
    using s(7) by (simp add: RoundHalfEven_def Let_def K_def s(4-6))
  also have "\<dots> = Inr (sgn n * sgn d * core_even \<bar>n\<bar> \<bar>d\<bar>)"
  proof (cases "n = 0")
    case True
    then show ?thesis using s(2) K by (simp add: core_even_def Let_def)
  next
    case False
    then show ?thesis using s(7) by (simp add: K g Let_def sgn_if)
  qed
  finally show ?thesis .
qed

lemma RoundHalfUp_core:
  assumes "round_range n d"
  shows "RoundHalfUp n d = Inr (sgn n * sgn d * core_away \<bar>n\<bar> \<bar>d\<bar>)"
proof -
  note s = round_signs [OF assms]
  note c = round_core [OF abs_ge_zero s(1-3)]
  define K where "K a b = (if mul64 2 (rem64 a b) \<ge> b then add64 (quot64 a b) 1 else quot64 a b)" for a b
  have K: "K \<bar>n\<bar> \<bar>d\<bar> = core_away \<bar>n\<bar> \<bar>d\<bar>"
    unfolding K_def core_away_def c(1-3,5) odd_iff_mod_2_eq_one
    using s(2) by (cases "\<bar>n\<bar> mod \<bar>d\<bar> = 0") (simp_all add: c(4) not_mod_2_eq_0_eq_1)
  have g: "neg64 (core_away \<bar>n\<bar> \<bar>d\<bar>) = - core_away \<bar>n\<bar> \<bar>d\<bar>"
    using core_in64(2) [OF abs_ge_zero s(1-3)] by (rule neg64_exact)
  have "RoundHalfUp n d =
    (let n' = (if d < 0 then - n else n) in Inr (if n' < 0 then neg64 (K \<bar>n\<bar> \<bar>d\<bar>) else K \<bar>n\<bar> \<bar>d\<bar>))"
    using s(7) by (simp add: RoundHalfUp_def Let_def K_def s(4-6))
  also have "\<dots> = Inr (sgn n * sgn d * core_away \<bar>n\<bar> \<bar>d\<bar>)"
  proof (cases "n = 0")
    case True
    then show ?thesis using s(2) K by (simp add: core_away_def Let_def)
  next
    case False
    then show ?thesis using s(7) by (simp add: K g Let_def sgn_if)
  qed
  finally show ?thesis .
qed

lemma nearest_core:
  assumes "d \<noteq> 0"
  shows "nearest_even n d q \<longleftrightarrow> q = sgn n * sgn d * core_even \<bar>n\<bar> \<bar>d\<bar>"
    "nearest_away n d q \<longleftrightarrow> q = sgn n * sgn d * core_away \<bar>n\<bar> \<bar>d\<bar>"
proof -
  have e: "nearest_even \<bar>n\<bar> \<bar>d\<bar> r \<longleftrightarrow> r = core_even \<bar>n\<bar> \<bar>d\<bar>"
    and a: "nearest_away \<bar>n\<bar> \<bar>d\<bar> r \<longleftrightarrow> r = core_away \<bar>n\<bar> \<bar>d\<bar>" for r
    using assms by (simp_all add: nearest_even_pos nearest_away_pos core_even_def core_away_def)
  have z: "core_even 0 \<bar>d\<bar> = 0" "core_away 0 \<bar>d\<bar> = 0"
    using assms by (simp_all add: core_even_def core_away_def)
  show "nearest_even n d q \<longleftrightarrow> q = sgn n * sgn d * core_even \<bar>n\<bar> \<bar>d\<bar>"
    using e [of q] e [of "- q"] z assms
    by (cases "d < 0"; cases n "0 :: int" rule: linorder_cases)
      (auto simp: nearest_sign abs_if)
  show "nearest_away n d q \<longleftrightarrow> q = sgn n * sgn d * core_away \<bar>n\<bar> \<bar>d\<bar>"
    using a [of q] a [of "- q"] z assms
    by (cases "d < 0"; cases n "0 :: int" rule: linorder_cases)
      (auto simp: nearest_sign abs_if)
qed

section \<open>Properties\<close>

text \<open>
  C36. \<^verbatim>\<open>RoundHalfEven(num, den)\<close> is rounding to the nearest integer with ties to even, for
  every sign of numerator and denominator, whenever the denominator is at most \<open>2^62\<close> in
  absolute value and the numerator is not \<^verbatim>\<open>math.MinInt64\<close>.
\<close>

theorem RoundHalfEven_nearest:
  assumes "round_range num den"
  shows "RoundHalfEven num den = Inr q \<longleftrightarrow> nearest_even num den q"
  using assms RoundHalfEven_core [OF assms] nearest_core(1) [of den num q]
  by (auto simp: round_range_def)

theorem RoundHalfEven_nearest_witness:
  "round_range (- 1825) 730 \<and> RoundHalfEven (- 1825) 730 = Inr (- 2)"
proof -
  have r: "round_range (- 1825) 730" by (simp add: round_range_def in64_iff MinInt64_def)
  moreover have "nearest_even (- 1825) 730 (- 2)" by (simp add: nearest_even_def)
  ultimately show ?thesis using RoundHalfEven_nearest [OF r] by simp
qed

text \<open>
  The legacy core's rounding (half away from zero) differs from the documented one by
  exactly one minor unit, away from zero, on the ties whose truncated quotient is even, and
  agrees with it on every other ratio.
\<close>

theorem RoundHalfUp_vs_RoundHalfEven:
  assumes "round_range num den"
  shows "\<exists>e u. RoundHalfEven num den = Inr e \<and> RoundHalfUp num den = Inr u \<and>
    u = (if 2 * (\<bar>num\<bar> mod \<bar>den\<bar>) = \<bar>den\<bar> \<and> even (\<bar>num\<bar> div \<bar>den\<bar>)
         then e + sgn num * sgn den else e)"
  unfolding RoundHalfEven_core [OF assms] RoundHalfUp_core [OF assms]
  by (auto simp: core_even_def core_away_def algebra_simps)

theorem RoundHalfUp_vs_RoundHalfEven_witness:
  "round_range (- 5) 2 \<and> (\<exists>e u. RoundHalfEven (- 5) 2 = Inr e \<and> RoundHalfUp (- 5) 2 = Inr u \<and> u = e - 1)"
proof -
  have r: "round_range (- 5) 2" by (simp add: round_range_def in64_iff MinInt64_def)
  show ?thesis using r RoundHalfUp_vs_RoundHalfEven [OF r] by simp
qed

text \<open>
  Beyond that range the doubled remainder wraps: the ratio
  \<^verbatim>\<open>(MaxInt64 - 1) / MaxInt64\<close> is rounded to 0 although the nearest integer is 1, while a zero
  denominator panics and any other denominator returns a value.
\<close>

theorem RoundHalfEven_wraps:
  "RoundHalfEven (MaxInt64 - 1) MaxInt64 = Inr 0 \<and>
   nearest_even (MaxInt64 - 1) MaxInt64 1 \<and>
   ((\<exists>p. RoundHalfEven num den = Inl p) \<longleftrightarrow> den = 0)"
proof (intro conjI)
  have "mul64 2 9223372036854775806 = - 4" by (simp add: mul64_def wrap64_def)
  then show "RoundHalfEven (MaxInt64 - 1) MaxInt64 = Inr 0"
    by (simp add: RoundHalfEven_def MaxInt64_def Let_def quot64_def rem64_def in64_iff)
  show "nearest_even (MaxInt64 - 1) MaxInt64 1" by (simp add: nearest_even_def MaxInt64_def)
  show "(\<exists>p. RoundHalfEven num den = Inl p) \<longleftrightarrow> den = 0"
    by (simp add: RoundHalfEven_def Let_def split: prod.split)
qed

text \<open>
  The documented basis makes a calendar year accrue the fraction one: from 1 January to
  1 January the numerator is the number of days of the year, and \<^verbatim>\<open>BasisFor\<close> selects the
  denominator equal to it, in leap years and in all others.
\<close>

theorem DayCountFraction_full_year:
  "DayCountFraction (Date y 1 1) (Date (y + 1) 1 1) (BasisFor (Date y 1 1)) =
     (DaysInYear y, DaysInYear y)"
proof -
  have v: "valid_date (BusinessDate z 1 1)" for z
    by (simp add: valid_date_def daysIn_def)
  have "bd_days (BusinessDate (y + 1) 1 1) - bd_days (BusinessDate y 1 1) = DaysInYear y"
    by (simp add: bd_days_def time_days_def daysSinceEpoch_Suc)
  then show ?thesis
    by (simp add: v DayCountFraction_def BasisFor_def DaysBetween_char Let_def DaysInYear_def)
qed

end
