(* ===== verification/Calendar.thy ===== *)
theory Calendar
  imports Bizdate
begin

text \<open>
  The files \<^verbatim>\<open>internal/bizdate/holidays.go\<close> and \<^verbatim>\<open>internal/bizdate/calendar.go\<close>: the federal
  holiday rules as data, their evaluation for a year, and the calendar \<^verbatim>\<open>USFederal\<close> with its
  lazily filled cache of holiday sets, which every operation threads as state.

  The search loops of \<^verbatim>\<open>NextBusinessDay\<close> and \<^verbatim>\<open>PrevBusinessDay\<close> have no bound in the source;
  they are \<^theory_text>\<open>partial_function (option)\<close>, and the lemmas show that they return: of a
  Tuesday and the Wednesday after it one is always a business day.
\<close>

section \<open>Holiday rules\<close>

record holidayRule =
  rname :: string
  rmonth :: int
  rday :: int
  nth :: int
  wd :: Weekday
  fixed :: bool

definition fixedRule :: "string \<Rightarrow> int \<Rightarrow> int \<Rightarrow> holidayRule" where
  "fixedRule n m d = \<lparr>rname = n, rmonth = m, rday = d, nth = 0, wd = Sunday, fixed = True\<rparr>"

definition nthRule :: "string \<Rightarrow> int \<Rightarrow> int \<Rightarrow> Weekday \<Rightarrow> holidayRule" where
  "nthRule n m k w = \<lparr>rname = n, rmonth = m, rday = 0, nth = k, wd = w, fixed = False\<rparr>"

definition federalHolidays :: "holidayRule list" where
  "federalHolidays =
     [fixedRule ''New Year's Day'' 1 1,
      nthRule ''Martin Luther King Jr. Day'' 1 3 Monday,
      nthRule ''Washington's Birthday'' 2 3 Monday,
      nthRule ''Memorial Day'' 5 (- 1) Monday,
      fixedRule ''Juneteenth'' 6 19,
      fixedRule ''Independence Day'' 7 4,
      nthRule ''Labor Day'' 9 1 Monday,
      nthRule ''Columbus Day'' 10 2 Monday,
      fixedRule ''Veterans Day'' 11 11,
      nthRule ''Thanksgiving'' 11 4 Thursday,
      fixedRule ''Christmas Day'' 12 25]"

text \<open>\<^verbatim>\<open>time.Weekday\<close> as its number.\<close>

primrec wdNum :: "Weekday \<Rightarrow> int" where
  "wdNum Sunday = 0"
| "wdNum Monday = 1"
| "wdNum Tuesday = 2"
| "wdNum Wednesday = 3"
| "wdNum Thursday = 4"
| "wdNum Friday = 5"
| "wdNum Saturday = 6"

lemma mod7_cases: "(n::int) mod 7 \<in> {0, 1, 2, 3, 4, 5, 6}"
proof -
  have "0 \<le> n mod 7" "n mod 7 < 7" by simp_all
  then show ?thesis by (simp add: atLeastLessThan_iff) linarith
qed

lemma weekdayOf_eq_iff: "weekdayOf n = w \<longleftrightarrow> (n + 1) mod 7 = wdNum w"
  using mod7_cases [of "n + 1"] by (cases w) (auto simp: weekdayOf_def)

lemma weekday_eq_iff: "weekday d = w \<longleftrightarrow> (bd_days d + 1) mod 7 = wdNum w"
  by (simp add: weekday_def weekdayOf_eq_iff)

lemma wdNum_range: "0 \<le> wdNum w" "wdNum w < 7"
  by (cases w; simp)+

text \<open>The distance to the next weekday shrinks with every step of a search.\<close>

lemma wd_dist:
  assumes "(k::int) mod 7 \<noteq> 0"
  shows "(k - 1) mod 7 = k mod 7 - 1"
proof -
  have "(k - 1) mod 7 = (k mod 7 - 1) mod 7" by (simp add: mod_simps)
  also have "\<dots> = k mod 7 - 1"
    using assms pos_mod_sign [of 7 k] pos_mod_bound [of 7 k] by (intro mod_pos_pos_trivial) linarith+
  finally show ?thesis .
qed

lemma wd_dist_nonzero: "(a::int) mod 7 \<noteq> w \<Longrightarrow> 0 \<le> w \<Longrightarrow> w < 7 \<Longrightarrow> (a - w) mod 7 \<noteq> 0 \<and> (w - a) mod 7 \<noteq> 0"
  by (metis (no_types, lifting) eq_iff_diff_eq_0 mod_0_imp_dvd mod_eq_dvd_iff mod_pos_pos_trivial)

function seekBack :: "Weekday \<Rightarrow> BusinessDate \<Rightarrow> BusinessDate" where
  "seekBack w d = (if weekday d \<noteq> w then seekBack w (AddDays d (- 1)) else d)"
  by auto

termination
proof (relation "measure (\<lambda>(w, d). nat ((bd_days d + 1 - wdNum w) mod 7))", simp)
  fix w :: Weekday and d
  assume "weekday d \<noteq> w"
  then have nz: "(bd_days d + 1 - wdNum w) mod 7 \<noteq> 0"
    using wd_dist_nonzero [of "bd_days d + 1" "wdNum w"] wdNum_range [of w] by (simp add: weekday_eq_iff)
  from wd_dist [OF this] have "(bd_days d - wdNum w) mod 7 = (bd_days d + 1 - wdNum w) mod 7 - 1"
    by (simp add: algebra_simps)
  with nz pos_mod_sign [of 7 "bd_days d + 1 - wdNum w"]
  show "((w, AddDays d (- 1)), w, d) \<in> measure (\<lambda>(w, d). nat ((bd_days d + 1 - wdNum w) mod 7))"
    by (simp add: nat_less_iff)
qed

function seekFwd :: "Weekday \<Rightarrow> BusinessDate \<Rightarrow> BusinessDate" where
  "seekFwd w d = (if weekday d \<noteq> w then seekFwd w (AddDays d 1) else d)"
  by auto

termination
proof (relation "measure (\<lambda>(w, d). nat ((wdNum w - (bd_days d + 1)) mod 7))", simp)
  fix w :: Weekday and d
  assume "weekday d \<noteq> w"
  then have nz: "(wdNum w - (bd_days d + 1)) mod 7 \<noteq> 0"
    using wd_dist_nonzero [of "bd_days d + 1" "wdNum w"] wdNum_range [of w] by (simp add: weekday_eq_iff)
  from wd_dist [OF this]
  have "(wdNum w - (bd_days d + 1 + 1)) mod 7 = (wdNum w - (bd_days d + 1)) mod 7 - 1"
    by (simp add: algebra_simps)
  with nz pos_mod_sign [of 7 "wdNum w - (bd_days d + 1)"]
  show "((w, AddDays d 1), w, d) \<in> measure (\<lambda>(w, d). nat ((wdNum w - (bd_days d + 1)) mod 7))"
    by (simp add: nat_less_iff)
qed

declare seekBack.simps [simp del] seekFwd.simps [simp del]

definition daysInMonth :: "int \<Rightarrow> int \<Rightarrow> int" where
  "daysInMonth y m = day (AddDays (Date y (m + 1) 1) (- 1))"

definition nthWeekday :: "int \<Rightarrow> int \<Rightarrow> Weekday \<Rightarrow> int \<Rightarrow> BusinessDate" where
  "nthWeekday y m w n =
     (if n = - 1 then seekBack w (Date y m (daysInMonth y m))
      else AddDays (seekFwd w (Date y m 1)) (7 * (n - 1)))"

definition observed :: "BusinessDate \<Rightarrow> BusinessDate" where
  "observed d = (case weekday d of
      Saturday \<Rightarrow> AddDays d (- 1)
    | Sunday \<Rightarrow> AddDays d 1
    | _ \<Rightarrow> d)"

definition holidayDate :: "int \<Rightarrow> holidayRule \<Rightarrow> BusinessDate" where
  "holidayDate y r =
     (if fixed r then observed (Date y (rmonth r) (rday r))
      else nthWeekday y (rmonth r) (wd r) (nth r))"

definition holidaysIn :: "int \<Rightarrow> BusinessDate \<rightharpoonup> string" where
  "holidaysIn y = foldl (\<lambda>out r. out(holidayDate y r \<mapsto> rname r)) Map.empty federalHolidays"

section \<open>The calendar\<close>

text \<open>
  A \<^verbatim>\<open>time.Location\<close> is the offset from UTC, in nanoseconds, in force at each instant: the
  zone database is not part of the repository. \<^verbatim>\<open>time.UTC\<close> is the offset 0.
\<close>

type_synonym Location = "int \<Rightarrow> int"

record USFederal =
  loc :: Location
  cache :: "int \<rightharpoonup> (BusinessDate \<rightharpoonup> string)"

definition NewUSFederal :: "Location option \<Rightarrow> USFederal" where
  "NewUSFederal l = \<lparr>loc = (case l of None \<Rightarrow> (\<lambda>_. 0) | Some l \<Rightarrow> l), cache = Map.empty\<rparr>"

definition holidays :: "USFederal \<Rightarrow> int \<Rightarrow> (BusinessDate \<rightharpoonup> string) \<times> USFederal" where
  "holidays c y = (case cache c y of
      Some h \<Rightarrow> (h, c)
    | None \<Rightarrow> let h = holidaysIn y in (h, c\<lparr>cache := (cache c)(y \<mapsto> h)\<rparr>))"

definition HolidayName :: "USFederal \<Rightarrow> BusinessDate \<Rightarrow> string option \<times> USFederal" where
  "HolidayName c d = (let (h, c) = holidays c (year d) in (h d, c))"

definition IsBusinessDay :: "USFederal \<Rightarrow> BusinessDate \<Rightarrow> bool \<times> USFederal" where
  "IsBusinessDay c d =
     (if weekday d = Saturday \<or> weekday d = Sunday then (False, c)
      else let (h, c) = holidays c (year d) in (h d = None, c))"

partial_function (option) searchBusinessDay ::
  "int \<Rightarrow> USFederal \<Rightarrow> BusinessDate \<Rightarrow> (BusinessDate \<times> USFederal) option" where
  "searchBusinessDay step c n =
     (let (b, c') = IsBusinessDay c n
      in if b then Some (n, c') else searchBusinessDay step c' (AddDays n step))"

definition NextBusinessDay :: "USFederal \<Rightarrow> BusinessDate \<Rightarrow> (BusinessDate \<times> USFederal) option" where
  "NextBusinessDay c d = searchBusinessDay 1 c (AddDays d 1)"

definition PrevBusinessDay :: "USFederal \<Rightarrow> BusinessDate \<Rightarrow> (BusinessDate \<times> USFederal) option" where
  "PrevBusinessDay c d = searchBusinessDay (- 1) c (AddDays d (- 1))"

definition FirstOfMonth :: "int \<Rightarrow> int \<Rightarrow> BusinessDate" where
  "FirstOfMonth y m = Date y m 1"

definition FirstBusinessDayOfMonth ::
  "USFederal \<Rightarrow> int \<Rightarrow> int \<Rightarrow> (BusinessDate \<times> USFederal) option" where
  "FirstBusinessDayOfMonth c y m =
     (let d = Date y m 1; (b, c') = IsBusinessDay c d
      in if b then Some (d, c') else NextBusinessDay c' d)"

text \<open>The cut-off, 17:00:00.000, in nanoseconds after midnight.\<close>

definition CutOff :: int where
  "CutOff = 17 * 3600 * 1000000000"

text \<open>
  \<^verbatim>\<open>time.Date\<close> with a location: the offset is looked up at the wall clock reading taken as
  UTC, and once more at the corrected instant when it is not zero.
\<close>

definition time_Date_in :: "Location \<Rightarrow> int \<Rightarrow> int" where
  "time_Date_in l u = (let off = l u in if off = 0 then u else u - l (u - off))"

definition BusinessDateFor :: "USFederal \<Rightarrow> int \<Rightarrow> (BusinessDate \<times> USFederal) option" where
  "BusinessDateFor c t =
     (let d = absDate (dayOf (t + loc c t));
          cut = time_Date_in (loc c) (bd_time d + CutOff)
      in if \<not> t < cut then NextBusinessDay c d
         else let (b, c') = IsBusinessDay c d
              in if \<not> b then NextBusinessDay c' d else Some (d, c'))"

function businessDaysLoop ::
  "USFederal \<Rightarrow> BusinessDate \<Rightarrow> BusinessDate \<Rightarrow> BusinessDate list \<Rightarrow> BusinessDate list \<times> USFederal" where
  "businessDaysLoop c d to out =
     (if After d to then (out, c)
      else let (b, c') = IsBusinessDay c d
           in businessDaysLoop c' (AddDays d 1) to (if b then out @ [d] else out))"
  by auto

termination
  by (relation "measure (\<lambda>(c, d, to, out). nat (bd_days to - bd_days d + 1))")
    (auto simp: After_iff)

declare businessDaysLoop.simps [simp del]

definition BusinessDaysBetween ::
  "USFederal \<Rightarrow> BusinessDate \<Rightarrow> BusinessDate \<Rightarrow> BusinessDate list \<times> USFederal" where
  "BusinessDaysBetween c from to = businessDaysLoop c from to []"

section \<open>Dates of the rules\<close>

lemma AddDays_in_month:
  "valid_date (BusinessDate y m (d + n)) \<Longrightarrow> AddDays (BusinessDate y m d) n = BusinessDate y m (d + n)"
  using Date_valid [of y m "d + n"] by (simp add: AddDays_def Date_def)

lemma valid_first_28:
  assumes "1 \<le> m" "m \<le> 12" "1 \<le> d" "d \<le> 28"
  shows "valid_date (BusinessDate y m d)"
  using assms daysIn_bounds [OF assms(1,2), of y] by (simp add: valid_date_def)

lemma weekday_AddDays: "weekday (AddDays d n) = weekdayOf (bd_days d + n)"
  by (simp add: weekday_def)

lemma AddDays_AddDays [simp]: "AddDays (AddDays d a) b = AddDays d (a + b)"
  by (simp add: AddDays_absDate add.assoc)

lemma AddDays_0: "valid_date d \<Longrightarrow> AddDays d 0 = d"
  by (simp add: AddDays_absDate absDate_bd_days)

lemma seekFwd_char:
  assumes "valid_date d"
  shows "\<exists>k. 0 \<le> k \<and> k < 7 \<and> seekFwd w d = AddDays d k \<and> weekday (AddDays d k) = w"
proof -
  let ?m = "\<lambda>d. (wdNum w - (bd_days d + 1)) mod 7"
  have "valid_date d \<Longrightarrow> seekFwd w d = AddDays d (?m d) \<and> weekday (AddDays d (?m d)) = w" for d
  proof (induction w d rule: seekFwd.induct)
    case (1 w d)
    show ?case
    proof (cases "weekday d = w")
      case True
      then have "(wdNum w - (bd_days d + 1)) mod 7 = 0"
        using wdNum_range [of w] unfolding weekday_eq_iff
        by (metis diff_self mod_0 mod_diff_right_eq mod_pos_pos_trivial)
      with True 1(2) show ?thesis by (simp add: seekFwd.simps [of w d] AddDays_0)
    next
      case False
      then have "(wdNum w - (bd_days d + 1)) mod 7 \<noteq> 0"
        using wd_dist_nonzero [of "bd_days d + 1" "wdNum w"] wdNum_range [of w]
        by (simp add: weekday_eq_iff)
      from wd_dist [OF this] have
        "1 + (wdNum w - (bd_days (AddDays d 1) + 1)) mod 7 = (wdNum w - (bd_days d + 1)) mod 7"
        by (simp add: algebra_simps)
      with 1(1) [OF False] False show ?thesis by (simp add: seekFwd.simps [of w d])
    qed
  qed
  from this [OF assms] show ?thesis by (intro exI [of _ "?m d"]) simp
qed

lemma seekBack_char:
  assumes "valid_date d"
  shows "\<exists>k. 0 \<le> k \<and> k < 7 \<and> seekBack w d = AddDays d (- k) \<and> weekday (AddDays d (- k)) = w"
proof -
  let ?m = "\<lambda>d. (bd_days d + 1 - wdNum w) mod 7"
  have "valid_date d \<Longrightarrow> seekBack w d = AddDays d (- ?m d) \<and> weekday (AddDays d (- ?m d)) = w" for d
  proof (induction w d rule: seekBack.induct)
    case (1 w d)
    show ?case
    proof (cases "weekday d = w")
      case True
      then have "(bd_days d + 1 - wdNum w) mod 7 = 0"
        using wdNum_range [of w] unfolding weekday_eq_iff
        by (metis diff_self mod_0 mod_diff_left_eq mod_pos_pos_trivial)
      with True 1(2) show ?thesis by (simp add: seekBack.simps [of w d] AddDays_0)
    next
      case False
      then have "(bd_days d + 1 - wdNum w) mod 7 \<noteq> 0"
        using wd_dist_nonzero [of "bd_days d + 1" "wdNum w"] wdNum_range [of w]
        by (simp add: weekday_eq_iff)
      from wd_dist [OF this] have
        "- 1 - (bd_days (AddDays d (- 1)) + 1 - wdNum w) mod 7 = - ((bd_days d + 1 - wdNum w) mod 7)"
        by (simp add: algebra_simps)
      with 1(1) [OF False] False show ?thesis by (simp add: seekBack.simps [of w d])
    qed
  qed
  from this [OF assms] show ?thesis by (intro exI [of _ "?m d"]) simp
qed

lemma daysInMonth_daysIn:
  assumes "1 \<le> m" "m \<le> 12"
  shows "daysInMonth y m = daysIn m y"
proof -
  let ?e = "BusinessDate y m (daysIn m y)"
  have e: "valid_date ?e"
    using assms daysIn_bounds [OF assms, of y] by (simp add: valid_date_def)
  have "time_days y (m + 1) 1 = time_days y m (daysIn m y + 1)"
    using month_cases [OF assms]
    by (elim disjE) (simp_all add: time_days_def daysIn_def daysSinceEpoch_Suc DaysInYear_def)
  then have "time_days y (m + 1) 1 + - 1 = bd_days ?e"
    by (simp add: time_days_shift bd_days_def)
  then have "AddDays (Date y (m + 1) 1) (- 1) = ?e"
    by (simp only: AddDays_absDate bd_days_Date absDate_bd_days [OF e])
  then show ?thesis by (simp add: daysInMonth_def)
qed

text \<open>The nth weekday lies in its month and is that weekday.\<close>

lemma nthWeekday_char:
  assumes "1 \<le> m" "m \<le> 12" "n = - 1 \<or> 1 \<le> n \<and> n \<le> 4"
  shows "\<exists>d. nthWeekday y m w n = BusinessDate y m d \<and> valid_date (BusinessDate y m d) \<and>
    weekday (BusinessDate y m d) = w \<and>
    (if n = - 1 then daysIn m y - 7 < d \<and> d \<le> daysIn m y else 7 * (n - 1) < d \<and> d \<le> 7 * n)"
proof (cases "n = - 1")
  case True
  let ?e = "BusinessDate y m (daysIn m y)"
  have b: "28 \<le> daysIn m y" using daysIn_bounds [OF assms(1,2)] by simp
  then have e: "valid_date ?e" using assms by (simp add: valid_date_def)
  from seekBack_char [OF this, of w] obtain k where k: "0 \<le> k" "k < 7"
    "seekBack w ?e = AddDays ?e (- k)" "weekday (AddDays ?e (- k)) = w" by blast
  have v: "valid_date (BusinessDate y m (daysIn m y - k))"
    using k b assms by (simp add: valid_date_def)
  then have "AddDays ?e (- k) = BusinessDate y m (daysIn m y - k)"
    using AddDays_in_month [of y m "daysIn m y" "- k"] by simp
  with k v e True show ?thesis
    by (intro exI [of _ "daysIn m y - k"]) (simp add: nthWeekday_def daysInMonth_daysIn assms)
next
  case False
  let ?f = "BusinessDate y m 1"
  have f: "valid_date ?f" using assms by (simp add: valid_first_28)
  from seekFwd_char [OF this, of w] obtain k where k: "0 \<le> k" "k < 7"
    "seekFwd w ?f = AddDays ?f k" "weekday (AddDays ?f k) = w" by blast
  let ?d = "1 + (k + 7 * (n - 1))"
  have v: "valid_date (BusinessDate y m ?d)"
    using k False assms by (intro valid_first_28) auto
  have "weekday (BusinessDate y m ?d) = weekdayOf (bd_days ?f + k + 7 * (n - 1))"
    using AddDays_in_month [OF v] weekday_AddDays [of ?f] by (metis add.assoc)
  also have "\<dots> = w" using k(4) by (simp only: weekdayOf_week weekday_AddDays)
  finally have "weekday (BusinessDate y m ?d) = w" .
  with k v f False AddDays_in_month [OF v] show ?thesis
    by (intro exI [of _ ?d]) (simp add: nthWeekday_def)
qed

section \<open>Business days\<close>

text \<open>The pure reading of \<^verbatim>\<open>IsBusinessDay\<close>, without the cache.\<close>

definition businessDay :: "BusinessDate \<Rightarrow> bool" where
  "businessDay d \<longleftrightarrow>
     weekday d \<noteq> Saturday \<and> weekday d \<noteq> Sunday \<and> holidaysIn (year d) d = None"

definition cache_ok :: "USFederal \<Rightarrow> bool" where
  "cache_ok c \<longleftrightarrow> (\<forall>y h. cache c y = Some h \<longrightarrow> h = holidaysIn y)"

lemma cache_ok_New [simp]: "cache_ok (NewUSFederal l)"
  by (simp add: cache_ok_def NewUSFederal_def)

lemma holidays_ok:
  "cache_ok c \<Longrightarrow> fst (holidays c y) = holidaysIn y \<and> cache_ok (snd (holidays c y)) \<and>
     loc (snd (holidays c y)) = loc c"
  by (auto simp: holidays_def cache_ok_def Let_def split: option.splits)

lemma IsBusinessDay_ok:
  assumes "cache_ok c"
  obtains c' where "IsBusinessDay c d = (businessDay d, c')" "cache_ok c'" "loc c' = loc c"
proof (cases "weekday d = Saturday \<or> weekday d = Sunday")
  case True
  then show ?thesis using that [of c] assms by (auto simp: IsBusinessDay_def businessDay_def)
next
  case False
  then show ?thesis
    using that [of "snd (holidays c (year d))"] holidays_ok [OF assms, of "year d"]
    by (simp add: IsBusinessDay_def businessDay_def split_beta)
qed

lemma foldl_map_dom:
  "foldl (\<lambda>out r. out(f r \<mapsto> g r)) m rs d = None \<longleftrightarrow> m d = None \<and> (\<forall>r \<in> set rs. f r \<noteq> d)"
  by (induction rs arbitrary: m) auto

lemma holidaysIn_None: "holidaysIn y d = None \<longleftrightarrow> (\<forall>r \<in> set federalHolidays. holidayDate y r \<noteq> d)"
  unfolding holidaysIn_def by (subst foldl_map_dom) simp

lemma rule_cases:
  assumes "r \<in> set federalHolidays"
  shows "(fixed r \<and> (rmonth r, rday r) \<in> {(1, 1), (6, 19), (7, 4), (11, 11), (12, 25)}) \<or>
    (\<not> fixed r \<and> wd r \<in> {Monday, Thursday} \<and> 1 \<le> rmonth r \<and> rmonth r < 12 \<and>
      (nth r = - 1 \<or> 1 \<le> nth r \<and> nth r \<le> 4))"
  using assms unfolding federalHolidays_def set_simps insert_iff empty_iff
  by (elim disjE) (simp_all add: fixedRule_def nthRule_def)

text \<open>An observed date on a Tuesday or a Wednesday was not moved.\<close>

lemma observed_midweek:
  assumes "weekday (observed d) = Tuesday \<or> weekday (observed d) = Wednesday"
  shows "observed d = d"
proof (rule ccontr)
  assume "observed d \<noteq> d"
  then consider "weekday d = Saturday" "observed d = AddDays d (- 1)"
    | "weekday d = Sunday" "observed d = AddDays d 1"
    by (cases "weekday d") (auto simp: observed_def)
  then show False
  proof cases
    case 1
    then have "(bd_days d + 1) mod 7 = 6" by (simp add: weekday_eq_iff)
    then have "(bd_days d + - 1 + 1) mod 7 = 5" by presburger
    with 1(2) assms show False by (simp add: weekday_eq_iff)
  next
    case 2
    then have "(bd_days d + 1) mod 7 = 0" by (simp add: weekday_eq_iff)
    then have "(bd_days d + 1 + 1) mod 7 = 1" by presburger
    with 2(2) assms show False by (simp add: weekday_eq_iff)
  qed
qed

lemma midweek_holiday:
  assumes "weekday d = Tuesday \<or> weekday d = Wednesday" "\<not> businessDay d"
  shows "(month d, day d) \<in> {(1, 1), (6, 19), (7, 4), (11, 11), (12, 25)}"
proof -
  from assms obtain r where r: "r \<in> set federalHolidays" "d = holidayDate (year d) r"
    by (auto simp: businessDay_def holidaysIn_None)
  from rule_cases [OF r(1)] consider
    (date) "fixed r" "(rmonth r, rday r) \<in> {(1, 1), (6, 19), (7, 4), (11, 11), (12, 25)}"
  | (nth) "\<not> fixed r" "wd r \<in> {Monday, Thursday}" "1 \<le> rmonth r" "rmonth r < 12"
      "nth r = - 1 \<or> 1 \<le> nth r \<and> nth r \<le> 4"
    by blast
  then show ?thesis
  proof cases
    case date
    then have v: "valid_date (BusinessDate (year d) (rmonth r) (rday r))"
      by (intro valid_first_28) auto
    with date(1) r(2) have "d = observed (BusinessDate (year d) (rmonth r) (rday r))"
      by (simp add: holidayDate_def)
    with observed_midweek assms(1) have "d = BusinessDate (year d) (rmonth r) (rday r)" by metis
    then have "month d = rmonth r" "day d = rday r" by (metis BusinessDate.sel)+
    with date(2) show ?thesis by simp
  next
    case nth
    then have "weekday d = wd r"
      using nthWeekday_char [of "rmonth r" "nth r" "year d" "wd r"] r(2)
      by (auto simp: holidayDate_def)
    with nth(2) assms(1) show ?thesis by auto
  qed
qed

text \<open>Of a Tuesday and the Wednesday after it, at least one is a business day.\<close>

lemma tue_or_wed:
  assumes "weekday d = Tuesday" "valid_date d"
  shows "businessDay d \<or> businessDay (AddDays d 1)"
proof (rule ccontr)
  assume no: "\<not> (businessDay d \<or> businessDay (AddDays d 1))"
  have "weekday (AddDays d 1) = Wednesday"
    using assms(1) unfolding weekday_eq_iff by simp presburger
  with no have e: "(month (AddDays d 1), day (AddDays d 1)) \<in> {(1, 1), (6, 19), (7, 4), (11, 11), (12, 25)}"
    by (intro midweek_holiday) auto
  from no assms have f: "(month d, day d) \<in> {(1, 1), (6, 19), (7, 4), (11, 11), (12, 25)}"
    by (intro midweek_holiday) auto
  then have "valid_date (BusinessDate (year d) (month d) (day d + 1))"
    by (intro valid_first_28) auto
  then have "AddDays d 1 = BusinessDate (year d) (month d) (day d + 1)"
    using AddDays_in_month [of "year d" "month d" "day d" 1] by (cases d) simp
  with e f show False by auto
qed

lemma business_day_ahead: "\<exists>k. 1 \<le> k \<and> k \<le> 8 \<and> businessDay (AddDays d k)"
proof -
  let ?k = "(1 - bd_days d - 1) mod 7 + 1"
  have w: "weekday (AddDays d ?k) = Tuesday"
    unfolding weekday_eq_iff by simp presburger
  have "0 \<le> (1 - bd_days d - 1) mod 7" "(1 - bd_days d - 1) mod 7 < 7" by simp_all
  then have "1 \<le> ?k \<and> ?k \<le> 8" "1 \<le> ?k + 1 \<and> ?k + 1 \<le> 8" by linarith+
  moreover have "businessDay (AddDays d ?k) \<or> businessDay (AddDays d (?k + 1))"
    using tue_or_wed [OF w] by (simp only: AddDays_AddDays valid_AddDays simp_thms)
  ultimately show ?thesis by blast
qed

lemma business_day_behind: "\<exists>k. 1 \<le> k \<and> k \<le> 8 \<and> businessDay (AddDays d (- k))"
proof -
  from business_day_ahead [of "AddDays d (- 9)"] obtain k where
    "1 \<le> k" "k \<le> 8" "businessDay (AddDays d (- 9 + k))" by auto
  then show ?thesis by (intro exI [of _ "9 - k"]) simp
qed

section \<open>The searches return\<close>

lemma search_ok:
  assumes "cache_ok c" "businessDay (AddDays n (step * int k))"
    and "\<And>j. j < k \<Longrightarrow> \<not> businessDay (AddDays n (step * int j))" and "valid_date n"
  shows "\<exists>c'. searchBusinessDay step c n = Some (AddDays n (step * int k), c') \<and> cache_ok c' \<and>
    loc c' = loc c"
  using assms
proof (induction k arbitrary: c n)
  case 0
  then obtain c' where "IsBusinessDay c n = (businessDay n, c')" "cache_ok c'" "loc c' = loc c"
    by (metis IsBusinessDay_ok)
  with 0 show ?case by (subst searchBusinessDay.simps) (simp add: AddDays_0)
next
  case (Suc k)
  from Suc.prems(1) obtain c' where c': "IsBusinessDay c n = (businessDay n, c')" "cache_ok c'"
    "loc c' = loc c"
    by (metis IsBusinessDay_ok)
  have "\<not> businessDay n" using Suc.prems(3) [of 0] Suc.prems(4) by (simp add: AddDays_0)
  moreover have "\<exists>c''. searchBusinessDay step c' (AddDays n step) =
      Some (AddDays (AddDays n step) (step * int k), c'') \<and> cache_ok c'' \<and> loc c'' = loc c'"
  proof (rule Suc.IH [OF c'(2)])
    show "businessDay (AddDays (AddDays n step) (step * int k))"
      using Suc.prems(2) by (simp add: algebra_simps)
    show "\<not> businessDay (AddDays (AddDays n step) (step * int j))" if "j < k" for j
      using Suc.prems(3) [of "Suc j"] that by (simp add: algebra_simps)
  qed simp
  ultimately show ?case
    using c' by (subst searchBusinessDay.simps) (auto simp: algebra_simps)
qed

lemma search_least:
  fixes P :: "nat \<Rightarrow> bool"
  assumes "P k"
  obtains j where "j \<le> k" "P j" "\<And>i. i < j \<Longrightarrow> \<not> P i"
  using assms by (metis Least_le LeastI not_less_Least)

lemma search_char:
  assumes "cache_ok c" "\<exists>k. 1 \<le> k \<and> k \<le> 8 \<and> businessDay (AddDays d (s * k))" "s = 1 \<or> s = - 1"
  shows "\<exists>k c'. 1 \<le> k \<and> k \<le> 8 \<and> searchBusinessDay s c (AddDays d s) = Some (AddDays d (s * k), c') \<and>
    cache_ok c' \<and> loc c' = loc c \<and> businessDay (AddDays d (s * k)) \<and>
    (\<forall>j. 1 \<le> j \<and> j < k \<longrightarrow> \<not> businessDay (AddDays d (s * j)))"
proof -
  let ?P = "\<lambda>j. businessDay (AddDays (AddDays d s) (s * int j))"
  from assms(2) obtain k where k: "1 \<le> k" "k \<le> 8" "businessDay (AddDays d (s * k))" by blast
  then have "?P (nat (k - 1))" by (simp add: algebra_simps)
  then obtain j where j: "j \<le> nat (k - 1)" "?P j" "\<And>i. i < j \<Longrightarrow> \<not> ?P i" using search_least [of ?P] by blast
  from search_ok [OF assms(1) j(2) j(3)] obtain c' where c':
    "searchBusinessDay s c (AddDays d s) = Some (AddDays d (s * (int j + 1)), c')"
    "cache_ok c'" "loc c' = loc c"
    by (auto simp: algebra_simps)
  have "\<not> businessDay (AddDays d (s * i))" if "1 \<le> i" "i < int j + 1" for i
    using j(3) [of "nat (i - 1)"] that by (simp add: algebra_simps)
  with j c' k show ?thesis by (intro exI [of _ "int j + 1"] exI [of _ c']) (auto simp: algebra_simps)
qed

lemma NextBusinessDay_char:
  assumes "cache_ok c"
  shows "\<exists>k c'. 1 \<le> k \<and> k \<le> 8 \<and> NextBusinessDay c d = Some (AddDays d k, c') \<and> cache_ok c' \<and>
    loc c' = loc c \<and> businessDay (AddDays d k) \<and> (\<forall>j. 1 \<le> j \<and> j < k \<longrightarrow> \<not> businessDay (AddDays d j))"
  using search_char [OF assms, of d 1] business_day_ahead [of d] by (simp add: NextBusinessDay_def)

lemma PrevBusinessDay_char:
  assumes "cache_ok c"
  shows "\<exists>k c'. 1 \<le> k \<and> k \<le> 8 \<and> PrevBusinessDay c d = Some (AddDays d (- k), c') \<and> cache_ok c' \<and>
    loc c' = loc c \<and> businessDay (AddDays d (- k)) \<and>
    (\<forall>j. 1 \<le> j \<and> j < k \<longrightarrow> \<not> businessDay (AddDays d (- j)))"
  using search_char [OF assms, of d "- 1"] business_day_behind [of d] by (simp add: PrevBusinessDay_def)

section \<open>The calendar interface\<close>

text \<open>
  The contract the clients of \<^verbatim>\<open>bizdate.Calendar\<close> rely on: an operation may change the calendar's
  own state, keeps it well-formed, and answers according to one set of business days.
\<close>

locale business_calendar =
  fixes ok :: "'c \<Rightarrow> bool"
    and biz :: "BusinessDate \<Rightarrow> bool"
    and isbd :: "'c \<Rightarrow> BusinessDate \<Rightarrow> bool \<times> 'c"
    and nextbd :: "'c \<Rightarrow> BusinessDate \<Rightarrow> (BusinessDate \<times> 'c) option"
    and prevbd :: "'c \<Rightarrow> BusinessDate \<Rightarrow> (BusinessDate \<times> 'c) option"
  assumes isbd_law: "ok c \<Longrightarrow> \<exists>c'. isbd c d = (biz d, c') \<and> ok c'"
    and next_law: "ok c \<Longrightarrow> \<exists>k c'. 1 \<le> k \<and> nextbd c d = Some (AddDays d k, c') \<and> ok c' \<and>
      biz (AddDays d k) \<and> (\<forall>j. 1 \<le> j \<and> j < k \<longrightarrow> \<not> biz (AddDays d j))"
    and prev_law: "ok c \<Longrightarrow> \<exists>k c'. 1 \<le> k \<and> prevbd c d = Some (AddDays d (- k), c') \<and> ok c' \<and>
      biz (AddDays d (- k)) \<and> (\<forall>j. 1 \<le> j \<and> j < k \<longrightarrow> \<not> biz (AddDays d (- j)))"
begin

lemma next_first:
  assumes "ok c"
  shows "\<exists>r c'. nextbd c d = Some (r, c') \<and> ok c' \<and> valid_date r \<and> biz r \<and> bd_days d < bd_days r \<and>
    (\<forall>n. bd_days d < n \<and> n < bd_days r \<longrightarrow> \<not> biz (absDate n))"
proof -
  from next_law [OF assms, of d] obtain k c' where
    k: "1 \<le> k" "nextbd c d = Some (AddDays d k, c')" "ok c'" "biz (AddDays d k)"
    and least: "\<And>j. 1 \<le> j \<Longrightarrow> j < k \<Longrightarrow> \<not> biz (AddDays d j)" by blast
  have "\<not> biz (absDate n)" if "bd_days d < n" "n < bd_days d + k" for n
    using least [of "n - bd_days d"] that by (simp add: AddDays_absDate)
  with k show ?thesis by auto
qed

lemma prev_last:
  assumes "ok c"
  shows "\<exists>r c'. prevbd c d = Some (r, c') \<and> ok c' \<and> valid_date r \<and> biz r \<and> bd_days r < bd_days d \<and>
    (\<forall>n. bd_days r < n \<and> n < bd_days d \<longrightarrow> \<not> biz (absDate n))"
proof -
  from prev_law [OF assms, of d] obtain k c' where
    k: "1 \<le> k" "prevbd c d = Some (AddDays d (- k), c')" "ok c'" "biz (AddDays d (- k))"
    and least: "\<And>j. 1 \<le> j \<Longrightarrow> j < k \<Longrightarrow> \<not> biz (AddDays d (- j))" by blast
  have "\<not> biz (absDate n)" if "bd_days d - k < n" "n < bd_days d" for n
    using least [of "bd_days d - n"] that by (simp add: AddDays_absDate)
  with k show ?thesis by auto
qed

lemma prev_next:
  assumes "ok c" "valid_date d" "biz d"
  shows "\<exists>r c1 c2. nextbd c d = Some (r, c1) \<and> prevbd c1 r = Some (d, c2) \<and> ok c2"
proof -
  from next_first [OF assms(1)] obtain r c1 where
    r: "nextbd c d = Some (r, c1)" "ok c1" "bd_days d < bd_days r"
    "\<And>n. bd_days d < n \<Longrightarrow> n < bd_days r \<Longrightarrow> \<not> biz (absDate n)" by blast
  from prev_last [OF r(2)] obtain p c2 where
    p: "prevbd c1 r = Some (p, c2)" "ok c2" "valid_date p" "biz p" "bd_days p < bd_days r"
    "\<And>n. bd_days p < n \<Longrightarrow> n < bd_days r \<Longrightarrow> \<not> biz (absDate n)" by blast
  have "\<not> bd_days d < bd_days p" using r(4) [of "bd_days p"] p by (auto simp: absDate_bd_days)
  moreover have "\<not> bd_days p < bd_days d" using p(6) [of "bd_days d"] r(3) assms by (auto simp: absDate_bd_days)
  ultimately have "p = d" using p(3) assms(2) by (simp add: bd_days_inj [symmetric])
  with r p show ?thesis by blast
qed

lemma next_mono:
  assumes "ok c" "ok c'" "bd_days d \<le> bd_days e"
  shows "\<exists>r c1 s c2. nextbd c d = Some (r, c1) \<and> nextbd c' e = Some (s, c2) \<and> bd_days r \<le> bd_days s"
proof -
  from next_first [OF assms(1)] obtain r c1 where
    r: "nextbd c d = Some (r, c1)" "\<And>n. bd_days d < n \<Longrightarrow> n < bd_days r \<Longrightarrow> \<not> biz (absDate n)" by blast
  from next_first [OF assms(2)] obtain s c2 where
    s: "nextbd c' e = Some (s, c2)" "valid_date s" "biz s" "bd_days e < bd_days s" by blast
  have "bd_days r \<le> bd_days s"
    using r(2) [of "bd_days s"] s assms(3) by (cases "bd_days s < bd_days r") (auto simp: absDate_bd_days)
  with r s show ?thesis by blast
qed

end

interpretation us: business_calendar cache_ok businessDay IsBusinessDay NextBusinessDay PrevBusinessDay
proof unfold_locales
  fix c d assume c: "cache_ok c"
  show "\<exists>c'. IsBusinessDay c d = (businessDay d, c') \<and> cache_ok c'"
    using IsBusinessDay_ok [OF c] by metis
  show "\<exists>k c'. 1 \<le> k \<and> NextBusinessDay c d = Some (AddDays d k, c') \<and> cache_ok c' \<and>
      businessDay (AddDays d k) \<and> (\<forall>j. 1 \<le> j \<and> j < k \<longrightarrow> \<not> businessDay (AddDays d j))"
    using NextBusinessDay_char [OF c, of d] by blast
  show "\<exists>k c'. 1 \<le> k \<and> PrevBusinessDay c d = Some (AddDays d (- k), c') \<and> cache_ok c' \<and>
      businessDay (AddDays d (- k)) \<and> (\<forall>j. 1 \<le> j \<and> j < k \<longrightarrow> \<not> businessDay (AddDays d (- j)))"
    using PrevBusinessDay_char [OF c, of d] by blast
qed

section \<open>Clients of the interface\<close>

lemma businessDaysLoop_char:
  assumes "cache_ok c" "valid_date d"
  shows "\<exists>c'. businessDaysLoop c d to out =
      (out @ filter businessDay (map absDate [bd_days d..bd_days to]), c') \<and> cache_ok c'"
  using assms
proof (induction c d to out rule: businessDaysLoop.induct)
  case (1 c d to out)
  show ?case
  proof (cases "After d to")
    case True
    then show ?thesis using 1(2) by (simp add: businessDaysLoop.simps [of c] After_iff)
  next
    case False
    from 1(2) obtain c' where c': "IsBusinessDay c d = (businessDay d, c')" "cache_ok c'"
      by (metis IsBusinessDay_ok)
    let ?out = "if businessDay d then out @ [d] else out"
    have "[bd_days d..bd_days to] = bd_days d # [bd_days d + 1..bd_days to]"
      using False by (simp add: After_iff upto_rec1)
    moreover have "\<exists>c''. businessDaysLoop c' (AddDays d 1) to ?out =
        (?out @ filter businessDay (map absDate [bd_days d + 1..bd_days to]), c'') \<and> cache_ok c''"
      using 1(1) [OF False c'(1) [symmetric] refl c'(2)] by simp
    ultimately show ?thesis
      using False c' 1(3) by (auto simp: businessDaysLoop.simps [of c d] absDate_bd_days)
  qed
qed

lemma time_of_day:
  "(t - dayOf t * nsPerDay < CutOff) = (t mod nsPerDay < CutOff)"
  by (simp add: dayOf_def minus_div_mult_eq_mod)

lemma BusinessDateFor_fixed:
  assumes "cache_ok c" "loc c = (\<lambda>_. k)"
  shows "\<exists>r c'. BusinessDateFor c t = Some (r, c') \<and> cache_ok c' \<and> valid_date r \<and> businessDay r \<and>
    (let n = dayOf (t + k) + (if (t + k) mod nsPerDay < CutOff then 0 else 1) in
      n \<le> bd_days r \<and> (\<forall>e. n \<le> e \<and> e < bd_days r \<longrightarrow> \<not> businessDay (absDate e)))"
proof -
  let ?d = "absDate (dayOf (t + k))"
  have cut: "t < time_Date_in (loc c) (bd_time ?d + CutOff) \<longleftrightarrow> (t + k) mod nsPerDay < CutOff"
    unfolding time_of_day [symmetric] assms(2) by (auto simp: time_Date_in_def bd_time_def Let_def)
  show ?thesis
  proof (cases "(t + k) mod nsPerDay < CutOff")
    case late: False
    from us.next_first [OF assms(1), of ?d] obtain r c' where
      "NextBusinessDay c ?d = Some (r, c')" "cache_ok c'" "valid_date r" "businessDay r"
      "dayOf (t + k) < bd_days r"
      "\<And>n. dayOf (t + k) < n \<Longrightarrow> n < bd_days r \<Longrightarrow> \<not> businessDay (absDate n)" by auto
    with late cut show ?thesis by (auto simp: BusinessDateFor_def assms(2) Let_def)
  next
    case early: True
    from assms(1) obtain c1 where c1: "IsBusinessDay c ?d = (businessDay ?d, c1)" "cache_ok c1"
      by (metis IsBusinessDay_ok)
    show ?thesis
    proof (cases "businessDay ?d")
      case True
      with early cut c1 show ?thesis by (auto simp: BusinessDateFor_def assms(2) Let_def)
    next
      case False
      from us.next_first [OF c1(2), of ?d] obtain r c' where
        "NextBusinessDay c1 ?d = Some (r, c')" "cache_ok c'" "valid_date r" "businessDay r"
        "dayOf (t + k) < bd_days r"
        "\<And>n. dayOf (t + k) < n \<Longrightarrow> n < bd_days r \<Longrightarrow> \<not> businessDay (absDate n)" by auto
      moreover from this False have
        "\<not> businessDay (absDate n)" if "dayOf (t + k) \<le> n" "n < bd_days r" for n
        using that by (cases "n = dayOf (t + k)") auto
      ultimately show ?thesis
        using early cut c1 False by (auto simp: BusinessDateFor_def assms(2) Let_def)
    qed
  qed
qed

text \<open>Two dates that are first business days from ordered starting points are ordered.\<close>

lemma first_from_mono:
  assumes "m \<le> n" "\<And>e. m \<le> e \<Longrightarrow> e < bd_days r \<Longrightarrow> \<not> businessDay (absDate e)"
    and "n \<le> bd_days s" "businessDay s" "valid_date s"
  shows "bd_days r \<le> bd_days s"
  using assms(2) [of "bd_days s"] assms by (cases "bd_days s < bd_days r") (auto simp: absDate_bd_days)

lemma cutoff_day_mono:
  assumes "t \<le> u"
  shows "dayOf t + (if t mod nsPerDay < CutOff then 0 else 1) \<le>
         dayOf u + (if u mod nsPerDay < CutOff then 0 else 1)"
proof (cases "dayOf t = dayOf u")
  case True
  then have "t mod nsPerDay \<le> u mod nsPerDay"
    using assms by (simp add: dayOf_def flip: minus_div_mult_eq_mod)
  with True show ?thesis by auto
next
  case False
  have "dayOf t \<le> dayOf u" using assms by (simp add: dayOf_def nsPerDay_def zdiv_mono1)
  with False show ?thesis by auto
qed

text \<open>A holiday stored under year \<open>y\<close> never falls on the last day of that year.\<close>

lemma observed_AddDays: "valid_date d \<Longrightarrow> \<exists>k \<in> {- 1, 0, 1}. observed d = AddDays d k"
  by (cases "weekday d") (auto simp: observed_def AddDays_0)

lemma year_end_not_holiday: "holidaysIn y (BusinessDate y 12 31) = None"
  unfolding holidaysIn_None
proof
  fix r assume r: "r \<in> set federalHolidays"
  let ?e = "BusinessDate y 12 31"
  have e: "valid_date ?e" by (simp add: valid_date_def daysIn_def)
  from rule_cases [OF r] consider
    (date) "fixed r" "(rmonth r, rday r) \<in> {(1, 1), (6, 19), (7, 4), (11, 11), (12, 25)}"
  | (nth) "\<not> fixed r" "1 \<le> rmonth r" "rmonth r < 12" "nth r = - 1 \<or> 1 \<le> nth r \<and> nth r \<le> 4"
    by blast
  then show "holidayDate y r \<noteq> ?e"
  proof cases
    case date
    let ?h = "BusinessDate y (rmonth r) (rday r)"
    have v: "valid_date ?h" using date(2) by (intro valid_first_28) auto
    from observed_AddDays [OF v] obtain k where k: "k \<in> {- 1, 0, 1}" "observed ?h = AddDays ?h k" by blast
    have "bd_days ?h + k \<noteq> bd_days ?e"
      using date(2) k(1) by (auto simp: bd_days_def time_days_def Let_def)
    then have "AddDays ?h k \<noteq> ?e" by (metis bd_days_AddDays)
    with k v date(1) show ?thesis by (simp add: holidayDate_def)
  next
    case nth
    then show ?thesis
      using nthWeekday_char [of "rmonth r" "nth r" y "wd r"] by (auto simp: holidayDate_def)
  qed
qed

section \<open>Properties\<close>

text \<open>
  C31. \<^verbatim>\<open>NextBusinessDay\<close> always returns: from any calendar whose cache holds what the rules
  compute (the cache is empty at first and every operation keeps it so), its unbounded
  loop stops at the first business day strictly after \<^verbatim>\<open>d\<close>, which is at most eight days away.
\<close>

theorem NextBusinessDay_returns:
  assumes "cache_ok c"
  shows "\<exists>k c'. 1 \<le> k \<and> k \<le> 8 \<and> NextBusinessDay c d = Some (AddDays d k, c') \<and> cache_ok c' \<and>
    businessDay (AddDays d k) \<and> (\<forall>j. 1 \<le> j \<and> j < k \<longrightarrow> \<not> businessDay (AddDays d j))"
  using NextBusinessDay_char [OF assms, of d] by blast

theorem NextBusinessDay_returns_witness:
  "cache_ok (NewUSFederal None) \<and>
   (\<exists>k c'. NextBusinessDay (NewUSFederal None) (BusinessDate 2027 11 24) =
      Some (AddDays (BusinessDate 2027 11 24) k, c') \<and> 1 \<le> k \<and> k \<le> 8)"
  using NextBusinessDay_returns [of "NewUSFederal None" "BusinessDate 2027 11 24"] by auto

text \<open>
  \<^verbatim>\<open>PrevBusinessDay\<close> undoes \<^verbatim>\<open>NextBusinessDay\<close> on business days.
\<close>

theorem PrevBusinessDay_NextBusinessDay:
  assumes "cache_ok c" "valid_date d" "fst (IsBusinessDay c d)"
  shows "\<exists>r c1 c2. NextBusinessDay c d = Some (r, c1) \<and> PrevBusinessDay c1 r = Some (d, c2)"
proof -
  have "businessDay d" using assms IsBusinessDay_ok [OF assms(1), of d] by (metis fst_conv)
  from us.prev_next [OF assms(1,2) this] show ?thesis by blast
qed

theorem PrevBusinessDay_NextBusinessDay_witness:
  "cache_ok (NewUSFederal None) \<and> valid_date (BusinessDate 2027 12 31) \<and>
   fst (IsBusinessDay (NewUSFederal None) (BusinessDate 2027 12 31)) \<and>
   (\<exists>r c1 c2. NextBusinessDay (NewUSFederal None) (BusinessDate 2027 12 31) = Some (r, c1) \<and>
      PrevBusinessDay c1 r = Some (BusinessDate 2027 12 31, c2))"
proof -
  let ?d = "BusinessDate 2027 12 31"
  have "weekday ?d = Friday" by code_simp
  then have f: "fst (IsBusinessDay (NewUSFederal None) ?d)"
    by (simp add: IsBusinessDay_def holidays_def NewUSFederal_def Let_def year_end_not_holiday)
  have v: "valid_date ?d" by code_simp
  show ?thesis using PrevBusinessDay_NextBusinessDay [OF cache_ok_New v f] f v by simp
qed

text \<open>
  \<^verbatim>\<open>BusinessDaysBetween(from, to)\<close> is every business day of the closed interval, once and
  in calendar order.
\<close>

theorem BusinessDaysBetween_exact:
  assumes "cache_ok c" "valid_date from" "valid_date to"
  shows "set (fst (BusinessDaysBetween c from to)) =
      {d. valid_date d \<and> from \<le> d \<and> d \<le> to \<and> businessDay d} \<and>
    sorted_wrt (<) (fst (BusinessDaysBetween c from to))"
proof
  have eq: "fst (BusinessDaysBetween c from to) = filter businessDay (map absDate [bd_days from..bd_days to])"
    using businessDaysLoop_char [OF assms(1,2), of to "[]"] by (auto simp: BusinessDaysBetween_def)
  have le: "a \<le> b \<longleftrightarrow> bd_days a \<le> bd_days b" if "valid_date a" "valid_date b" for a b
    using that less_iff_bd_days [of b a] by (simp add: not_less [symmetric])
  have "set (fst (BusinessDaysBetween c from to)) =
      {d. businessDay d \<and> (\<exists>n. bd_days from \<le> n \<and> n \<le> bd_days to \<and> d = absDate n)}"
    by (auto simp: eq)
  also have "\<dots> = {d. valid_date d \<and> from \<le> d \<and> d \<le> to \<and> businessDay d}"
    using assms by (auto simp: le) (metis absDate_bd_days)
  finally show "set (fst (BusinessDaysBetween c from to)) =
      {d. valid_date d \<and> from \<le> d \<and> d \<le> to \<and> businessDay d}" .
  have "sorted_wrt (<) (map absDate [bd_days from..bd_days to])"
    by (simp add: sorted_wrt_map less_iff_bd_days sorted_wrt_upto)
  then show "sorted_wrt (<) (fst (BusinessDaysBetween c from to))"
    by (simp add: eq sorted_wrt_filter)
qed

theorem BusinessDaysBetween_exact_witness:
  "cache_ok (NewUSFederal None) \<and> valid_date (BusinessDate 2028 2 1) \<and> valid_date (BusinessDate 2028 2 29) \<and>
   sorted_wrt (<) (fst (BusinessDaysBetween (NewUSFederal None) (BusinessDate 2028 2 1) (BusinessDate 2028 2 29)))"
proof -
  have v: "valid_date (BusinessDate 2028 2 1)" "valid_date (BusinessDate 2028 2 29)" by code_simp+
  show ?thesis using v BusinessDaysBetween_exact [OF cache_ok_New v] by simp
qed

text \<open>
  C32. \<^verbatim>\<open>BusinessDateFor\<close> with the exclusive cut-off, in a zone of constant offset \<open>k\<close>: the result is
  the first business day on or after the local day when the local time of day is before
  17:00:00, and on or after the following day from 17:00:00 on.
\<close>

theorem BusinessDateFor_cutoff:
  assumes "cache_ok c" "loc c = (\<lambda>_. k)"
  shows "\<exists>r c'. BusinessDateFor c t = Some (r, c') \<and> valid_date r \<and> businessDay r \<and>
    (let n = dayOf (t + k) + (if (t + k) mod nsPerDay < CutOff then 0 else 1) in
      n \<le> bd_days r \<and> (\<forall>e. n \<le> e \<and> e < bd_days r \<longrightarrow> \<not> businessDay (absDate e)))"
  using BusinessDateFor_fixed [OF assms, of t] by blast

theorem BusinessDateFor_cutoff_witness:
  "cache_ok (NewUSFederal None) \<and>
   (\<exists>r c'. BusinessDateFor (NewUSFederal None) (bd_time (BusinessDate 2027 12 31) + CutOff) = Some (r, c') \<and>
      businessDay r \<and> bd_days (BusinessDate 2027 12 31) < bd_days r)"
proof -
  have z: "loc (NewUSFederal None) = (\<lambda>_. 0)" by (simp add: NewUSFederal_def)
  have "dayOf (bd_time (BusinessDate 2027 12 31) + CutOff) = bd_days (BusinessDate 2027 12 31)"
    "(bd_time (BusinessDate 2027 12 31) + CutOff) mod nsPerDay = CutOff"
    by (simp_all add: dayOf_def bd_time_def CutOff_def nsPerDay_def)
  with BusinessDateFor_cutoff [OF cache_ok_New z, of "bd_time (BusinessDate 2027 12 31) + CutOff"]
  show ?thesis by (auto simp: Let_def)
qed

text \<open>
  Business dates never go backwards: in a zone of constant offset a later instant has
  the same or a later business date, whatever the state of the cache.
\<close>

theorem BusinessDateFor_monotone:
  assumes "cache_ok c" "cache_ok c'" "loc c = (\<lambda>_. k)" "loc c' = (\<lambda>_. k)" "t \<le> u"
  shows "\<exists>r s c1 c2. BusinessDateFor c t = Some (r, c1) \<and> BusinessDateFor c' u = Some (s, c2) \<and> r \<le> s"
proof -
  from BusinessDateFor_fixed [OF assms(1,3), of t] obtain r c1 where
    r: "BusinessDateFor c t = Some (r, c1)" "valid_date r"
    "\<And>e. dayOf (t + k) + (if (t + k) mod nsPerDay < CutOff then 0 else 1) \<le> e \<Longrightarrow>
      e < bd_days r \<Longrightarrow> \<not> businessDay (absDate e)"
    by (auto simp: Let_def)
  from BusinessDateFor_fixed [OF assms(2,4), of u] obtain s c2 where
    s: "BusinessDateFor c' u = Some (s, c2)" "valid_date s" "businessDay s"
    "dayOf (u + k) + (if (u + k) mod nsPerDay < CutOff then 0 else 1) \<le> bd_days s"
    by (auto simp: Let_def)
  have "bd_days r \<le> bd_days s"
    using first_from_mono [OF cutoff_day_mono [of "t + k" "u + k"] r(3) s(4,3,2)] assms(5) by simp
  with r s show ?thesis using less_iff_bd_days [of s r] by (auto simp: not_less [symmetric])
qed

theorem BusinessDateFor_monotone_witness:
  "cache_ok (NewUSFederal None) \<and> (0 :: int) \<le> 5 \<and>
   (\<exists>r s c1 c2. BusinessDateFor (NewUSFederal None) 0 = Some (r, c1) \<and>
      BusinessDateFor (NewUSFederal None) 5 = Some (s, c2) \<and> r \<le> s)"
  using BusinessDateFor_monotone [of "NewUSFederal None" "NewUSFederal None" 0 0 5]
  by (simp add: NewUSFederal_def cache_ok_def)

text \<open>
  \<^verbatim>\<open>FirstBusinessDayOfMonth\<close> is a business day of the same month, not before
  \<^verbatim>\<open>FirstOfMonth\<close> and with no business day in between.
\<close>

theorem FirstBusinessDayOfMonth_in_month:
  assumes "cache_ok c" "1 \<le> m" "m \<le> 12"
  shows "\<exists>d c'. FirstBusinessDayOfMonth c y m = Some (BusinessDate y m d, c') \<and> 1 \<le> d \<and> d \<le> 9 \<and>
    businessDay (BusinessDate y m d) \<and>
    (\<forall>k. 1 \<le> k \<and> k < d \<longrightarrow> \<not> businessDay (BusinessDate y m k))"
proof -
  let ?f = "BusinessDate y m 1"
  have f: "Date y m 1 = ?f" using assms by (simp add: valid_first_28)
  from assms(1) obtain c1 where c1: "IsBusinessDay c ?f = (businessDay ?f, c1)" "cache_ok c1"
    by (metis IsBusinessDay_ok)
  show ?thesis
  proof (cases "businessDay ?f")
    case True
    then show ?thesis using c1 f by (intro exI [of _ 1]) (auto simp: FirstBusinessDayOfMonth_def)
  next
    case False
    from NextBusinessDay_char [OF c1(2), of ?f] obtain k c' where
      k: "1 \<le> k" "k \<le> 8" "NextBusinessDay c1 ?f = Some (AddDays ?f k, c')" "businessDay (AddDays ?f k)"
      "\<And>j. 1 \<le> j \<Longrightarrow> j < k \<Longrightarrow> \<not> businessDay (AddDays ?f j)" by blast
    have e: "AddDays ?f j = BusinessDate y m (1 + j)" if "0 \<le> j" "j \<le> 8" for j
      using that assms by (intro AddDays_in_month valid_first_28) auto
    have "\<not> businessDay (BusinessDate y m j)" if "1 \<le> j" "j < 1 + k" for j
      using k(5) [of "j - 1"] e [of "j - 1"] k(2) that False by (cases "j = 1") auto
    then show ?thesis
      using k e [of k] c1 f False
      by (intro exI [of _ "1 + k"]) (auto simp: FirstBusinessDayOfMonth_def)
  qed
qed

theorem FirstBusinessDayOfMonth_in_month_witness:
  "cache_ok (NewUSFederal None) \<and>
   (\<exists>d c'. FirstBusinessDayOfMonth (NewUSFederal None) 2028 1 = Some (BusinessDate 2028 1 d, c') \<and> d \<le> 9)"
  using FirstBusinessDayOfMonth_in_month [of "NewUSFederal None" 1 2028] by auto

text \<open>
  A New Year's Day on a Saturday is observed on 31 December of the year before, but the
  holiday set it is stored in is the one of its own year, which \<^verbatim>\<open>IsBusinessDay\<close> does not
  consult for a December date: the observed holiday is reported as a business day.
\<close>

theorem observed_new_year_is_business_day:
  assumes "cache_ok c" "weekday (Date y 1 1) = Saturday"
  shows "observed (Date y 1 1) = BusinessDate (y - 1) 12 31 \<and>
    holidaysIn y (BusinessDate (y - 1) 12 31) \<noteq> None \<and>
    fst (IsBusinessDay c (BusinessDate (y - 1) 12 31))"
proof (intro conjI)
  let ?e = "BusinessDate (y - 1) 12 31"
  have v: "valid_date ?e" "valid_date (BusinessDate y 1 1)"
    by (simp_all add: valid_date_def daysIn_def)
  have days: "bd_days ?e = bd_days (BusinessDate y 1 1) + - 1"
    using daysSinceEpoch_Suc [of "y - 1"] by (simp add: bd_days_def time_days_def DaysInYear_def)
  then have e: "AddDays (BusinessDate y 1 1) (- 1) = ?e"
    by (simp only: AddDays_absDate days [symmetric] absDate_bd_days [OF v(1)])
  with assms(2) v(2) show o: "observed (Date y 1 1) = ?e" by (simp add: observed_def)
  have "holidayDate y (fixedRule ''New Year's Day'' 1 1) = ?e"
    using o by (simp add: holidayDate_def fixedRule_def)
  then show "holidaysIn y ?e \<noteq> None"
    unfolding holidaysIn_None by (auto simp: federalHolidays_def)
  have "weekday ?e = Friday"
  proof -
    have "(bd_days (BusinessDate y 1 1) + 1) mod 7 = 6" using assms(2) v(2) by (simp add: weekday_eq_iff)
    then have "(bd_days ?e + 1) mod 7 = 5" unfolding days by presburger
    then show ?thesis by (simp add: weekday_eq_iff)
  qed
  then have "businessDay ?e" using year_end_not_holiday [of "y - 1"] by (simp add: businessDay_def)
  with IsBusinessDay_ok [OF assms(1), of ?e] show "fst (IsBusinessDay c ?e)" by (metis fst_conv)
qed

theorem observed_new_year_is_business_day_witness:
  "cache_ok (NewUSFederal None) \<and> weekday (Date 2028 1 1) = Saturday \<and>
   fst (IsBusinessDay (NewUSFederal None) (BusinessDate 2027 12 31))"
proof -
  have w: "weekday (Date 2028 1 1) = Saturday" by code_simp
  show ?thesis using w observed_new_year_is_business_day [OF cache_ok_New w] by simp
qed

end
