(* ===== verification/Store.thy ===== *)
theory Store
  imports Money Dateformat
begin

text \<open>
  The package \<^verbatim>\<open>internal/ledger/store\<close> over the schema of \<^verbatim>\<open>migrations/*.sql\<close>.

  The database is a record of tables, each a list of rows in insertion order, together with
  the two \<^verbatim>\<open>BIGSERIAL\<close> sequences. A statement that writes is a function
  \<^verbatim>\<open>db => (error + value) * db\<close>: on an error the tables are unchanged, but a sequence it drew from
  stays advanced, as in PostgreSQL. A statement that only reads is \<^verbatim>\<open>db => error + value\<close>.
  Constraints of the schema (primary and foreign keys, checks, the deferred zero-sum trigger)
  are part of the statements and of \<open>tx_Commit\<close>, with their SQLSTATE codes and names.

  Instants are nanoseconds since 0001-01-01 UTC, a \<^verbatim>\<open>DATE\<close> column is compared as a day number,
  and a \<^verbatim>\<open>uuid.UUID\<close> is a 128-bit word.
\<close>

section \<open>Errors\<close>

datatype store_error =
    PgError (sqlstate: string) (constraintName: string)
  | ErrNotFound string
  | ErrScanRange
  | ErrEntryMoney int money_error
  | ErrEntryScale int int nat
  | ErrConn string

definition SQLStateUniqueViolation :: string where
  "SQLStateUniqueViolation = ''23505''"

definition SQLStateRaiseException :: string where
  "SQLStateRaiseException = ''P0001''"

definition ConstraintIdempotency :: string where
  "ConstraintIdempotency = ''idempotency_keys_pkey''"

definition ConstraintInbox :: string where
  "ConstraintInbox = ''inbox_pkey''"

definition ConstraintEODRun :: string where
  "ConstraintEODRun = ''eod_runs_pkey''"

definition IsUniqueViolation :: "store_error \<Rightarrow> string \<Rightarrow> bool" where
  "IsUniqueViolation err c = (case err of
      PgError code name \<Rightarrow> code = SQLStateUniqueViolation \<and> (c = [] \<or> name = c)
    | _ \<Rightarrow> False)"

definition IsInvariantViolation :: "store_error \<Rightarrow> bool" where
  "IsInvariantViolation err = (case err of
      PgError code name \<Rightarrow> code = SQLStateRaiseException
    | _ \<Rightarrow> False)"

section \<open>Control flow\<close>

text \<open>
  \<^verbatim>\<open>if err := f(...); err != nil { ... }\<close> for a function that returns an error and changes the state.
\<close>

definition attempt :: "('e + 'a) \<times> 's \<Rightarrow> ('e \<Rightarrow> 's \<Rightarrow> 'b) \<Rightarrow> ('a \<Rightarrow> 's \<Rightarrow> 'b) \<Rightarrow> 'b" where
  "attempt m onErr onOk = (case fst m of Inl e \<Rightarrow> onErr e (snd m) | Inr a \<Rightarrow> onOk a (snd m))"

lemma attempt_simps [simp]:
  "attempt (Inl e, s) f g = f e s" "attempt (Inr a, s) f g = g a s"
  by (simp_all add: attempt_def)

lemma attempt_cases:
  assumes "attempt m f g = r"
  obtains (err) e s where "m = (Inl e, s)" "r = f e s" | (ok) a s where "m = (Inr a, s)" "r = g a s"
  using assms by (cases m; cases "fst m") auto

section \<open>Rows\<close>

type_synonym uuid = "128 word"

record Account =
  aId :: uuid
  aProductCode :: string
  aCurrency :: string
  aOpenedOn :: BusinessDate

record Posting =
  pId :: uuid
  pPrincipal :: string
  pKind :: string
  pCurrency :: string
  pBusinessDate :: BusinessDate
  pValueDate :: BusinessDate
  pPostedAt :: int
  pReverses :: "uuid option"

record Entry =
  eId :: int
  ePosting :: uuid
  eAccount :: uuid
  eAmount :: Amount
  eBusinessDate :: BusinessDate
  eValueDate :: BusinessDate
  eReverses :: "int option"

text \<open>
  The \<^verbatim>\<open>response\<close> column: the claim writes \<^verbatim>\<open>{}\<close>, completion the marshalled result, of which the
  JSON fields are the posting id and the entry ids.
\<close>

datatype jsonb = JEmpty | JResult uuid "int list"

record IdempotencyRecord =
  iPrincipal :: string
  iKey :: string
  iBodyHash :: string
  iPosting :: "uuid option"
  iResponse :: jsonb

record CheckpointRow =
  cAccount :: uuid
  cDate :: BusinessDate
  cCurrency :: string
  cBalance :: int
  cLastEntry :: int

record Hold =
  hId :: uuid
  hAccount :: uuid
  hAmount :: Amount
  hPlacedAt :: int
  hExpiresAt :: int
  hReleasedAt :: "int option"
  hReleaseKind :: "string option"

record OutboxRow =
  oId :: int
  oPosting :: uuid
  oPartitionKey :: string
  oPayload :: string
  oSent :: bool

record InboxRow =
  mId :: string
  mTopic :: string
  mPartition :: int
  mOffset :: int

record EODRow =
  rDate :: BusinessDate
  rFinished :: bool
  rPhases :: string

record db =
  accounts :: "Account list"
  postings :: "Posting list"
  entries :: "Entry list"
  idempotency :: "IdempotencyRecord list"
  checkpoints :: "CheckpointRow list"
  holds :: "Hold list"
  outbox :: "OutboxRow list"
  inbox :: "InboxRow list"
  eod_runs :: "EODRow list"
  seq_entry :: int
  seq_outbox :: int

definition emptyDB :: db where
  "emptyDB = \<lparr>accounts = [], postings = [], entries = [], idempotency = [], checkpoints = [],
     holds = [], outbox = [], inbox = [], eod_runs = [], seq_entry = 1, seq_outbox = 1\<rparr>"

record Balances =
  bAccount :: uuid
  bCurrency :: string
  bScale :: nat
  bAsOf :: BusinessDate
  bLedger :: int
  bAvailable :: int
  bPending :: int

section \<open>Column types\<close>

definition toDate :: "BusinessDate \<Rightarrow> int" where
  "toDate b = bd_days b"

definition fromDate :: "int \<Rightarrow> BusinessDate" where
  "fromDate t = absDate t"

text \<open>\<^verbatim>\<open>CHAR(3)\<close>: padded with blanks, an excess that is not all blanks is 22001.\<close>

definition char3 :: "string \<Rightarrow> string option" where
  "char3 s =
     (if length s \<le> 3 then Some (s @ replicate (3 - length s) (CHR '' ''))
      else if list_all (\<lambda>c. c = CHR '' '') (drop 3 s) then Some (take 3 s) else None)"

definition tooLong :: store_error where
  "tooLong = PgError ''22001'' []"

text \<open>A \<^verbatim>\<open>numeric\<close> result scanned into an \<^verbatim>\<open>int64\<close>.\<close>

definition scan64 :: "int \<Rightarrow> store_error + int" where
  "scan64 v = (if in64 v then Inr v else Inl ErrScanRange)"

text \<open>Referenced keys: the target of a foreign key.\<close>

definition has_posting :: "db \<Rightarrow> uuid \<Rightarrow> bool" where
  "has_posting d i \<longleftrightarrow> (\<exists>x \<in> set (postings d). pId x = i)"

definition has_account :: "db \<Rightarrow> uuid \<Rightarrow> bool" where
  "has_account d i \<longleftrightarrow> (\<exists>x \<in> set (accounts d). aId x = i)"

section \<open>Transactions\<close>

text \<open>
  \<^verbatim>\<open>tx.Rollback\<close> restores the tables of the snapshot; sequences are not transactional.
\<close>

definition tx_Rollback :: "db \<Rightarrow> db \<Rightarrow> db" where
  "tx_Rollback snap cur = snap\<lparr>seq_entry := seq_entry cur, seq_outbox := seq_outbox cur\<rparr>"

text \<open>The deferred constraint trigger \<^verbatim>\<open>entries_zero_sum\<close>, for one inserted row.\<close>

definition assert_posting_zero_sum :: "db \<Rightarrow> Entry \<Rightarrow> store_error option" where
  "assert_posting_zero_sum d new =
     (let rows = filter (\<lambda>e. ePosting e = ePosting new) (entries d);
          n = length rows;
          s = (\<Sum>e\<leftarrow>rows. minor (eAmount e))
      in if \<not> in64 s then Some (PgError ''22003'' [])
         else if n < 2 then Some (PgError SQLStateRaiseException [])
         else if s \<noteq> 0 then Some (PgError SQLStateRaiseException [])
         else None)"

fun firstError :: "('a \<Rightarrow> store_error option) \<Rightarrow> 'a list \<Rightarrow> store_error option" where
  "firstError f [] = None"
| "firstError f (x # xs) = (case f x of Some e \<Rightarrow> Some e | None \<Rightarrow> firstError f xs)"

text \<open>
  \<^verbatim>\<open>tx.Commit\<close>: the trigger runs once for every entry inserted since the snapshot; a failure
  aborts the transaction.
\<close>

definition tx_Commit :: "db \<Rightarrow> db \<Rightarrow> (store_error + unit) \<times> db" where
  "tx_Commit snap cur =
     (case firstError (assert_posting_zero_sum cur) (drop (length (entries snap)) (entries cur)) of
        Some e \<Rightarrow> (Inl e, tx_Rollback snap cur)
      | None \<Rightarrow> (Inr (), cur))"

text \<open>
  The trigger \<^verbatim>\<open>deny_mutation\<close> on \<^verbatim>\<open>entries\<close> and \<^verbatim>\<open>checkpoints\<close>: any update or delete statement
  is refused, whatever rows it names.
\<close>

definition deny_mutation :: "db \<Rightarrow> (store_error + unit) \<times> db" where
  "deny_mutation d = (Inl (PgError SQLStateRaiseException []), d)"

section \<open>Accounts\<close>

definition InsertAccount :: "db \<Rightarrow> Account \<Rightarrow> (store_error + unit) \<times> db" where
  "InsertAccount d a =
     (case char3 (aCurrency a) of
        None \<Rightarrow> (Inl tooLong, d)
      | Some cur \<Rightarrow>
          if has_account d (aId a)
          then (Inl (PgError SQLStateUniqueViolation ''accounts_pkey''), d)
          else (Inr (), d\<lparr>accounts := accounts d @
                 [a\<lparr>aCurrency := cur, aOpenedOn := fromDate (toDate (aOpenedOn a))\<rparr>]\<rparr>))"

definition GetAccount :: "db \<Rightarrow> uuid \<Rightarrow> store_error + Account" where
  "GetAccount d aid = (case find (\<lambda>a. aId a = aid) (accounts d) of
      None \<Rightarrow> Inl (ErrNotFound ''account'')
    | Some a \<Rightarrow> Inr a)"

definition AllAccounts :: "db \<Rightarrow> store_error + Account list" where
  "AllAccounts d = Inr (sort_key aId (accounts d))"

section \<open>Idempotency\<close>

definition idem_match :: "string \<Rightarrow> string \<Rightarrow> IdempotencyRecord \<Rightarrow> bool" where
  "idem_match p k r \<longleftrightarrow> iPrincipal r = p \<and> iKey r = k"

definition ClaimIdempotencyKey ::
  "db \<Rightarrow> string \<Rightarrow> string \<Rightarrow> string \<Rightarrow> (store_error + unit) \<times> db" where
  "ClaimIdempotencyKey d p k h =
     (if \<exists>r \<in> set (idempotency d). idem_match p k r
      then (Inl (PgError SQLStateUniqueViolation ConstraintIdempotency), d)
      else (Inr (), d\<lparr>idempotency := idempotency d @
             [\<lparr>iPrincipal = p, iKey = k, iBodyHash = h, iPosting = None, iResponse = JEmpty\<rparr>]\<rparr>))"

definition LoadIdempotency :: "db \<Rightarrow> string \<Rightarrow> string \<Rightarrow> store_error + IdempotencyRecord" where
  "LoadIdempotency d p k = (case find (idem_match p k) (idempotency d) of
      None \<Rightarrow> Inl (ErrNotFound ''idempotency'')
    | Some r \<Rightarrow> Inr r)"

definition CompleteIdempotency ::
  "db \<Rightarrow> string \<Rightarrow> string \<Rightarrow> uuid \<Rightarrow> jsonb \<Rightarrow> (store_error + unit) \<times> db" where
  "CompleteIdempotency d p k pid resp =
     (if (\<exists>r \<in> set (idempotency d). idem_match p k r) \<and> \<not> has_posting d pid
      then (Inl (PgError ''23503'' ''idempotency_keys_posting_id_fkey''), d)
      else (Inr (), d\<lparr>idempotency := map (\<lambda>r.
              if idem_match p k r then r\<lparr>iPosting := Some pid, iResponse := resp\<rparr> else r)
              (idempotency d)\<rparr>))"

section \<open>Postings\<close>

definition kinds :: "string list" where
  "kinds = [''transfer'', ''interest'', ''fee'', ''reversal'']"

definition InsertPosting :: "db \<Rightarrow> Posting \<Rightarrow> (store_error + unit) \<times> db" where
  "InsertPosting d p =
     (case char3 (pCurrency p) of
        None \<Rightarrow> (Inl tooLong, d)
      | Some cur \<Rightarrow>
          if pKind p \<notin> set kinds then (Inl (PgError ''23514'' ''postings_kind_check''), d)
          else if has_posting d (pId p)
          then (Inl (PgError SQLStateUniqueViolation ''postings_pkey''), d)
          else if \<exists>r. pReverses p = Some r \<and> r \<noteq> pId p \<and> \<not> has_posting d r
          then (Inl (PgError ''23503'' ''postings_reverses_posting_id_fkey''), d)
          else (Inr (), d\<lparr>postings := postings d @
                 [p\<lparr>pCurrency := cur, pBusinessDate := fromDate (toDate (pBusinessDate p)),
                    pValueDate := fromDate (toDate (pValueDate p))\<rparr>]\<rparr>))"

definition InsertEntry :: "db \<Rightarrow> Entry \<Rightarrow> (store_error + int) \<times> db" where
  "InsertEntry d e =
     (let n = seq_entry d; d' = d\<lparr>seq_entry := n + 1\<rparr> in
      case char3 (currency (eAmount e)) of
        None \<Rightarrow> (Inl tooLong, d')
      | Some cur \<Rightarrow>
          if \<not> has_posting d (ePosting e)
          then (Inl (PgError ''23503'' ''entries_posting_id_fkey''), d')
          else if \<not> has_account d (eAccount e)
          then (Inl (PgError ''23503'' ''entries_account_id_fkey''), d')
          else if \<exists>r. eReverses e = Some r \<and> r \<noteq> n \<and> \<not> (\<exists>x \<in> set (entries d). eId x = r)
          then (Inl (PgError ''23503'' ''entries_reverses_entry_id_fkey''), d')
          else (Inr n, d'\<lparr>entries := entries d @
                 [e\<lparr>eId := n, eAmount := (eAmount e)\<lparr>currency := cur\<rparr>,
                    eBusinessDate := fromDate (toDate (eBusinessDate e)),
                    eValueDate := fromDate (toDate (eValueDate e))\<rparr>]\<rparr>))"

fun InsertEntries :: "db \<Rightarrow> Entry list \<Rightarrow> int list \<Rightarrow> (store_error + int list) \<times> db" where
  "InsertEntries d [] ids = (Inr ids, d)"
| "InsertEntries d (e # es) ids =
     (case InsertEntry d e of
        (Inl err, d') \<Rightarrow> (Inl err, d')
      | (Inr n, d') \<Rightarrow> InsertEntries d' es (ids @ [n]))"

text \<open>
  The rows of one account-day; a stored amount is rebuilt from the registry and a stored
  scale that disagrees is an error.
\<close>

fun scanEntries :: "BusinessDate \<Rightarrow> Entry list \<Rightarrow> Entry list \<Rightarrow> store_error + Entry list" where
  "scanEntries bd [] out = Inr out"
| "scanEntries bd (r # rs) out =
     (case money_New (minor (eAmount r)) (currency (eAmount r)) of
        Inl err \<Rightarrow> Inl (ErrEntryMoney (eId r) err)
      | Inr amt \<Rightarrow>
          if scale amt \<noteq> scale (eAmount r)
          then Inl (ErrEntryScale (eId r) (int (scale (eAmount r))) (scale amt))
          else scanEntries bd rs
            (out @ [\<lparr>eId = eId r, ePosting = ePosting r, eAccount = eAccount r, eAmount = amt,
                     eBusinessDate = bd, eValueDate = BusinessDate 0 0 0, eReverses = None\<rparr>]))"

definition EntriesForAccountDay :: "db \<Rightarrow> uuid \<Rightarrow> BusinessDate \<Rightarrow> store_error + Entry list" where
  "EntriesForAccountDay d a bd =
     scanEntries bd (sort_key eId (filter (\<lambda>e. eAccount e = a \<and> toDate (eBusinessDate e) = toDate bd)
       (entries d))) []"

section \<open>Balances\<close>

text \<open>\<^verbatim>\<open>ORDER BY business_date DESC LIMIT 1\<close> over the account's checkpoints up to the date.\<close>

fun latestOf :: "CheckpointRow list \<Rightarrow> CheckpointRow option" where
  "latestOf [] = None"
| "latestOf (c # cs) = (case latestOf cs of
      None \<Rightarrow> Some c
    | Some b \<Rightarrow> if toDate (cDate b) \<le> toDate (cDate c) then Some c else Some b)"

definition latestCheckpoint :: "db \<Rightarrow> uuid \<Rightarrow> BusinessDate \<Rightarrow> CheckpointRow option" where
  "latestCheckpoint d a asOf =
     latestOf (filter (\<lambda>c. cAccount c = a \<and> toDate (cDate c) \<le> toDate asOf) (checkpoints d))"

definition ledgerBalanceSQL :: "db \<Rightarrow> uuid \<Rightarrow> BusinessDate \<Rightarrow> int" where
  "ledgerBalanceSQL d a asOf =
     (let c = latestCheckpoint d a asOf;
          bal = (case c of None \<Rightarrow> 0 | Some c \<Rightarrow> cBalance c);
          lastId = (case c of None \<Rightarrow> 0 | Some c \<Rightarrow> cLastEntry c)
      in bal + (\<Sum>e\<leftarrow>filter (\<lambda>e. eAccount e = a \<and> eId e > lastId \<and>
                  toDate (eBusinessDate e) \<le> toDate asOf) (entries d). minor (eAmount e)))"

definition LedgerBalance :: "db \<Rightarrow> uuid \<Rightarrow> BusinessDate \<Rightarrow> store_error + int" where
  "LedgerBalance d a asOf = scan64 (ledgerBalanceSQL d a asOf)"

definition currencySum :: "Entry list \<Rightarrow> string \<Rightarrow> int" where
  "currencySum es cur = (\<Sum>e\<leftarrow>filter (\<lambda>e. currency (eAmount e) = cur) es. minor (eAmount e))"

fun scanSums :: "Entry list \<Rightarrow> string list \<Rightarrow> (string \<rightharpoonup> int) \<Rightarrow> store_error + (string \<rightharpoonup> int)" where
  "scanSums es [] out = Inr out"
| "scanSums es (c # cs) out = (case scan64 (currencySum es c) of
      Inl e \<Rightarrow> Inl e
    | Inr v \<Rightarrow> scanSums es cs (out(c \<mapsto> v)))"

definition GlobalInvariant :: "db \<Rightarrow> store_error + (string \<rightharpoonup> int)" where
  "GlobalInvariant d =
     scanSums (entries d) (remdups (map (\<lambda>e. currency (eAmount e)) (entries d))) Map.empty"

section \<open>Outbox\<close>

definition InsertOutbox :: "db \<Rightarrow> uuid \<Rightarrow> string \<Rightarrow> string \<Rightarrow> (store_error + unit) \<times> db" where
  "InsertOutbox d pid key payload =
     (let n = seq_outbox d; d' = d\<lparr>seq_outbox := n + 1\<rparr> in
      if \<not> has_posting d pid
      then (Inl (PgError ''23503'' ''outbox_posting_id_fkey''), d')
      else (Inr (), d'\<lparr>outbox := outbox d @
        [\<lparr>oId = n, oPosting = pid, oPartitionKey = key, oPayload = payload, oSent = False\<rparr>]\<rparr>))"

definition ClaimOutboxBatch :: "db \<Rightarrow> nat \<Rightarrow> store_error + OutboxRow list" where
  "ClaimOutboxBatch d limit = Inr (take limit (sort_key oId (filter (\<lambda>r. \<not> oSent r) (outbox d))))"

definition MarkOutboxSent :: "db \<Rightarrow> int list \<Rightarrow> (store_error + unit) \<times> db" where
  "MarkOutboxSent d ids =
     (if ids = [] then (Inr (), d)
      else (Inr (), d\<lparr>outbox := map (\<lambda>r. if oId r \<in> set ids then r\<lparr>oSent := True\<rparr> else r) (outbox d)\<rparr>))"

definition OutboxDepth :: "db \<Rightarrow> store_error + nat" where
  "OutboxDepth d = Inr (length (filter (\<lambda>r. \<not> oSent r) (outbox d)))"

section \<open>Inbox\<close>

definition ClaimInboxMessage ::
  "db \<Rightarrow> string \<Rightarrow> string \<Rightarrow> int \<Rightarrow> int \<Rightarrow> (store_error + unit) \<times> db" where
  "ClaimInboxMessage d m topic part off =
     (if \<exists>r \<in> set (inbox d). mId r = m
      then (Inl (PgError SQLStateUniqueViolation ConstraintInbox), d)
      else (Inr (), d\<lparr>inbox := inbox d @
             [\<lparr>mId = m, mTopic = topic, mPartition = part, mOffset = off\<rparr>]\<rparr>))"

definition CountAppliedMessage :: "db \<Rightarrow> string \<Rightarrow> store_error + nat" where
  "CountAppliedMessage d m = Inr (length (filter (\<lambda>r. mId r = m) (inbox d)))"

section \<open>Holds\<close>

definition InsertHold :: "db \<Rightarrow> Hold \<Rightarrow> (store_error + unit) \<times> db" where
  "InsertHold d h =
     (case char3 (currency (hAmount h)) of
        None \<Rightarrow> (Inl tooLong, d)
      | Some cur \<Rightarrow>
          if \<not> minor (hAmount h) > 0 then (Inl (PgError ''23514'' ''holds_amount_minor_check''), d)
          else if \<exists>x \<in> set (holds d). hId x = hId h
          then (Inl (PgError SQLStateUniqueViolation ''holds_pkey''), d)
          else if \<not> has_account d (hAccount h)
          then (Inl (PgError ''23503'' ''holds_account_id_fkey''), d)
          else (Inr (), d\<lparr>holds := holds d @
                 [h\<lparr>hAmount := (hAmount h)\<lparr>currency := cur\<rparr>, hReleasedAt := None,
                    hReleaseKind := None\<rparr>]\<rparr>))"

definition release_kinds :: "string list" where
  "release_kinds = [''captured'', ''cancelled'', ''expired'']"

definition store_ReleaseHold :: "db \<Rightarrow> uuid \<Rightarrow> int \<Rightarrow> string \<Rightarrow> (store_error + unit) \<times> db" where
  "store_ReleaseHold d hid at kind =
     (let hit = (\<lambda>h. hId h = hid \<and> hReleasedAt h = None) in
      if \<not> (\<exists>h \<in> set (holds d). hit h) then (Inl (ErrNotFound ''open hold''), d)
      else if kind \<notin> set release_kinds
      then (Inl (PgError ''23514'' ''holds_release_kind_check''), d)
      else (Inr (), d\<lparr>holds := map (\<lambda>h.
              if hit h then h\<lparr>hReleasedAt := Some at, hReleaseKind := Some kind\<rparr> else h) (holds d)\<rparr>))"

definition ExpireHoldsAsOf :: "db \<Rightarrow> int \<Rightarrow> (store_error + nat) \<times> db" where
  "ExpireHoldsAsOf d at =
     (let due = (\<lambda>h. hReleasedAt h = None \<and> hExpiresAt h \<le> at) in
      (Inr (length (filter due (holds d))),
       d\<lparr>holds := map (\<lambda>h.
            if due h then h\<lparr>hReleasedAt := Some at, hReleaseKind := Some ''expired''\<rparr> else h) (holds d)\<rparr>))"

definition openHolds :: "db \<Rightarrow> uuid \<Rightarrow> int \<Rightarrow> Hold list" where
  "openHolds d a at =
     filter (\<lambda>h. hAccount h = a \<and> hReleasedAt h = None \<and> hExpiresAt h > at) (holds d)"

definition OpenHoldTotal :: "db \<Rightarrow> uuid \<Rightarrow> int \<Rightarrow> store_error + int" where
  "OpenHoldTotal d a at = scan64 (\<Sum>h\<leftarrow>openHolds d a at. minor (hAmount h))"

section \<open>Checkpoints and end of day\<close>

definition InsertCheckpoint ::
  "db \<Rightarrow> uuid \<Rightarrow> BusinessDate \<Rightarrow> string \<Rightarrow> int \<Rightarrow> int \<Rightarrow> (store_error + unit) \<times> db" where
  "InsertCheckpoint d a bd cur bal lastId =
     (case char3 cur of
        None \<Rightarrow> (Inl tooLong, d)
      | Some cur \<Rightarrow>
          if \<exists>c \<in> set (checkpoints d). cAccount c = a \<and> toDate (cDate c) = toDate bd
          then (Inl (PgError SQLStateUniqueViolation ''checkpoints_pkey''), d)
          else if \<not> has_account d a
          then (Inl (PgError ''23503'' ''checkpoints_account_id_fkey''), d)
          else (Inr (), d\<lparr>checkpoints := checkpoints d @
                 [\<lparr>cAccount = a, cDate = fromDate (toDate bd), cCurrency = cur, cBalance = bal,
                   cLastEntry = lastId\<rparr>]\<rparr>))"

definition MaxEntryIDAsOf :: "db \<Rightarrow> uuid \<Rightarrow> BusinessDate \<Rightarrow> store_error + int" where
  "MaxEntryIDAsOf d a bd =
     (let ids = map eId (filter (\<lambda>e. eAccount e = a \<and> toDate (eBusinessDate e) \<le> toDate bd) (entries d))
      in Inr (case ids of [] \<Rightarrow> 0 | i # is \<Rightarrow> foldl max i is))"

definition ClaimEODRun :: "db \<Rightarrow> BusinessDate \<Rightarrow> (store_error + unit) \<times> db" where
  "ClaimEODRun d bd =
     (if \<exists>r \<in> set (eod_runs d). toDate (rDate r) = toDate bd
      then (Inl (PgError SQLStateUniqueViolation ConstraintEODRun), d)
      else (Inr (), d\<lparr>eod_runs := eod_runs d @
             [\<lparr>rDate = fromDate (toDate bd), rFinished = False, rPhases = ''{}''\<rparr>]\<rparr>))"

definition FinishEODRun :: "db \<Rightarrow> BusinessDate \<Rightarrow> string \<Rightarrow> (store_error + unit) \<times> db" where
  "FinishEODRun d bd phases =
     (Inr (), d\<lparr>eod_runs := map (\<lambda>r.
        if toDate (rDate r) = toDate bd then r\<lparr>rFinished := True, rPhases := phases\<rparr> else r)
        (eod_runs d)\<rparr>)"

end
