(* ===== verification/Schema.thy ===== *)
theory Schema
  imports Store
begin

text \<open>
  What the schema of \<^verbatim>\<open>migrations/*.sql\<close> guarantees of every committed state, whatever
  statements the application sends: the statements of \<open>Store\<close> as a datatype, a transaction
  as a list of them that ends in a commit or at the first error in a rollback, and the
  committed states as an inductive predicate over transactions. The invariants are proved
  once for all clients of the store.
\<close>

section \<open>Statements and transactions\<close>

datatype stmt =
    SInsertAccount Account
  | SClaimIdempotencyKey string string string
  | SCompleteIdempotency string string uuid jsonb
  | SInsertPosting Posting
  | SInsertEntries "Entry list"
  | SInsertOutbox uuid string string
  | SMarkOutboxSent "int list"
  | SClaimInboxMessage string string int int
  | SInsertHold Hold
  | SReleaseHold uuid int string
  | SExpireHoldsAsOf int
  | SInsertCheckpoint uuid BusinessDate string int int
  | SClaimEODRun BusinessDate
  | SFinishEODRun BusinessDate string
  | SMutateEntries
  | SMutateCheckpoints

definition forget :: "('e + 'a) \<times> db \<Rightarrow> ('e + unit) \<times> db" where
  "forget r = (case r of (Inl e, d) \<Rightarrow> (Inl e, d) | (Inr _, d) \<Rightarrow> (Inr (), d))"

fun exec :: "stmt \<Rightarrow> db \<Rightarrow> (store_error + unit) \<times> db" where
  "exec (SInsertAccount a) d = InsertAccount d a"
| "exec (SClaimIdempotencyKey p k h) d = ClaimIdempotencyKey d p k h"
| "exec (SCompleteIdempotency p k pid r) d = CompleteIdempotency d p k pid r"
| "exec (SInsertPosting p) d = InsertPosting d p"
| "exec (SInsertEntries es) d = forget (InsertEntries d es [])"
| "exec (SInsertOutbox pid k pl) d = InsertOutbox d pid k pl"
| "exec (SMarkOutboxSent ids) d = MarkOutboxSent d ids"
| "exec (SClaimInboxMessage m t p off) d = ClaimInboxMessage d m t p off"
| "exec (SInsertHold h) d = InsertHold d h"
| "exec (SReleaseHold h at k) d = store_ReleaseHold d h at k"
| "exec (SExpireHoldsAsOf at) d = forget (ExpireHoldsAsOf d at)"
| "exec (SInsertCheckpoint a bd cur bal n) d = InsertCheckpoint d a bd cur bal n"
| "exec (SClaimEODRun bd) d = ClaimEODRun d bd"
| "exec (SFinishEODRun bd ph) d = FinishEODRun d bd ph"
| "exec SMutateEntries d = deny_mutation d"
| "exec SMutateCheckpoints d = deny_mutation d"

fun run_stmts :: "stmt list \<Rightarrow> db \<Rightarrow> (store_error + unit) \<times> db" where
  "run_stmts [] d = (Inr (), d)"
| "run_stmts (s # ss) d = (case exec s d of
      (Inl e, d') \<Rightarrow> (Inl e, d')
    | (Inr _, d') \<Rightarrow> run_stmts ss d')"

text \<open>A transaction; a statement sent to the pool on its own is a transaction of one statement.\<close>

definition run_tx :: "stmt list \<Rightarrow> db \<Rightarrow> (store_error + unit) \<times> db" where
  "run_tx ss d = (case run_stmts ss d of
      (Inl e, d') \<Rightarrow> (Inl e, tx_Rollback d d')
    | (Inr _, d') \<Rightarrow> tx_Commit d d')"

inductive committed :: "db \<Rightarrow> bool" where
  committed_empty: "committed emptyDB"
| committed_tx: "committed d \<Longrightarrow> committed (snd (run_tx ss d))"

inductive_simps committed_simps: "committed d"

section \<open>Invariants\<close>

definition keys_ok :: "db \<Rightarrow> bool" where
  "keys_ok d \<longleftrightarrow>
     distinct (map aId (accounts d)) \<and> distinct (map pId (postings d)) \<and>
     distinct (map (\<lambda>r. (iPrincipal r, iKey r)) (idempotency d)) \<and>
     distinct (map (\<lambda>c. (cAccount c, toDate (cDate c))) (checkpoints d)) \<and>
     distinct (map hId (holds d)) \<and> distinct (map mId (inbox d)) \<and>
     distinct (map (\<lambda>r. toDate (rDate r)) (eod_runs d))"

definition seqs_ok :: "db \<Rightarrow> bool" where
  "seqs_ok d \<longleftrightarrow>
     sorted_wrt (<) (map eId (entries d)) \<and> (\<forall>e \<in> set (entries d). 0 < eId e \<and> eId e < seq_entry d) \<and>
     sorted_wrt (<) (map oId (outbox d)) \<and> (\<forall>r \<in> set (outbox d). 0 < oId r \<and> oId r < seq_outbox d) \<and>
     0 < seq_entry d \<and> 0 < seq_outbox d"

definition refs_ok :: "db \<Rightarrow> bool" where
  "refs_ok d \<longleftrightarrow>
     (\<forall>e \<in> set (entries d). has_posting d (ePosting e) \<and> has_account d (eAccount e)) \<and>
     (\<forall>r \<in> set (outbox d). has_posting d (oPosting r)) \<and>
     (\<forall>r \<in> set (idempotency d). \<forall>i. iPosting r = Some i \<longrightarrow> has_posting d i) \<and>
     (\<forall>c \<in> set (checkpoints d). has_account d (cAccount c)) \<and>
     (\<forall>h \<in> set (holds d). has_account d (hAccount h) \<and> 0 < minor (hAmount h))"

definition posting_rows :: "Entry list \<Rightarrow> uuid \<Rightarrow> Entry list" where
  "posting_rows es i = filter (\<lambda>e. ePosting e = i) es"

definition entrySum :: "Entry list \<Rightarrow> int" where
  "entrySum es = (\<Sum>e\<leftarrow>es. minor (eAmount e))"

text \<open>Every posting that has an entry has at least two and they sum to zero.\<close>

definition zero_sum :: "db \<Rightarrow> bool" where
  "zero_sum d \<longleftrightarrow> (\<forall>e \<in> set (entries d).
     2 \<le> length (posting_rows (entries d) (ePosting e)) \<and> entrySum (posting_rows (entries d) (ePosting e)) = 0)"

lemmas wf_defs = keys_ok_def seqs_ok_def refs_ok_def has_posting_def has_account_def

definition db_wf :: "db \<Rightarrow> bool" where
  "db_wf d \<longleftrightarrow> keys_ok d \<and> seqs_ok d \<and> refs_ok d"

lemma db_wf_empty: "db_wf emptyDB"
  by (simp add: db_wf_def wf_defs emptyDB_def)

lemmas exec_defs = InsertAccount_def ClaimIdempotencyKey_def CompleteIdempotency_def
  InsertPosting_def InsertOutbox_def MarkOutboxSent_def ClaimInboxMessage_def
  InsertHold_def store_ReleaseHold_def ExpireHoldsAsOf_def InsertCheckpoint_def ClaimEODRun_def
  FinishEODRun_def deny_mutation_def forget_def

lemma distinct_map_upd:
  assumes "\<And>x. f (g x) = f x"
  shows "map f (map g xs) = map f xs"
  using assms by simp

text \<open>Primary keys and the sequences, one entry at a time.\<close>

text \<open>The row an insertion stores.\<close>

definition stored_entry :: "Entry \<Rightarrow> int \<Rightarrow> string \<Rightarrow> Entry" where
  "stored_entry e n cur = e\<lparr>eId := n, eAmount := (eAmount e)\<lparr>currency := cur\<rparr>,
     eBusinessDate := fromDate (toDate (eBusinessDate e)), eValueDate := fromDate (toDate (eValueDate e))\<rparr>"

lemma stored_entry_simps [simp]:
  "eId (stored_entry e n cur) = n" "ePosting (stored_entry e n cur) = ePosting e"
  "eAccount (stored_entry e n cur) = eAccount e" "minor (eAmount (stored_entry e n cur)) = minor (eAmount e)"
  "currency (eAmount (stored_entry e n cur)) = cur"
  "eBusinessDate (stored_entry e n cur) = fromDate (toDate (eBusinessDate e))"
  by (simp_all add: stored_entry_def)

lemma InsertEntry_cases:
  assumes "InsertEntry d e = (r, d')"
  obtains (refused) err where "r = Inl err" "d' = d\<lparr>seq_entry := seq_entry d + 1\<rparr>"
  | (stored) cur where "r = Inr (seq_entry d)" "char3 (currency (eAmount e)) = Some cur"
      "has_posting d (ePosting e)" "has_account d (eAccount e)"
      "d' = d\<lparr>seq_entry := seq_entry d + 1, entries := entries d @ [stored_entry e (seq_entry d) cur]\<rparr>"
proof (cases "char3 (currency (eAmount e))")
  case None
  then show ?thesis using assms refused [of tooLong] by (simp add: InsertEntry_def Let_def)
next
  case (Some cur)
  note d = assms [unfolded InsertEntry_def Let_def Some option.case stored_entry_def [symmetric]]
  show ?thesis
  proof (cases "r = Inr (seq_entry d)")
    case True
    with d Some show ?thesis by (intro stored) (auto split: if_splits)
  next
    case False
    with d obtain err where "r = Inl err" by (auto split: if_splits)
    with d show ?thesis by (intro refused) (auto split: if_splits)
  qed
qed

lemma InsertEntry_frame:
  assumes "InsertEntry d e = (r, d')"
  shows "accounts d' = accounts d" "postings d' = postings d" "idempotency d' = idempotency d"
    "checkpoints d' = checkpoints d" "holds d' = holds d" "outbox d' = outbox d" "inbox d' = inbox d"
    "eod_runs d' = eod_runs d" "seq_outbox d' = seq_outbox d" "seq_entry d' = seq_entry d + 1"
  using assms by (cases rule: InsertEntry_cases; simp)+

lemma refs_frame:
  assumes "accounts d' = accounts d" "postings d' = postings d"
  shows "has_posting d' = has_posting d" "has_account d' = has_account d"
  using assms by (simp_all add: has_posting_def has_account_def fun_eq_iff)

lemma InsertEntry_wf:
  assumes "db_wf d" "InsertEntry d e = (r, d')"
  shows "db_wf d'"
proof -
  have keys: "keys_ok d'"
    using assms InsertEntry_frame [OF assms(2)] by (simp add: db_wf_def keys_ok_def)
  note refs = refs_frame [OF InsertEntry_frame(1,2) [OF assms(2)]]
  from assms(2) show ?thesis
  proof (cases rule: InsertEntry_cases)
    case (refused err)
    then show ?thesis using assms(1) keys refs by (auto simp: db_wf_def refs_ok_def seqs_ok_def)
  next
    case (stored cur)
    have "refs_ok d'"
      using assms(1) stored refs by (auto simp: db_wf_def refs_ok_def)
    moreover have "seqs_ok d'"
      using assms(1) stored by (auto simp: db_wf_def seqs_ok_def sorted_wrt_append)
    ultimately show ?thesis using keys by (simp add: db_wf_def)
  qed
qed

lemma InsertEntries_wf:
  "db_wf d \<Longrightarrow> InsertEntries d es ids = (r, d') \<Longrightarrow> db_wf d'"
  by (induction d es ids rule: InsertEntries.induct)
    (auto split: prod.splits sum.splits dest: InsertEntry_wf)

lemma InsertEntries_append:
  "InsertEntries d es ids = (r, d') \<Longrightarrow> \<exists>new. entries d' = entries d @ new"
proof (induction d es ids rule: InsertEntries.induct)
  case (2 d e es ids)
  obtain r1 d1 where 1: "InsertEntry d e = (r1, d1)" by force
  then have "\<exists>new. entries d1 = entries d @ new"
    by (cases rule: InsertEntry_cases) auto
  with 1 2 show ?case by (cases r1) fastforce+
qed simp

section \<open>Every statement keeps the keys, sequences and references\<close>

text \<open>
  A statement that succeeds appends a row with a fresh key or rewrites columns that are no
  keys; one that fails leaves the tables alone.
\<close>

lemma has_frame [simp]:
  "has_posting (d\<lparr>accounts := x1\<rparr>) = has_posting d" "has_account (d\<lparr>postings := x2\<rparr>) = has_account d"
  "has_posting (d\<lparr>idempotency := x3\<rparr>) = has_posting d" "has_account (d\<lparr>idempotency := x3\<rparr>) = has_account d"
  "has_posting (d\<lparr>checkpoints := x4\<rparr>) = has_posting d" "has_account (d\<lparr>checkpoints := x4\<rparr>) = has_account d"
  "has_posting (d\<lparr>holds := x5\<rparr>) = has_posting d" "has_account (d\<lparr>holds := x5\<rparr>) = has_account d"
  "has_posting (d\<lparr>outbox := x6\<rparr>) = has_posting d" "has_account (d\<lparr>outbox := x6\<rparr>) = has_account d"
  "has_posting (d\<lparr>inbox := x7\<rparr>) = has_posting d" "has_account (d\<lparr>inbox := x7\<rparr>) = has_account d"
  "has_posting (d\<lparr>eod_runs := x8\<rparr>) = has_posting d" "has_account (d\<lparr>eod_runs := x8\<rparr>) = has_account d"
  "has_posting (d\<lparr>seq_outbox := x9\<rparr>) = has_posting d" "has_account (d\<lparr>seq_outbox := x9\<rparr>) = has_account d"
  by (simp_all add: has_posting_def has_account_def fun_eq_iff)

lemma has_grow [simp]:
  "has_posting (d\<lparr>postings := postings d @ [p]\<rparr>) i \<longleftrightarrow> has_posting d i \<or> i = pId p"
  "has_account (d\<lparr>accounts := accounts d @ [a]\<rparr>) i \<longleftrightarrow> has_account d i \<or> i = aId a"
  by (auto simp: has_posting_def has_account_def)

lemma has_keys: "aId a \<in> aId ` set (accounts d) \<longleftrightarrow> has_account d (aId a)"
  "pId p \<in> pId ` set (postings d) \<longleftrightarrow> has_posting d (pId p)"
  unfolding has_account_def has_posting_def image_iff by metis+

lemmas wf_simps = db_wf_def keys_ok_def seqs_ok_def refs_ok_def

lemma InsertAccount_wf: "db_wf d \<Longrightarrow> db_wf (snd (InsertAccount d a))"
  by (auto simp: wf_simps InsertAccount_def has_keys split: option.splits)

lemma ClaimIdempotencyKey_wf: "db_wf d \<Longrightarrow> db_wf (snd (ClaimIdempotencyKey d p k h))"
  by (auto simp: wf_simps ClaimIdempotencyKey_def idem_match_def)

lemma idem_keys_upd:
  "map (\<lambda>r. (iPrincipal r, iKey r)) (map (\<lambda>r. if P r then r\<lparr>iPosting := x, iResponse := y\<rparr> else r) rs) =
   map (\<lambda>r. (iPrincipal r, iKey r)) rs"
  by simp

lemma CompleteIdempotency_wf: "db_wf d \<Longrightarrow> db_wf (snd (CompleteIdempotency d p k pid resp))"
  unfolding wf_simps CompleteIdempotency_def
  by (auto simp: idem_keys_upd simp del: map_map)

lemma InsertPosting_wf: "db_wf d \<Longrightarrow> db_wf (snd (InsertPosting d p))"
  by (auto simp: wf_simps InsertPosting_def has_keys split: option.splits)

lemma InsertOutbox_wf: "db_wf d \<Longrightarrow> db_wf (snd (InsertOutbox d pid k pl))"
  by (auto simp: wf_simps InsertOutbox_def Let_def sorted_wrt_append)

lemma MarkOutboxSent_wf: "db_wf d \<Longrightarrow> db_wf (snd (MarkOutboxSent d ids))"
  by (auto simp: wf_simps MarkOutboxSent_def comp_def if_distrib cong: if_cong)

lemma ClaimInboxMessage_wf: "db_wf d \<Longrightarrow> db_wf (snd (ClaimInboxMessage d m t p off))"
  by (auto simp: wf_simps ClaimInboxMessage_def)

lemma InsertHold_wf: "db_wf d \<Longrightarrow> db_wf (snd (InsertHold d h))"
  by (auto simp: wf_simps InsertHold_def split: option.splits)

lemma hold_upd:
  "map hId (map (\<lambda>h. if P h then h\<lparr>hReleasedAt := x, hReleaseKind := y\<rparr> else h) hs) = map hId hs"
  by simp

lemma ReleaseHold_wf: "db_wf d \<Longrightarrow> db_wf (snd (store_ReleaseHold d h at k))"
  unfolding wf_simps store_ReleaseHold_def Let_def
  by (auto simp: hold_upd simp del: map_map)

lemma ExpireHolds_wf: "db_wf d \<Longrightarrow> db_wf (snd (ExpireHoldsAsOf d at))"
  unfolding wf_simps ExpireHoldsAsOf_def Let_def
  by (auto simp: hold_upd simp del: map_map)

lemma InsertCheckpoint_wf: "db_wf d \<Longrightarrow> db_wf (snd (InsertCheckpoint d a bd cur bal n))"
  by (auto simp: wf_simps InsertCheckpoint_def toDate_def fromDate_def split: option.splits)

lemma ClaimEODRun_wf: "db_wf d \<Longrightarrow> db_wf (snd (ClaimEODRun d bd))"
  by (auto simp: wf_simps ClaimEODRun_def toDate_def fromDate_def)

lemma eod_upd:
  "map (\<lambda>r. toDate (rDate r)) (map (\<lambda>r. if P r then r\<lparr>rFinished := x, rPhases := y\<rparr> else r) rs) =
   map (\<lambda>r. toDate (rDate r)) rs"
  by simp

lemma FinishEODRun_wf: "db_wf d \<Longrightarrow> db_wf (snd (FinishEODRun d bd ph))"
  unfolding wf_simps FinishEODRun_def
  by (auto simp: eod_upd simp del: map_map)

lemmas stmt_wf = InsertAccount_wf ClaimIdempotencyKey_wf CompleteIdempotency_wf InsertPosting_wf
  InsertOutbox_wf MarkOutboxSent_wf ClaimInboxMessage_wf InsertHold_wf ReleaseHold_wf
  ExpireHolds_wf InsertCheckpoint_wf ClaimEODRun_wf FinishEODRun_wf

lemma snd_forget [simp]: "snd (forget r) = snd r"
  by (auto simp: forget_def split: prod.splits sum.splits)

lemma exec_wf: "db_wf d \<Longrightarrow> db_wf (snd (exec s d))"
  by (cases s) (simp_all add: stmt_wf deny_mutation_def, metis InsertEntries_wf prod.collapse)

section \<open>Entries are only appended\<close>

lemma exec_append: "\<exists>new. entries (snd (exec s d)) = entries d @ new"
proof (cases s)
  case (SInsertEntries es)
  then show ?thesis using InsertEntries_append [of d es "[]"] by (metis exec.simps(5) prod.collapse snd_forget)
qed (simp_all add: exec_defs Let_def split: option.split)

lemma run_stmts_append: "run_stmts ss d = (r, d') \<Longrightarrow> \<exists>new. entries d' = entries d @ new"
proof (induction ss arbitrary: d)
  case (Cons s ss)
  obtain r1 d1 where 1: "exec s d = (r1, d1)" by force
  with exec_append [of s d] obtain n1 where n1: "entries d1 = entries d @ n1" by auto
  show ?case
  proof (cases r1)
    case (Inl e)
    with Cons.prems 1 n1 show ?thesis by auto
  next
    case (Inr u)
    with Cons.prems 1 have "run_stmts ss d1 = (r, d')" by simp
    from Cons.IH [OF this] n1 show ?thesis by auto
  qed
qed simp

lemma run_stmts_wf: "db_wf d \<Longrightarrow> run_stmts ss d = (r, d') \<Longrightarrow> db_wf d'"
proof (induction ss arbitrary: d)
  case (Cons s ss)
  obtain r1 d1 where 1: "exec s d = (r1, d1)" by force
  with exec_wf [OF Cons.prems(1), of s] have "db_wf d1" by simp
  with Cons 1 show ?case by (cases r1) auto
qed simp

text \<open>Sequences never move backwards, so that the snapshot stays below them after a rollback.\<close>

lemma InsertEntries_seqs:
  "InsertEntries d es ids = (r, d') \<Longrightarrow> seq_entry d \<le> seq_entry d' \<and> seq_outbox d \<le> seq_outbox d'"
  by (induction d es ids rule: InsertEntries.induct)
    (fastforce split: prod.splits sum.splits dest: InsertEntry_frame(9,10))+

lemma exec_seqs: "seq_entry d \<le> seq_entry (snd (exec s d)) \<and> seq_outbox d \<le> seq_outbox (snd (exec s d))"
proof (cases s)
  case (SInsertEntries es)
  then show ?thesis using InsertEntries_seqs [of d es "[]"] by (metis exec.simps(5) prod.collapse snd_forget)
qed (simp_all add: exec_defs Let_def split: option.split)

lemma run_stmts_seqs: "run_stmts ss d = (r, d') \<Longrightarrow> seq_entry d \<le> seq_entry d' \<and> seq_outbox d \<le> seq_outbox d'"
proof (induction ss arbitrary: d)
  case (Cons s ss)
  obtain r1 d1 where 1: "exec s d = (r1, d1)" by force
  with exec_seqs [of d s] have "seq_entry d \<le> seq_entry d1 \<and> seq_outbox d \<le> seq_outbox d1" by simp
  with Cons 1 show ?case by (cases r1) force+
qed simp

lemma rollback_wf:
  assumes "db_wf d" "seq_entry d \<le> seq_entry d'" "seq_outbox d \<le> seq_outbox d'"
  shows "db_wf (tx_Rollback d d')"
proof -
  have "has_posting (tx_Rollback d d') = has_posting d" "has_account (tx_Rollback d d') = has_account d"
    by (simp_all add: has_posting_def has_account_def tx_Rollback_def fun_eq_iff)
  with assms show ?thesis
    unfolding wf_simps by (auto simp: tx_Rollback_def intro: order.strict_trans2 dest: bspec)
qed

lemma run_tx_cases:
  assumes "run_tx ss d = (r, d')"
  obtains (aborted) err cur where "r = Inl err" "run_stmts ss d = (Inl err, cur)" "d' = tx_Rollback d cur"
  | (refused) err where "r = Inl err" "\<exists>cur. run_stmts ss d = (Inr (), cur) \<and> d' = tx_Rollback d cur"
  | (finished) "r = Inr ()" "run_stmts ss d = (Inr (), d')"
      "firstError (assert_posting_zero_sum d') (drop (length (entries d)) (entries d')) = None"
  using assms
  by (auto simp: run_tx_def tx_Commit_def split: prod.splits sum.splits option.splits)

lemma firstError_None: "firstError f xs = None \<longleftrightarrow> (\<forall>x \<in> set xs. f x = None)"
  by (induction xs) (auto split: option.splits)

lemma assert_None:
  "assert_posting_zero_sum d e = None \<longleftrightarrow>
     2 \<le> length (posting_rows (entries d) (ePosting e)) \<and> entrySum (posting_rows (entries d) (ePosting e)) = 0"
  by (auto simp: assert_posting_zero_sum_def Let_def posting_rows_def entrySum_def in64_iff)

text \<open>
  The trigger looks only at the postings of the inserted rows, but that is enough: a posting
  without a new row keeps exactly its old rows.
\<close>

lemma commit_zero_sum:
  assumes "zero_sum d" "entries d' = entries d @ new"
    and "\<forall>e \<in> set new. assert_posting_zero_sum d' e = None"
  shows "zero_sum d'"
  unfolding zero_sum_def
proof
  fix e assume e: "e \<in> set (entries d')"
  show "2 \<le> length (posting_rows (entries d') (ePosting e)) \<and>
        entrySum (posting_rows (entries d') (ePosting e)) = 0"
  proof (cases "\<exists>x \<in> set new. ePosting x = ePosting e")
    case True
    then show ?thesis using assms(3) by (auto simp: assert_None)
  next
    case False
    then have "posting_rows (entries d') (ePosting e) = posting_rows (entries d) (ePosting e)"
      using assms(2) by (auto simp: posting_rows_def filter_empty_conv)
    moreover have "e \<in> set (entries d)" using e False assms(2) by auto
    ultimately show ?thesis using assms(1) by (simp add: zero_sum_def)
  qed
qed

lemma run_tx_invariant:
  assumes "db_wf d" "zero_sum d"
  shows "db_wf (snd (run_tx ss d)) \<and> zero_sum (snd (run_tx ss d))"
proof -
  obtain r d' where eq: "run_tx ss d = (r, d')" by force
  have rb: "zero_sum (tx_Rollback d cur)" for cur
    using assms(2) by (simp add: zero_sum_def tx_Rollback_def)
  from eq show ?thesis
  proof (cases rule: run_tx_cases)
    case (aborted err cur)
    with run_stmts_seqs [OF aborted(2)] rollback_wf [OF assms(1)] rb eq show ?thesis by simp
  next
    case (refused err)
    then obtain cur where "run_stmts ss d = (Inr (), cur)" "d' = tx_Rollback d cur" by blast
    with run_stmts_seqs rollback_wf [OF assms(1)] rb eq show ?thesis by fastforce
  next
    case finished
    from run_stmts_append [OF finished(2)] obtain new where new: "entries d' = entries d @ new" by blast
    with finished(3) have "\<forall>e \<in> set new. assert_posting_zero_sum d' e = None" by (simp add: firstError_None)
    with commit_zero_sum [OF assms(2) new] run_stmts_wf [OF assms(1) finished(2)] eq show ?thesis by simp
  qed
qed

lemma committed_wf: "committed d \<Longrightarrow> db_wf d \<and> zero_sum d"
proof (induction rule: committed.induct)
  case committed_empty
  show ?case by (simp add: db_wf_empty zero_sum_def) (simp add: emptyDB_def)
next
  case (committed_tx d ss)
  then show ?case using run_tx_invariant by blast
qed

section \<open>Properties\<close>





end
