(* ===== verification/Posting.thy ===== *)
theory Posting
  imports Schema
begin

text \<open>
  The package \<^verbatim>\<open>internal/ledger/posting\<close>: validation, the canonical body hash, the posting
  transaction and the replay of a stored response.

  Three functions the source only calls are parameters, collected in the record \<open>ext\<close>: the
  digest of the canonical request (\<^verbatim>\<open>sha256.Sum256\<close> of its JSON), \<^verbatim>\<open>uuid.NewSHA1\<close>, and the
  protobuf marshaller. What can go wrong outside the process is the record \<open>world\<close>: a statement
  may fail with a connection error, the acknowledgement of a commit may be lost after the
  server applied it, and the replay loop sees the database as other clients change it.
\<close>

section \<open>Data\<close>

record EntryRequest =
  qAccount :: uuid
  qAmountMinor :: int

record Request =
  qPrincipal :: string
  qKey :: string
  qKind :: string
  qCurrency :: string
  qBusinessDate :: BusinessDate
  qValueDate :: BusinessDate
  qPostedAt :: int
  qReverses :: "uuid option"
  qEntries :: "EntryRequest list"

record Result =
  resPosting :: uuid
  resBusinessDate :: BusinessDate
  resEntryIDs :: "int list"
  Replayed :: bool

datatype post_error =
    ErrMissingIdempotencyKey
  | ErrUnknownKind string
  | ErrTooFewEntries nat
  | ErrNotBalanced int
  | ErrNotBalancedAtCommit store_error
  | ErrEntryAmount nat money_error
  | ErrPostCurrencyMismatch money_error
  | ErrIdempotencyBodyMismatch
  | ErrPostStore store_error
  | ErrPostMoney money_error
  | ErrMarshalEvent
  | ErrReplayTimeout
  | ErrReplayCancelled

record canonical =
  canKind :: string
  canCurrency :: string
  canBusiness :: string
  canValue :: string
  canPostedAt :: string
  canReverses :: string
  canEntries :: "EntryRequest list"

record PbMoney =
  pbMinor :: int
  pbCurrency :: string
  pbScale :: nat

record PbEntry =
  pbEntryId :: int
  pbAccountId :: string
  pbAmount :: PbMoney

record PostingEvent =
  evPostingId :: string
  evPrincipal :: string
  evKind :: string
  evBusinessDate :: string
  evValueDate :: string
  evPostedAt :: string
  evReverses :: string
  evEntries :: "PbEntry list"

record ext =
  digest :: "canonical \<Rightarrow> string"
  newSHA1 :: "uuid \<Rightarrow> string \<Rightarrow> uuid"
  protoMarshal :: "PostingEvent \<Rightarrow> string option"

datatype step = StBegin | StClaim | StPosting | StEntries | StOutbox | StComplete | StCommit | StLoad

record world =
  conn :: "step \<Rightarrow> string option"
  ackLost :: bool
  later :: "nat \<Rightarrow> db"
  cancelled :: "nat \<Rightarrow> bool"

section \<open>Formatting\<close>

definition hexDigit :: "nat \<Rightarrow> char" where
  "hexDigit n = (if n < 10 then digitChar n else char_of (87 + n))"

text \<open>The hexadecimal digits of a 128-bit word from position \<open>i\<close> (0 is the most significant).\<close>

definition uuid_hex :: "uuid \<Rightarrow> nat \<Rightarrow> nat \<Rightarrow> string" where
  "uuid_hex u i n = map (\<lambda>k. hexDigit (unat u div 16 ^ (31 - k) mod 16)) [i..<i + n]"

definition uuid_String :: "uuid \<Rightarrow> string" where
  "uuid_String u = uuid_hex u 0 8 @ ''-'' @ uuid_hex u 8 4 @ ''-'' @ uuid_hex u 12 4 @ ''-'' @
     uuid_hex u 16 4 @ ''-'' @ uuid_hex u 20 12"

text \<open>\<^verbatim>\<open>t.UTC().Format(time.RFC3339Nano)\<close>: trailing zeros of the fraction are dropped.\<close>

definition trimZeros :: "string \<Rightarrow> string" where
  "trimZeros s = rev (dropWhile (\<lambda>c. c = CHR ''0'') (rev s))"

definition RFC3339Nano :: "int \<Rightarrow> string" where
  "RFC3339Nano t =
     (let d = absDate (dayOf t); s = t mod nsPerDay div 1000000000; ns = t mod 1000000000
      in BusinessDate_String d @ ''T'' @ fmt_0d 2 (s div 3600) @ '':'' @ fmt_0d 2 (s div 60 mod 60) @
         '':'' @ fmt_0d 2 (s mod 60) @
         (if ns = 0 then [] else ''.'' @ trimZeros (fmt_0d 9 ns)) @ ''Z'')"

section \<open>Validation\<close>

definition validKinds :: "string \<Rightarrow> bool" where
  "validKinds k \<longleftrightarrow> k \<in> {''transfer'', ''interest'', ''fee'', ''reversal''}"

fun entryAmounts :: "string \<Rightarrow> nat \<Rightarrow> EntryRequest list \<Rightarrow> post_error + Amount list" where
  "entryAmounts cur i [] = Inr []"
| "entryAmounts cur i (e # es) = (case money_New (qAmountMinor e) cur of
      Inl err \<Rightarrow> Inl (ErrEntryAmount i err)
    | Inr a \<Rightarrow> (case entryAmounts cur (Suc i) es of
        Inl err \<Rightarrow> Inl err
      | Inr as \<Rightarrow> Inr (a # as)))"

definition Validate :: "Request \<Rightarrow> post_error option" where
  "Validate r =
     (if qKey r = [] then Some ErrMissingIdempotencyKey
      else if \<not> validKinds (qKind r) then Some (ErrUnknownKind (qKind r))
      else if length (qEntries r) < 2 then Some (ErrTooFewEntries (length (qEntries r)))
      else case entryAmounts (qCurrency r) 0 (qEntries r) of
        Inl err \<Rightarrow> Some err
      | Inr amounts \<Rightarrow> (case money_Sum amounts of
          Inl err \<Rightarrow> Some (ErrPostCurrencyMismatch err)
        | Inr net \<Rightarrow> if \<not> IsZero net then Some (ErrNotBalanced (minor net)) else None))"

section \<open>Identity of a request\<close>

definition postingNamespace :: uuid where
  "postingNamespace = 0x5f3a1c629d845b7e9f218a4c6e0d17b3"

definition PostingIDFor :: "ext \<Rightarrow> string \<Rightarrow> string \<Rightarrow> uuid" where
  "PostingIDFor x prin idemKey = newSHA1 x postingNamespace (prin @ ''/'' @ idemKey)"

definition canonicalOf :: "Request \<Rightarrow> canonical" where
  "canonicalOf r = \<lparr>canKind = qKind r, canCurrency = qCurrency r,
     canBusiness = BusinessDate_String (qBusinessDate r), canValue = BusinessDate_String (qValueDate r),
     canPostedAt = RFC3339Nano (qPostedAt r),
     canReverses = (case qReverses r of None \<Rightarrow> [] | Some u \<Rightarrow> uuid_String u),
     canEntries = qEntries r\<rparr>"

definition BodyHash :: "ext \<Rightarrow> Request \<Rightarrow> string" where
  "BodyHash x r = digest x (canonicalOf r)"

section \<open>The outbox event\<close>

definition pbEntries :: "Request \<Rightarrow> int list \<Rightarrow> PbEntry list" where
  "pbEntries r ids =
     (let sc = (case money_New 0 (qCurrency r) of Inl _ \<Rightarrow> 0 | Inr a \<Rightarrow> scale a)
      in map (\<lambda>(i, e). \<lparr>pbEntryId = (if i < length ids then ids ! i else 0),
               pbAccountId = uuid_String (qAccount e),
               pbAmount = \<lparr>pbMinor = qAmountMinor e, pbCurrency = qCurrency r, pbScale = sc\<rparr>\<rparr>)
           (enumerate 0 (qEntries r)))"

definition marshalPostingEvent :: "ext \<Rightarrow> uuid \<Rightarrow> Request \<Rightarrow> int list \<Rightarrow> string option" where
  "marshalPostingEvent x pid r ids =
     protoMarshal x \<lparr>evPostingId = uuid_String pid, evPrincipal = qPrincipal r, evKind = qKind r,
       evBusinessDate = BusinessDate_String (qBusinessDate r),
       evValueDate = BusinessDate_String (qValueDate r), evPostedAt = RFC3339Nano (qPostedAt r),
       evReverses = (case qReverses r of None \<Rightarrow> [] | Some u \<Rightarrow> uuid_String u),
       evEntries = pbEntries r ids\<rparr>"

section \<open>Posting and replay\<close>

text \<open>
  The replay loop: at most \<open>n\<close> attempts; \<open>k\<close> is the attempt's number, whose reload sees the
  database \<^term>\<open>later w (Suc k)\<close>.
\<close>

fun replay_loop :: "world \<Rightarrow> Request \<Rightarrow> nat \<Rightarrow> nat \<Rightarrow> IdempotencyRecord \<Rightarrow> post_error + Result" where
  "replay_loop w r k 0 rec = Inl ErrReplayTimeout"
| "replay_loop w r k (Suc n) rec = (case iResponse rec of
      JResult pid ids \<Rightarrow>
        Inr \<lparr>resPosting = pid, resBusinessDate = qBusinessDate r, resEntryIDs = ids, Replayed = True\<rparr>
    | JEmpty \<Rightarrow>
        if cancelled w k then Inl ErrReplayCancelled
        else (case LoadIdempotency (later w (Suc k)) (qPrincipal r) (qKey r) of
          Inl err \<Rightarrow> Inl (ErrPostStore err)
        | Inr rec' \<Rightarrow> replay_loop w r (Suc k) n rec'))"

definition replay :: "world \<Rightarrow> db \<Rightarrow> Request \<Rightarrow> string \<Rightarrow> post_error + Result" where
  "replay w d r hash =
     (case conn w StLoad of
        Some m \<Rightarrow> Inl (ErrPostStore (ErrConn m))
      | None \<Rightarrow> (case LoadIdempotency d (qPrincipal r) (qKey r) of
          Inl err \<Rightarrow> Inl (ErrPostStore err)
        | Inr rec \<Rightarrow>
            if iBodyHash rec \<noteq> hash then Inl ErrIdempotencyBodyMismatch
            else replay_loop w r 0 50 rec))"

text \<open>A statement that the connection loses has no effect and returns the connection's error.\<close>

definition inject :: "world \<Rightarrow> step \<Rightarrow> db \<Rightarrow> (store_error + 'a) \<times> db \<Rightarrow> (store_error + 'a) \<times> db" where
  "inject w st d r = (case conn w st of Some m \<Rightarrow> (Inl (ErrConn m), d) | None \<Rightarrow> r)"

text \<open>A commit whose connection fails is applied when only its acknowledgement was lost.\<close>

definition commit_in :: "world \<Rightarrow> db \<Rightarrow> db \<Rightarrow> (store_error + unit) \<times> db" where
  "commit_in w d cur = (case conn w StCommit of
      None \<Rightarrow> tx_Commit d cur
    | Some m \<Rightarrow> (Inl (ErrConn m), if ackLost w then snd (tx_Commit d cur) else tx_Rollback d cur))"

fun buildEntries :: "Request \<Rightarrow> uuid \<Rightarrow> EntryRequest list \<Rightarrow> post_error + Entry list" where
  "buildEntries r pid [] = Inr []"
| "buildEntries r pid (e # es) = (case money_New (qAmountMinor e) (qCurrency r) of
      Inl err \<Rightarrow> Inl (ErrPostMoney err)
    | Inr amt \<Rightarrow> (case buildEntries r pid es of
        Inl err \<Rightarrow> Inl err
      | Inr rest \<Rightarrow> Inr (\<lparr>eId = 0, ePosting = pid, eAccount = qAccount e, eAmount = amt,
            eBusinessDate = qBusinessDate r, eValueDate = qValueDate r, eReverses = None\<rparr> # rest)))"

definition envelope :: "Request \<Rightarrow> uuid \<Rightarrow> Posting" where
  "envelope r pid = \<lparr>pId = pid, pPrincipal = qPrincipal r, pKind = qKind r, pCurrency = qCurrency r,
     pBusinessDate = qBusinessDate r, pValueDate = qValueDate r, pPostedAt = qPostedAt r,
     pReverses = qReverses r\<rparr>"

definition Post :: "ext \<Rightarrow> world \<Rightarrow> db \<Rightarrow> Request \<Rightarrow> (post_error + Result) \<times> db" where
  "Post x w d r = (case Validate r of Some err \<Rightarrow> (Inl err, d) | None \<Rightarrow>
    let hash = BodyHash x r; pid = PostingIDFor x (qPrincipal r) (qKey r);
        fail = (\<lambda>err cur. (Inl err, tx_Rollback d cur))
    in case conn w StBegin of Some m \<Rightarrow> (Inl (ErrPostStore (ErrConn m)), d) | None \<Rightarrow>
    attempt (inject w StClaim d (ClaimIdempotencyKey d (qPrincipal r) (qKey r) hash))
      (\<lambda>err d1.
        if IsUniqueViolation err ConstraintIdempotency
        then (replay w (tx_Rollback d d1) r hash, tx_Rollback d d1)
        else fail (ErrPostStore err) d1) (\<lambda>_ d1.
    attempt (inject w StPosting d1 (InsertPosting d1 (envelope r pid)))
      (\<lambda>err. fail (ErrPostStore err)) (\<lambda>_ d2.
    case buildEntries r pid (qEntries r) of Inl err \<Rightarrow> fail err d2 | Inr es \<Rightarrow>
    attempt (inject w StEntries d2 (InsertEntries d2 es []))
      (\<lambda>err. fail (ErrPostStore err)) (\<lambda>ids d3.
    case marshalPostingEvent x pid r ids of None \<Rightarrow> fail ErrMarshalEvent d3 | Some payload \<Rightarrow>
    attempt (inject w StOutbox d3 (InsertOutbox d3 pid (uuid_String (qAccount (hd (qEntries r)))) payload))
      (\<lambda>err. fail (ErrPostStore err)) (\<lambda>_ d4.
    attempt (inject w StComplete d4
        (CompleteIdempotency d4 (qPrincipal r) (qKey r) pid (JResult pid ids)))
      (\<lambda>err. fail (ErrPostStore err)) (\<lambda>_ d5.
    attempt (commit_in w d d5)
      (\<lambda>err d6. (Inl (if IsInvariantViolation err then ErrNotBalancedAtCommit err else ErrPostStore err), d6))
      (\<lambda>_ d6. (Inr \<lparr>resPosting = pid, resBusinessDate = qBusinessDate r, resEntryIDs = ids,
                      Replayed = False\<rparr>, d6))))))))"

section \<open>What validation accepts\<close>

definition request_int64 :: "Request \<Rightarrow> bool" where
  "request_int64 r \<longleftrightarrow> (\<forall>e \<in> set (qEntries r). in64 (qAmountMinor e))"

definition legSum :: "Request \<Rightarrow> int" where
  "legSum r = (\<Sum>e\<leftarrow>qEntries r. qAmountMinor e)"

definition acceptable :: "Request \<Rightarrow> bool" where
  "acceptable r \<longleftrightarrow> qKey r \<noteq> [] \<and> validKinds (qKind r) \<and> 2 \<le> length (qEntries r) \<and>
     qCurrency r \<in> set Known \<and> (\<forall>e \<in> set (qEntries r). qAmountMinor e \<noteq> MinInt64) \<and>
     prefixes_fit (qAmountMinor (hd (qEntries r))) (map qAmountMinor (tl (qEntries r))) \<and> legSum r = 0"

lemma entryAmounts_Inr:
  "entryAmounts cur i es = Inr as \<Longrightarrow>
     map minor as = map qAmountMinor es \<and> (\<forall>a \<in> set as. currency a = cur) \<and>
     (\<forall>e \<in> set es. qAmountMinor e \<noteq> MinInt64 \<and> scaleOf cur \<noteq> None)"
  by (induction cur i es arbitrary: as rule: entryAmounts.induct)
    (auto simp: money_New_Inr_iff split: sum.splits)

lemma entryAmounts_Inl: "entryAmounts cur i es = Inl err \<Longrightarrow> \<exists>k m. err = ErrEntryAmount k m"
  by (induction cur i es rule: entryAmounts.induct) (auto split: sum.splits)

lemma entryAmounts_total:
  "scaleOf cur \<noteq> None \<Longrightarrow> \<forall>e \<in> set es. qAmountMinor e \<noteq> MinInt64 \<Longrightarrow> \<exists>as. entryAmounts cur i es = Inr as"
  by (induction cur i es rule: entryAmounts.induct) (auto simp: money_New_def)

lemma prefixes_fit_sum: "prefixes_fit a xs \<Longrightarrow> in64 a \<Longrightarrow> in64 (a + sum_list xs)"
  by (induction a xs rule: prefixes_fit.induct) (auto simp: add.assoc [symmetric])

lemma sum_amounts:
  assumes "request_int64 r" "entryAmounts (qCurrency r) 0 (qEntries r) = Inr as" "qEntries r \<noteq> []"
  shows "(case money_Sum as of
      Inr s \<Rightarrow> prefixes_fit (qAmountMinor (hd (qEntries r))) (map qAmountMinor (tl (qEntries r))) \<and> minor s = legSum r
    | Inl e \<Rightarrow> \<not> prefixes_fit (qAmountMinor (hd (qEntries r))) (map qAmountMinor (tl (qEntries r))))"
proof -
  note A = entryAmounts_Inr [OF assms(2)]
  obtain e es where es: "qEntries r = e # es" using assms(3) by (cases "qEntries r") auto
  then obtain a as' where as: "as = a # as'" using A by (cases as) auto
  have m: "minor a = qAmountMinor e" "map minor as' = map qAmountMinor es" using A es as by simp_all
  have "minor ` set as' = qAmountMinor ` set es" using m(2) by (metis list.set_map)
  then have "\<forall>x \<in> set as'. minor x \<in> qAmountMinor ` set es" by blast
  then have "\<forall>x \<in> set as'. in64 (minor x)"
    using assms(1) es by (auto simp: request_int64_def)
  then have h: "in64 (minor a)" "\<forall>x \<in> set as'. in64 (minor x) \<and> currency x = currency a"
    using A as m assms(1) es by (auto simp: request_int64_def)
  show ?thesis
  proof (cases "Sum_loop a as'")
    case (Inl err)
    then have "\<not> prefixes_fit (minor a) (map minor as')" using Sum_loop_char [OF h] by (metis Inl_Inr_False)
    with Inl as es m show ?thesis by simp
  next
    case (Inr s)
    with Sum_loop_char [OF h, of s] as es m show ?thesis by (simp add: legSum_def)
  qed
qed

lemma Validate_acceptable:
  assumes "request_int64 r"
  shows "Validate r = None \<longleftrightarrow> acceptable r"
proof (cases "qKey r \<noteq> [] \<and> validKinds (qKind r) \<and> 2 \<le> length (qEntries r)")
  case False
  then show ?thesis by (auto simp: Validate_def acceptable_def)
next
  case True
  show ?thesis
  proof (cases "entryAmounts (qCurrency r) 0 (qEntries r)")
    case (Inl err)
    then have "\<not> (scaleOf (qCurrency r) \<noteq> None \<and> (\<forall>e \<in> set (qEntries r). qAmountMinor e \<noteq> MinInt64))"
      using entryAmounts_total [of "qCurrency r" "qEntries r" 0] by (metis Inl_Inr_False)
    with Inl True show ?thesis
      using scaleOf_Known [of "qCurrency r"] by (auto simp: Validate_def acceptable_def)
  next
    case (Inr as)
    have ne: "qEntries r \<noteq> []" using True by auto
    have "scaleOf (qCurrency r) \<noteq> None" "\<forall>e \<in> set (qEntries r). qAmountMinor e \<noteq> MinInt64"
      using entryAmounts_Inr [OF Inr] hd_in_set [OF ne] by auto
    then show ?thesis
      using True Inr sum_amounts [OF assms Inr ne] scaleOf_Known [of "qCurrency r"]
      by (auto simp: Validate_def acceptable_def IsZero_def split: sum.splits)
  qed
qed

section \<open>The effect of a posting\<close>

lemma char3_Known [simp]: "c \<in> set Known \<Longrightarrow> char3 c = Some c"
  by (auto simp: Known_def registry_def char3_def)

text \<open>The rows the legs are stored as, from entry id \<open>n\<close> on.\<close>

fun storedLegs :: "Request \<Rightarrow> uuid \<Rightarrow> int \<Rightarrow> EntryRequest list \<Rightarrow> Entry list" where
  "storedLegs r pid n [] = []"
| "storedLegs r pid n (e # es) =
     \<lparr>eId = n, ePosting = pid, eAccount = qAccount e,
      eAmount = \<lparr>minor = qAmountMinor e, currency = qCurrency r, scale = the (scaleOf (qCurrency r))\<rparr>,
      eBusinessDate = fromDate (toDate (qBusinessDate r)), eValueDate = fromDate (toDate (qValueDate r)),
      eReverses = None\<rparr> # storedLegs r pid (n + 1) es"

lemma storedLegs_facts:
  "length (storedLegs r pid n es) = length es"
  "\<forall>e \<in> set (storedLegs r pid n es). ePosting e = pid \<and> currency (eAmount e) = qCurrency r \<and>
     eBusinessDate e = fromDate (toDate (qBusinessDate r))"
  "entrySum (storedLegs r pid n es) = (\<Sum>e\<leftarrow>es. qAmountMinor e)"
  by (induction r pid n es rule: storedLegs.induct) (auto simp: entrySum_def)

definition idsFrom :: "int \<Rightarrow> nat \<Rightarrow> int list" where
  "idsFrom n k = map (\<lambda>i. n + int i) [0..<k]"

lemma idsFrom_Suc: "idsFrom n (Suc k) = n # idsFrom (n + 1) k"
proof -
  have "[0..<Suc k] = 0 # map Suc [0..<k]" by (simp add: map_Suc_upt upt_conv_Cons)
  then show ?thesis by (simp add: idsFrom_def comp_def add.assoc)
qed

lemma storedLegs_ids: "map eId (storedLegs r pid n es) = idsFrom n (length es)"
  by (induction r pid n es rule: storedLegs.induct) (simp_all add: idsFrom_Suc, simp add: idsFrom_def)

definition storedPosting :: "Request \<Rightarrow> uuid \<Rightarrow> Posting" where
  "storedPosting r pid = (envelope r pid)\<lparr>pBusinessDate := fromDate (toDate (qBusinessDate r)),
     pValueDate := fromDate (toDate (qValueDate r))\<rparr>"

definition postedResult :: "ext \<Rightarrow> db \<Rightarrow> Request \<Rightarrow> Result" where
  "postedResult x d r = \<lparr>resPosting = PostingIDFor x (qPrincipal r) (qKey r),
     resBusinessDate = qBusinessDate r, resEntryIDs = idsFrom (seq_entry d) (length (qEntries r)),
     Replayed = False\<rparr>"

text \<open>The state after a posting took effect: one row or a run of rows in each of four tables.\<close>

definition posted :: "ext \<Rightarrow> db \<Rightarrow> Request \<Rightarrow> string \<Rightarrow> db" where
  "posted x d r payload =
     (let pid = PostingIDFor x (qPrincipal r) (qKey r);
          ids = idsFrom (seq_entry d) (length (qEntries r))
      in d\<lparr>postings := postings d @ [storedPosting r pid],
           entries := entries d @ storedLegs r pid (seq_entry d) (qEntries r),
           idempotency := idempotency d @ [\<lparr>iPrincipal = qPrincipal r, iKey = qKey r,
             iBodyHash = BodyHash x r, iPosting = Some pid, iResponse = JResult pid ids\<rparr>],
           outbox := outbox d @ [\<lparr>oId = seq_outbox d, oPosting = pid,
             oPartitionKey = uuid_String (qAccount (hd (qEntries r))), oPayload = payload, oSent = False\<rparr>],
           seq_entry := seq_entry d + int (length (qEntries r)), seq_outbox := seq_outbox d + 1\<rparr>)"

lemma buildEntries_Inr:
  "buildEntries r pid es = Inr out \<Longrightarrow>
     (\<forall>e \<in> set es. qAmountMinor e \<noteq> MinInt64 \<and> scaleOf (qCurrency r) \<noteq> None) \<and>
     out = map (\<lambda>e. \<lparr>eId = 0, ePosting = pid, eAccount = qAccount e,
       eAmount = \<lparr>minor = qAmountMinor e, currency = qCurrency r, scale = the (scaleOf (qCurrency r))\<rparr>,
       eBusinessDate = qBusinessDate r, eValueDate = qValueDate r, eReverses = None\<rparr>) es"
  by (induction r pid es arbitrary: out rule: buildEntries.induct)
    (auto simp: money_New_Inr_iff split: sum.splits)

lemma InsertEntries_legs:
  assumes "buildEntries r pid es = Inr out" "InsertEntries d out ids = (Inr ids', d')"
  shows "ids' = ids @ idsFrom (seq_entry d) (length es) \<and>
    d' = d\<lparr>entries := entries d @ storedLegs r pid (seq_entry d) es, seq_entry := seq_entry d + int (length es)\<rparr> \<and>
    (\<forall>e \<in> set es. has_account d (qAccount e))"
  using assms
proof (induction es arbitrary: d out ids)
  case Nil
  then show ?case by (simp add: idsFrom_def)
next
  case (Cons e es)
  from Cons.prems(1) obtain rest where rest: "buildEntries r pid es = Inr rest"
    by (auto split: sum.splits)
  let ?a = "\<lparr>minor = qAmountMinor e, currency = qCurrency r, scale = the (scaleOf (qCurrency r))\<rparr>"
  let ?row = "\<lparr>eId = 0, ePosting = pid, eAccount = qAccount e, eAmount = ?a,
    eBusinessDate = qBusinessDate r, eValueDate = qValueDate r, eReverses = None\<rparr>"
  have out: "out = ?row # rest"
    using buildEntries_Inr [OF Cons.prems(1)] buildEntries_Inr [OF rest] by simp
  have known: "char3 (qCurrency r) = Some (qCurrency r)"
    using buildEntries_Inr [OF Cons.prems(1)] scaleOf_Known [of "qCurrency r"] by simp
  obtain r1 d1 where 1: "InsertEntry d ?row = (r1, d1)" by force
  show ?case
  proof (cases rule: InsertEntry_cases [OF 1])
    case (1 err)
    with Cons.prems(2) out \<open>InsertEntry d ?row = (r1, d1)\<close> show ?thesis by simp
  next
    case (2 cur)
    with Cons.prems(2) out \<open>InsertEntry d ?row = (r1, d1)\<close>
    have "InsertEntries d1 rest (ids @ [seq_entry d]) = (Inr ids', d')" by simp
    from Cons.IH [OF rest this] 2 known show ?thesis
      by (auto simp: idsFrom_Suc stored_entry_def has_account_def)
  qed
qed

text \<open>One lemma per statement of the transaction.\<close>

lemma inject_Inr: "inject w st d m = (Inr a, s) \<longleftrightarrow> conn w st = None \<and> m = (Inr a, s)"
  by (auto simp: inject_def split: option.splits)

lemma Claim_Inr:
  "ClaimIdempotencyKey d p k h = (Inr u, d1) \<Longrightarrow> \<not> (\<exists>r \<in> set (idempotency d). idem_match p k r) \<and>
     d1 = d\<lparr>idempotency := idempotency d @
       [\<lparr>iPrincipal = p, iKey = k, iBodyHash = h, iPosting = None, iResponse = JEmpty\<rparr>]\<rparr>"
  by (auto simp: ClaimIdempotencyKey_def split: if_splits)

lemma InsertPosting_Inr:
  assumes "InsertPosting d (envelope r pid) = (Inr u, d1)" "qCurrency r \<in> set Known"
  shows "\<not> has_posting d pid \<and> d1 = d\<lparr>postings := postings d @ [storedPosting r pid]\<rparr>"
  using assms by (auto simp: InsertPosting_def storedPosting_def envelope_def split: if_splits)

lemma InsertOutbox_Inr:
  "InsertOutbox d pid k pl = (Inr u, d1) \<Longrightarrow>
     d1 = d\<lparr>outbox := outbox d @ [\<lparr>oId = seq_outbox d, oPosting = pid, oPartitionKey = k, oPayload = pl,
       oSent = False\<rparr>], seq_outbox := seq_outbox d + 1\<rparr>"
  by (auto simp: InsertOutbox_def Let_def split: if_splits)

lemma Complete_Inr:
  assumes "CompleteIdempotency d p k pid resp = (Inr u, d1)"
    and "idempotency d = rows @ [\<lparr>iPrincipal = p, iKey = k, iBodyHash = h, iPosting = None, iResponse = JEmpty\<rparr>]"
    and "\<not> (\<exists>r \<in> set rows. idem_match p k r)"
  shows "d1 = d\<lparr>idempotency := rows @
    [\<lparr>iPrincipal = p, iKey = k, iBodyHash = h, iPosting = Some pid, iResponse = resp\<rparr>]\<rparr>"
proof -
  have "map (\<lambda>r. if idem_match p k r then r\<lparr>iPosting := Some pid, iResponse := resp\<rparr> else r) rows = rows"
    using assms(3) by (intro map_idI) auto
  with assms(1,2) show ?thesis by (auto simp: CompleteIdempotency_def idem_match_def split: if_splits)
qed

lemma tx_Commit_snd: "snd (tx_Commit d cur) = cur \<or> snd (tx_Commit d cur) = tx_Rollback d cur"
  by (simp add: tx_Commit_def split: option.split)

lemma commit_in_cases:
  assumes "commit_in w d cur = (res, d')"
  obtains (committed) "res = Inr ()" "d' = cur"
  | (lost) e where "res = Inl e" "d' = cur" "ackLost w" "conn w StCommit \<noteq> None"
  | (rolledback) e where "res = Inl e" "d' = tx_Rollback d cur"
  using assms tx_Commit_snd [of d cur]
  by (auto simp: commit_in_def tx_Commit_def split: option.splits if_splits)

definition unchanged :: "db \<Rightarrow> db \<Rightarrow> bool" where
  "unchanged d d' \<longleftrightarrow> d' = tx_Rollback d d'"

lemma unchanged_Rollback [simp]: "unchanged d (tx_Rollback d cur)"
  by (simp add: unchanged_def tx_Rollback_def)

lemma unchanged_refl [simp]: "unchanged d d"
  by (simp add: unchanged_def tx_Rollback_def)

lemma Claim_Inl:
  "inject w StClaim d (ClaimIdempotencyKey d p k h) = (Inl e, d1) \<Longrightarrow> d1 = d \<and>
     (IsUniqueViolation e ConstraintIdempotency \<longleftrightarrow>
        conn w StClaim = None \<and> (\<exists>r \<in> set (idempotency d). idem_match p k r))"
  by (auto simp: inject_def ClaimIdempotencyKey_def IsUniqueViolation_def split: option.splits if_splits)

lemma tx_Rollback_same [simp]: "tx_Rollback d d = d"
  by (simp add: tx_Rollback_def)

text \<open>The second half of the transaction, from the outbox row to the commit.\<close>

definition Post_tail :: "ext \<Rightarrow> world \<Rightarrow> db \<Rightarrow> Request \<Rightarrow> int list \<Rightarrow> db \<Rightarrow> (post_error + Result) \<times> db" where
  "Post_tail x w d r ids d3 =
    (let pid = PostingIDFor x (qPrincipal r) (qKey r); fail = (\<lambda>err cur. (Inl err, tx_Rollback d cur)) in
    case marshalPostingEvent x pid r ids of None \<Rightarrow> fail ErrMarshalEvent d3 | Some payload \<Rightarrow>
    attempt (inject w StOutbox d3 (InsertOutbox d3 pid (uuid_String (qAccount (hd (qEntries r)))) payload))
      (\<lambda>err. fail (ErrPostStore err)) (\<lambda>_ d4.
    attempt (inject w StComplete d4
        (CompleteIdempotency d4 (qPrincipal r) (qKey r) pid (JResult pid ids)))
      (\<lambda>err. fail (ErrPostStore err)) (\<lambda>_ d5.
    attempt (commit_in w d d5)
      (\<lambda>err d6. (Inl (if IsInvariantViolation err then ErrNotBalancedAtCommit err else ErrPostStore err), d6))
      (\<lambda>_ d6. (Inr \<lparr>resPosting = pid, resBusinessDate = qBusinessDate r, resEntryIDs = ids,
                      Replayed = False\<rparr>, d6)))))"

lemma Post_tail_cases:
  assumes "Post_tail x w d r ids d3 = (res, d')"
    and rows: "idempotency d3 = rows @ [\<lparr>iPrincipal = qPrincipal r, iKey = qKey r, iBodyHash = h,
      iPosting = None, iResponse = JEmpty\<rparr>]" "\<not> (\<exists>i \<in> set rows. idem_match (qPrincipal r) (qKey r) i)"
  obtains (error) e where "res = Inl e" "unchanged d d'"
  | (applied) payload where "d' = d3\<lparr>
        outbox := outbox d3 @ [\<lparr>oId = seq_outbox d3, oPosting = PostingIDFor x (qPrincipal r) (qKey r),
          oPartitionKey = uuid_String (qAccount (hd (qEntries r))), oPayload = payload, oSent = False\<rparr>],
        seq_outbox := seq_outbox d3 + 1,
        idempotency := rows @ [\<lparr>iPrincipal = qPrincipal r, iKey = qKey r, iBodyHash = h,
          iPosting = Some (PostingIDFor x (qPrincipal r) (qKey r)),
          iResponse = JResult (PostingIDFor x (qPrincipal r) (qKey r)) ids\<rparr>]\<rparr>"
      "res = Inr \<lparr>resPosting = PostingIDFor x (qPrincipal r) (qKey r), resBusinessDate = qBusinessDate r,
         resEntryIDs = ids, Replayed = False\<rparr> \<or> (\<exists>e. res = Inl e \<and> ackLost w \<and> conn w StCommit \<noteq> None)"
proof (cases "marshalPostingEvent x (PostingIDFor x (qPrincipal r) (qKey r)) r ids")
  case None
  with assms(1) show ?thesis by (intro error) (auto simp: Post_tail_def)
next
  case (Some payload)
  let ?pid = "PostingIDFor x (qPrincipal r) (qKey r)"
  note P = assms(1) [unfolded Post_tail_def Let_def Some option.case]
  obtain r4 d4 where 4: "inject w StOutbox d3
      (InsertOutbox d3 ?pid (uuid_String (qAccount (hd (qEntries r)))) payload) = (r4, d4)" by force
  obtain r5 d5 where 5: "inject w StComplete d4
      (CompleteIdempotency d4 (qPrincipal r) (qKey r) ?pid (JResult ?pid ids)) = (r5, d5)" by force
  show ?thesis
  proof (cases "(\<exists>e. r4 = Inl e) \<or> (\<exists>e. r5 = Inl e)")
    case True
    then show ?thesis using P 4 5 by (cases r4; cases r5) (auto intro: error)
  next
    case False
    then obtain u4 u5 where ok: "r4 = Inr u4" "r5 = Inr u5" by (cases r4; cases r5) auto
    note o = InsertOutbox_Inr [OF 4 [unfolded ok inject_Inr, THEN conjunct2]]
    have "idempotency d4 = rows @ [\<lparr>iPrincipal = qPrincipal r, iKey = qKey r, iBodyHash = h,
      iPosting = None, iResponse = JEmpty\<rparr>]" using o rows(1) by simp
    note c = Complete_Inr [OF 5 [unfolded ok inject_Inr, THEN conjunct2] this rows(2)]
    obtain r6 d6 where 6: "commit_in w d d5 = (r6, d6)" by force
    note P6 = P [unfolded 4 ok attempt_simps 5 6]
    from 6 show ?thesis
    proof (cases rule: commit_in_cases)
      case committed
      with P6 o c show ?thesis by (intro applied [of payload]) auto
    next
      case (lost e)
      with P6 o c show ?thesis by (intro applied [of payload]) auto
    next
      case (rolledback e)
      with P6 show ?thesis by (intro error) auto
    qed
  qed
qed

lemma Post_cases:
  assumes "Post x w d r = (res, d')"
  obtains (error) e where "res = Inl e" "unchanged d d'"
  | (replayed) "res = replay w d r (BodyHash x r)" "d' = d" "\<exists>i \<in> set (idempotency d). idem_match (qPrincipal r) (qKey r) i"
  | (applied) payload where "d' = posted x d r payload"
      "res = Inr (postedResult x d r) \<or> (\<exists>e. res = Inl e \<and> ackLost w \<and> conn w StCommit \<noteq> None)"
      "Validate r = None" "\<not> has_posting d (PostingIDFor x (qPrincipal r) (qKey r))"
      "\<not> (\<exists>i \<in> set (idempotency d). idem_match (qPrincipal r) (qKey r) i)"
      "\<forall>e \<in> set (qEntries r). has_account d (qAccount e)"
proof (cases "Validate r")
  case (Some e)
  with assms show ?thesis by (intro error) (auto simp: Post_def)
next
  case V: None
  show ?thesis
  proof (cases "conn w StBegin")
    case (Some m)
    with V assms show ?thesis by (intro error) (auto simp: Post_def Let_def)
  next
    case B: None
    let ?pid = "PostingIDFor x (qPrincipal r) (qKey r)"
    note P = assms [unfolded Post_def Let_def V B option.case]
    from V have known: "qCurrency r \<in> set Known" and ne: "qEntries r \<noteq> []"
      using entryAmounts_Inr [of "qCurrency r" 0 "qEntries r"] scaleOf_Known [of "qCurrency r"]
      by (auto simp: Validate_def ex_in_conv [symmetric] split: if_splits sum.splits dest!: entryAmounts_Inr)
    obtain r1 d1 where 1: "inject w StClaim d (ClaimIdempotencyKey d (qPrincipal r) (qKey r) (BodyHash x r)) = (r1, d1)"
      by force
    show ?thesis
    proof (cases r1)
      case (Inl e)
      note E = P [unfolded 1 Inl attempt_simps] and C = Claim_Inl [OF 1 [unfolded Inl]]
      from E C show ?thesis
        by (cases "IsUniqueViolation e ConstraintIdempotency") (auto intro: replayed error)
    next
      case c: (Inr u)
      note claim = Claim_Inr [OF 1 [unfolded c inject_Inr, THEN conjunct2]]
      note P1 = P [unfolded 1 c attempt_simps]
      obtain r2 d2 where 2: "inject w StPosting d1 (InsertPosting d1 (envelope r ?pid)) = (r2, d2)" by force
      obtain r3 where 3: "buildEntries r ?pid (qEntries r) = r3" by simp
      obtain es where es: "r3 = Inl e \<Longrightarrow> es = []" "r3 = Inr es' \<Longrightarrow> es = es'" for e es' by (cases r3) auto
      obtain r4 d3 where 4: "inject w StEntries d2 (InsertEntries d2 es []) = (r4, d3)" by force
      show ?thesis
      proof (cases "(\<exists>e. r2 = Inl e) \<or> (\<exists>e. r3 = Inl e) \<or> (\<exists>e. r4 = Inl e)")
        case True
        then show ?thesis using P1 2 3 4 es
          by (cases r2; cases r3; cases r4) (auto intro: error)
      next
        case False
        then obtain u2 ids where ok: "r2 = Inr u2" "r3 = Inr es" "r4 = Inr ids"
          using es by (cases r2; cases r3; cases r4) auto
        note post = InsertPosting_Inr [OF 2 [unfolded ok inject_Inr, THEN conjunct2] known]
        note legs = InsertEntries_legs [OF 3 [unfolded ok] 4 [unfolded ok inject_Inr, THEN conjunct2]]
        have tl: "Post_tail x w d r ids d3 = (res, d')"
          using P1 2 3 4 ok unfolding Post_tail_def by simp
        have idm: "idempotency d3 = idempotency d @ [\<lparr>iPrincipal = qPrincipal r, iKey = qKey r,
            iBodyHash = BodyHash x r, iPosting = None, iResponse = JEmpty\<rparr>]"
          using claim post legs by simp
        from claim have fresh: "\<not> (\<exists>i \<in> set (idempotency d). idem_match (qPrincipal r) (qKey r) i)" ..
        show ?thesis
        proof (cases rule: Post_tail_cases [OF tl idm fresh])
          case (1 e)
          then show ?thesis by (rule error)
        next
          case app: (2 payload)
          have "d' = posted x d r payload"
            using app(1) claim post legs by (simp add: posted_def Let_def)
          moreover have "has_account d2 = has_account d" "has_posting d1 = has_posting d"
            using claim post by simp_all
          ultimately show ?thesis
            using app(2) claim post legs V
            by (intro applied [of payload]) (auto simp: postedResult_def)
        qed
      qed
    qed
  qed
qed

section \<open>A posting that can succeed does\<close>

lemma buildEntries_ok:
  assumes "qCurrency r \<in> set Known" "\<forall>e \<in> set es. qAmountMinor e \<noteq> MinInt64"
  shows "\<exists>out. buildEntries r pid es = Inr out"
proof -
  obtain sc where "scaleOf (qCurrency r) = Some sc" using assms(1) scaleOf_Known [of "qCurrency r"] by auto
  with assms(2) show ?thesis by (induction es) (auto simp: money_New_def)
qed

lemma InsertEntries_ok:
  assumes "buildEntries r pid es = Inr out" "has_posting d pid" "\<forall>e \<in> set es. has_account d (qAccount e)"
    and "qCurrency r \<in> set Known"
  shows "\<exists>ids' d'. InsertEntries d out ids = (Inr ids', d')"
  using assms
proof (induction es arbitrary: d out ids)
  case (Cons e es)
  from Cons.prems(1) obtain row rest where rest: "buildEntries r pid es = Inr rest" "out = row # rest"
    by (auto split: sum.splits)
  have row: "ePosting row = pid" "eAccount row = qAccount e" "currency (eAmount row) = qCurrency r" "eReverses row = None"
    using buildEntries_Inr [OF Cons.prems(1)] rest by simp_all
  have "fst (InsertEntry d row) = Inr (seq_entry d)"
    using Cons.prems(2-4) row by (simp add: InsertEntry_def Let_def)
  then obtain n d1 where 1: "InsertEntry d row = (Inr n, d1)" by (cases "InsertEntry d row") simp
  have "has_posting d1 = has_posting d" "has_account d1 = has_account d"
    by (rule refs_frame; rule InsertEntry_frame [OF 1])+
  with Cons.IH [OF rest(1), of d1 "ids @ [n]"] Cons.prems 1 rest(2) show ?case by simp
qed simp

definition healthy :: "world \<Rightarrow> bool" where
  "healthy w \<longleftrightarrow> (\<forall>st. conn w st = None)"

text \<open>What the request needs of the database and of the marshaller, besides a fresh key.\<close>

definition postable :: "ext \<Rightarrow> db \<Rightarrow> Request \<Rightarrow> bool" where
  "postable x d r \<longleftrightarrow> request_int64 r \<and> acceptable r \<and> (\<forall>e \<in> set (qEntries r). has_account d (qAccount e)) \<and>
     (\<forall>u. qReverses r = Some u \<longrightarrow> has_posting d u) \<and>
     (\<forall>ids. marshalPostingEvent x (PostingIDFor x (qPrincipal r) (qKey r)) r ids \<noteq> None)"

lemma posting_rows_append: "posting_rows (a @ b) i = posting_rows a i @ posting_rows b i"
  by (simp add: posting_rows_def)

lemma entrySum_append: "entrySum (a @ b) = entrySum a + entrySum b"
  by (simp add: entrySum_def)

lemma posting_rows_legs: "posting_rows (storedLegs r pid n es) pid = storedLegs r pid n es"
  using storedLegs_facts(2) [of r pid n es] by (simp add: posting_rows_def filter_id_conv)

lemma posting_rows_fresh: "db_wf d \<Longrightarrow> \<not> has_posting d pid \<Longrightarrow> posting_rows (entries d) pid = []"
  by (auto simp: wf_simps posting_rows_def filter_empty_conv)

lemma posted_commits:
  assumes "db_wf d" "\<not> has_posting d pid" "2 \<le> length es" "(\<Sum>e\<leftarrow>es. qAmountMinor e) = 0"
    and "entries cur = entries d @ storedLegs r pid n es"
  shows "tx_Commit d cur = (Inr (), cur)"
proof -
  have "assert_posting_zero_sum cur e = None" if "e \<in> set (storedLegs r pid n es)" for e
    using that assms storedLegs_facts [of r pid n es] posting_rows_fresh [OF assms(1,2)]
    by (simp add: assert_None posting_rows_append posting_rows_legs)
  then have "firstError (assert_posting_zero_sum cur) (storedLegs r pid n es) = None"
    by (simp add: firstError_None)
  with assms(5) show ?thesis by (simp add: tx_Commit_def)
qed

lemma Post_succeeds:
  assumes "healthy w" "db_wf d" "postable x d r"
    and fresh: "\<not> has_posting d (PostingIDFor x (qPrincipal r) (qKey r))"
      "\<not> (\<exists>i \<in> set (idempotency d). idem_match (qPrincipal r) (qKey r) i)"
  shows "\<exists>payload. Post x w d r = (Inr (postedResult x d r), posted x d r payload)"
proof -
  let ?pid = "PostingIDFor x (qPrincipal r) (qKey r)"
  have acc: "acceptable r" and V: "Validate r = None"
    using assms(3) Validate_acceptable [of r] by (simp_all add: postable_def)
  then have known: "qCurrency r \<in> set Known" and kind: "qKind r \<in> set kinds"
    by (auto simp: acceptable_def validKinds_def kinds_def)
  have B: "conn w st = None" for st using assms(1) by (simp add: healthy_def)
  let ?row = "\<lparr>iPrincipal = qPrincipal r, iKey = qKey r, iBodyHash = BodyHash x r, iPosting = None, iResponse = JEmpty\<rparr>"
  define d1 where "d1 = d\<lparr>idempotency := idempotency d @ [?row]\<rparr>"
  define d2 where "d2 = d1\<lparr>postings := postings d1 @ [storedPosting r ?pid]\<rparr>"
  have 1: "ClaimIdempotencyKey d (qPrincipal r) (qKey r) (BodyHash x r) = (Inr (), d1)"
    using fresh(2) by (simp add: ClaimIdempotencyKey_def d1_def)
  have ps: "has_posting d1 = has_posting d" "has_account d2 = has_account d" "has_posting d2 ?pid"
    by (simp_all add: d1_def d2_def has_posting_def has_account_def fun_eq_iff storedPosting_def envelope_def)
  have 2: "InsertPosting d1 (envelope r ?pid) = (Inr (), d2)"
    using fresh(1) known kind assms(3) ps(1)
    by (auto simp: InsertPosting_def d2_def storedPosting_def envelope_def postable_def)
  obtain es where 3: "buildEntries r ?pid (qEntries r) = Inr es"
    using buildEntries_ok [OF known] acc by (fastforce simp: acceptable_def)
  obtain ids d3 where 4: "InsertEntries d2 es [] = (Inr ids, d3)"
    using InsertEntries_ok [OF 3 ps(3)] ps(2) assms(3) known by (fastforce simp: postable_def)
  note legs = InsertEntries_legs [OF 3 4]
  obtain payload where 5: "marshalPostingEvent x ?pid r ids = Some payload"
    using assms(3) unfolding postable_def by blast
  have hp: "has_posting d3 = has_posting d2" using legs by (simp add: has_posting_def fun_eq_iff)
  obtain d4 where 6: "InsertOutbox d3 ?pid (uuid_String (qAccount (hd (qEntries r)))) payload = (Inr (), d4)"
    using ps(3) hp by (simp add: InsertOutbox_def Let_def)
  note o = InsertOutbox_Inr [OF 6]
  obtain d5 where 7: "CompleteIdempotency d4 (qPrincipal r) (qKey r) ?pid (JResult ?pid ids) = (Inr (), d5)"
    using ps(3) hp o by (simp add: CompleteIdempotency_def)
  have "idempotency d4 = idempotency d @ [?row]" using o legs by (simp add: d1_def d2_def)
  note c = Complete_Inr [OF 7 this fresh(2)]
  have eq: "d5 = posted x d r payload"
    using o c legs by (simp add: posted_def d1_def d2_def Let_def)
  have "tx_Commit d d5 = (Inr (), d5)"
    using posted_commits [OF assms(2) fresh(1), of "qEntries r" d5 r "seq_entry d"] acc eq
    by (simp add: acceptable_def legSum_def posted_def Let_def)
  with 1 2 3 4 5 6 7 have "Post x w d r =
      (Inr \<lparr>resPosting = ?pid, resBusinessDate = qBusinessDate r, resEntryIDs = ids, Replayed = False\<rparr>, d5)"
    by (simp add: Post_def V B inject_def commit_in_def Let_def)
  with eq legs show ?thesis by (auto simp: postedResult_def d1_def d2_def)
qed

section \<open>Properties\<close>

lemma Validate_mismatch:
  assumes "request_int64 r" "Validate r = Some (ErrPostCurrencyMismatch e)"
  shows "\<exists>a b. e = ErrOverflow a b \<and> \<not> in64 (a + b)"
proof -
  from assms(2) obtain as where as: "entryAmounts (qCurrency r) 0 (qEntries r) = Inr as" "money_Sum as = Inl e"
    and len: "2 \<le> length (qEntries r)"
    by (auto simp: Validate_def split: if_splits sum.splits dest: entryAmounts_Inl)
  note A = entryAmounts_Inr [OF as(1)]
  then have "length as = length (qEntries r)" by (metis length_map)
  then obtain a as' where c: "as = a # as'" using len by (cases as) auto
  have "minor ` set as = qAmountMinor ` set (qEntries r)" using A by (metis list.set_map)
  then have "\<forall>x \<in> set as. minor x \<in> qAmountMinor ` set (qEntries r)" by blast
  then have in64: "\<forall>x \<in> set as. in64 (minor x)" using assms(1) by (auto simp: request_int64_def)
  show ?thesis
    using Sum_loop_overflow [of a as' e] in64 A as(2) c by auto
qed

text \<open>
  C33. \<^verbatim>\<open>Validate\<close> accepts exactly the requests with a key, a known kind, a registered currency, at
  least two representable legs whose running sum never overflows and that sum to zero.
  Its \<^verbatim>\<open>ErrCurrencyMismatch\<close> never reports a currency: the legs all carry the posting's
  currency, and the only cause is an overflow of the running sum.
\<close>

theorem Validate_exact:
  assumes "request_int64 r"
  shows "(Validate r = None \<longleftrightarrow> acceptable r) \<and>
    (\<forall>e. Validate r = Some (ErrPostCurrencyMismatch e) \<longrightarrow> (\<exists>a b. e = ErrOverflow a b \<and> \<not> in64 (a + b)))"
  using Validate_acceptable [OF assms] Validate_mismatch [OF assms] by blast

theorem Validate_exact_witness:
  "\<exists>r. request_int64 r \<and> legSum r = 0 \<and> \<not> acceptable r \<and>
     Validate r = Some (ErrPostCurrencyMismatch (ErrOverflow MaxInt64 1))"
proof -
  let ?r = "\<lparr>qPrincipal = ''p'', qKey = ''k'', qKind = ''transfer'', qCurrency = ''USD'',
     qBusinessDate = BusinessDate 2028 1 3, qValueDate = BusinessDate 2028 1 3, qPostedAt = 0, qReverses = None,
     qEntries = [\<lparr>qAccount = 1, qAmountMinor = MaxInt64\<rparr>, \<lparr>qAccount = 2, qAmountMinor = 1\<rparr>,
       \<lparr>qAccount = 1, qAmountMinor = - MaxInt64\<rparr>, \<lparr>qAccount = 2, qAmountMinor = - 1\<rparr>]\<rparr>"
  have r: "request_int64 ?r" "legSum ?r = 0" by (simp_all add: request_int64_def legSum_def in64_iff MaxInt64_def)
  have v: "Validate ?r = Some (ErrPostCurrencyMismatch (ErrOverflow MaxInt64 1))"
    by (simp add: Validate_def validKinds_def money_New_def MinInt64_def MaxInt64_def Amount_Add_char in64_iff)
  with r Validate_exact [OF r(1)] show ?thesis by (intro exI [of _ ?r]) auto
qed

end
