(* ===== verification/Ledger.thy ===== *)
theory Ledger
  imports Posting
begin

text \<open>
  The ledger over time: the database states reached from the empty one by calls of \<^verbatim>\<open>Post\<close>, under
  every failure of the connection, interleaved with the transactions the other components
  run (accounts, outbox marking, inbox, holds, checkpoints, end-of-day rows). The theory
  proves what holds in all of them: the invariants of the schema, zero sums per posting
  and per currency, completeness of the idempotency rows, and from these atomicity and the
  exactly-one effect of a request that is retried.
\<close>

section \<open>Steps\<close>

definition side :: "stmt \<Rightarrow> bool" where
  "side s = (case s of
      SClaimIdempotencyKey _ _ _ \<Rightarrow> False | SCompleteIdempotency _ _ _ _ \<Rightarrow> False
    | SInsertPosting _ \<Rightarrow> False | SInsertEntries _ \<Rightarrow> False | SInsertOutbox _ _ _ \<Rightarrow> False
    | _ \<Rightarrow> True)"

inductive ledger_step :: "ext \<Rightarrow> db \<Rightarrow> db \<Rightarrow> bool" for x where
  post: "request_int64 r \<Longrightarrow> Post x w d r = (res, d') \<Longrightarrow> ledger_step x d d'"
| other: "list_all side ss \<Longrightarrow> run_tx ss d = (res, d') \<Longrightarrow> ledger_step x d d'"

inductive_cases ledger_stepE: "ledger_step x d d'"

abbreviation ledger_steps :: "ext \<Rightarrow> db \<Rightarrow> db \<Rightarrow> bool" where
  "ledger_steps x \<equiv> (ledger_step x)\<^sup>*\<^sup>*"

section \<open>The invariant\<close>

definition idem_complete :: "ext \<Rightarrow> db \<Rightarrow> bool" where
  "idem_complete x d \<longleftrightarrow> (\<forall>i \<in> set (idempotency d). \<exists>ids.
     iResponse i = JResult (PostingIDFor x (iPrincipal i) (iKey i)) ids \<and>
     iPosting i = Some (PostingIDFor x (iPrincipal i) (iKey i)) \<and>
     ids = map eId (posting_rows (entries d) (PostingIDFor x (iPrincipal i) (iKey i))))"

definition ledger_ok :: "ext \<Rightarrow> db \<Rightarrow> bool" where
  "ledger_ok x d \<longleftrightarrow> db_wf d \<and> zero_sum d \<and> (\<forall>cur. currencySum (entries d) cur = 0) \<and> idem_complete x d"

lemma ledger_ok_empty: "ledger_ok x emptyDB"
  using db_wf_empty by (simp add: ledger_ok_def zero_sum_def idem_complete_def currencySum_def)
    (simp add: emptyDB_def)

lemma idsFrom_bounds: "i \<in> set (idsFrom n k) \<Longrightarrow> n \<le> i \<and> i < n + int k"
  by (auto simp: idsFrom_def)

lemma sorted_idsFrom: "sorted_wrt (<) (idsFrom n k)"
  by (simp add: idsFrom_def sorted_wrt_map)

lemma storedLegs_bounds:
  "e \<in> set (storedLegs r pid n es) \<Longrightarrow> n \<le> eId e \<and> eId e < n + int (length es)"
  using storedLegs_ids [of r pid n es] idsFrom_bounds [of "eId e" n "length es"]
  by (metis imageI list.set_map)

lemma storedLegs_accounts: "e \<in> set (storedLegs r pid n es) \<Longrightarrow> \<exists>q \<in> set es. eAccount e = qAccount q"
  by (induction r pid n es rule: storedLegs.induct) auto

lemma posted_has:
  "has_posting (posted x d r pl) i \<longleftrightarrow> has_posting d i \<or> i = PostingIDFor x (qPrincipal r) (qKey r)"
  "has_account (posted x d r pl) = has_account d"
  by (auto simp: posted_def Let_def has_posting_def has_account_def storedPosting_def envelope_def fun_eq_iff)

lemma posted_fields [simp]:
  "accounts (posted x d r pl) = accounts d" "checkpoints (posted x d r pl) = checkpoints d"
  "holds (posted x d r pl) = holds d" "inbox (posted x d r pl) = inbox d"
  "eod_runs (posted x d r pl) = eod_runs d"
  "entries (posted x d r pl) =
     entries d @ storedLegs r (PostingIDFor x (qPrincipal r) (qKey r)) (seq_entry d) (qEntries r)"
  "seq_entry (posted x d r pl) = seq_entry d + int (length (qEntries r))"
  "seq_outbox (posted x d r pl) = seq_outbox d + 1"
  by (simp_all add: posted_def Let_def)

lemma posted_wf:
  assumes "db_wf d" "\<not> has_posting d (PostingIDFor x (qPrincipal r) (qKey r))"
    and "\<not> (\<exists>i \<in> set (idempotency d). idem_match (qPrincipal r) (qKey r) i)"
    and "\<forall>e \<in> set (qEntries r). has_account d (qAccount e)"
  shows "db_wf (posted x d r pl)"
proof -
  let ?pid = "PostingIDFor x (qPrincipal r) (qKey r)"
  have "keys_ok (posted x d r pl)"
    using assms(1-3) by (auto simp: db_wf_def keys_ok_def posted_def Let_def storedPosting_def envelope_def
        has_posting_def idem_match_def)
  moreover have "seqs_ok (posted x d r pl)"
  proof -
    have "0 < seq_entry d" "0 < seq_outbox d" using assms(1) by (simp_all add: db_wf_def seqs_ok_def)
    moreover have "sorted_wrt (<) (map eId (entries (posted x d r pl)))"
      using assms(1) idsFrom_bounds [of _ "seq_entry d" "length (qEntries r)"]
      by (fastforce simp: db_wf_def seqs_ok_def sorted_wrt_append storedLegs_ids sorted_idsFrom)
    moreover have "\<forall>e \<in> set (entries (posted x d r pl)). 0 < eId e \<and> eId e < seq_entry (posted x d r pl)"
      using assms(1) storedLegs_bounds [of _ r ?pid "seq_entry d" "qEntries r"] calculation(1)
      by (fastforce simp: db_wf_def seqs_ok_def)
    moreover have "sorted_wrt (<) (map oId (outbox (posted x d r pl)))"
      "\<forall>o' \<in> set (outbox (posted x d r pl)). 0 < oId o' \<and> oId o' < seq_outbox (posted x d r pl)"
      using assms(1) by (auto simp: db_wf_def seqs_ok_def posted_def Let_def sorted_wrt_append)
    ultimately show ?thesis by (simp add: seqs_ok_def)
  qed
  moreover have "refs_ok (posted x d r pl)"
    unfolding refs_ok_def posted_has posted_fields
    using assms(1,4) storedLegs_facts(2) [of r ?pid "seq_entry d" "qEntries r"]
      storedLegs_accounts [of _ r ?pid "seq_entry d" "qEntries r"]
    by (fastforce simp: db_wf_def refs_ok_def posted_def Let_def)
  ultimately show ?thesis by (simp add: db_wf_def)
qed

lemma currencySum_append: "currencySum (a @ b) c = currencySum a c + currencySum b c"
  by (simp add: currencySum_def)

lemma currencySum_legs:
  "currencySum (storedLegs r pid n es) c = (if c = qCurrency r then (\<Sum>e\<leftarrow>es. qAmountMinor e) else 0)"
proof (cases "c = qCurrency r")
  case True
  then have "filter (\<lambda>e. currency (eAmount e) = c) (storedLegs r pid n es) = storedLegs r pid n es"
    using storedLegs_facts(2) [of r pid n es] by (simp add: filter_id_conv)
  with True show ?thesis using storedLegs_facts(3) [of r pid n es] by (simp add: currencySum_def entrySum_def)
next
  case False
  then have "filter (\<lambda>e. currency (eAmount e) = c) (storedLegs r pid n es) = []"
    using storedLegs_facts(2) [of r pid n es] by (auto simp: filter_empty_conv)
  with False show ?thesis by (simp add: currencySum_def)
qed

lemma posted_zero_sum:
  assumes "db_wf d" "zero_sum d" "acceptable r" "\<not> has_posting d (PostingIDFor x (qPrincipal r) (qKey r))"
  shows "zero_sum (posted x d r pl)"
proof (rule commit_zero_sum [OF assms(2) posted_fields(6)])
  let ?pid = "PostingIDFor x (qPrincipal r) (qKey r)"
  have two: "2 \<le> length (qEntries r)" "(\<Sum>e\<leftarrow>qEntries r. qAmountMinor e) = 0"
    using assms(3) by (auto simp: acceptable_def legSum_def)
  have "tx_Commit d (posted x d r pl) = (Inr (), posted x d r pl)"
    by (rule posted_commits [OF assms(1,4) two]) simp
  then have "firstError (assert_posting_zero_sum (posted x d r pl))
      (storedLegs r ?pid (seq_entry d) (qEntries r)) = None"
    by (auto simp: tx_Commit_def split: option.splits)
  then show "\<forall>e \<in> set (storedLegs r ?pid (seq_entry d) (qEntries r)).
      assert_posting_zero_sum (posted x d r pl) e = None"
    by (simp add: firstError_None)
qed

lemma posted_idem:
  assumes "db_wf d" "idem_complete x d" "\<not> has_posting d (PostingIDFor x (qPrincipal r) (qKey r))"
  shows "idem_complete x (posted x d r pl)"
proof -
  let ?pid = "PostingIDFor x (qPrincipal r) (qKey r)"
  have old: "PostingIDFor x (iPrincipal i) (iKey i) \<noteq> ?pid" if "i \<in> set (idempotency d)" for i
    using assms that by (auto simp: idem_complete_def db_wf_def refs_ok_def)
  have "posting_rows (storedLegs r ?pid n es) i = []" if "i \<noteq> ?pid" for n es i
    using that storedLegs_facts(2) [of r ?pid n es] by (auto simp: posting_rows_def filter_empty_conv)
  with old assms(2) show ?thesis
    using posting_rows_fresh [OF assms(1,3)]
    by (auto simp: idem_complete_def posted_def Let_def posting_rows_append posting_rows_legs storedLegs_ids)
qed

lemma posted_ledger_ok:
  assumes "ledger_ok x d" "request_int64 r" "Validate r = None"
    and "\<not> has_posting d (PostingIDFor x (qPrincipal r) (qKey r))"
    and "\<not> (\<exists>i \<in> set (idempotency d). idem_match (qPrincipal r) (qKey r) i)"
    and "\<forall>e \<in> set (qEntries r). has_account d (qAccount e)"
  shows "ledger_ok x (posted x d r pl)"
proof -
  have acc: "acceptable r" using assms(2,3) by (simp add: Validate_acceptable)
  then have "(\<Sum>e\<leftarrow>qEntries r. qAmountMinor e) = 0" by (simp add: acceptable_def legSum_def)
  then have "\<forall>c. currencySum (entries (posted x d r pl)) c = 0"
    using assms(1) by (simp add: currencySum_append currencySum_legs ledger_ok_def)
  with acc assms posted_wf posted_zero_sum posted_idem show ?thesis by (simp add: ledger_ok_def)
qed

section \<open>Every step keeps it\<close>

text \<open>Tables the posting path owns are left alone by all other transactions.\<close>

definition same_core :: "db \<Rightarrow> db \<Rightarrow> bool" where
  "same_core d d' \<longleftrightarrow> entries d' = entries d \<and> postings d' = postings d \<and> idempotency d' = idempotency d"

lemma exec_side: "side s \<Longrightarrow> same_core d (snd (exec s d))"
  by (cases s) (simp_all add: side_def same_core_def exec_defs Let_def split: option.split)

lemma run_stmts_side: "list_all side ss \<Longrightarrow> run_stmts ss d = (r, d') \<Longrightarrow> same_core d d'"
proof (induction ss arbitrary: d)
  case (Cons s ss)
  obtain r1 d1 where 1: "exec s d = (r1, d1)" by force
  with exec_side [of s d] Cons.prems(1) have "same_core d d1" by simp
  with Cons 1 show ?case by (cases r1) (fastforce simp: same_core_def)+
qed (simp add: same_core_def)

lemma run_tx_side: "list_all side ss \<Longrightarrow> run_tx ss d = (r, d') \<Longrightarrow> same_core d d'"
  by (erule run_tx_cases) (auto simp: same_core_def tx_Rollback_def dest: run_stmts_side)

lemma unchanged_core: "unchanged d d' \<Longrightarrow> same_core d d'"
proof -
  assume "unchanged d d'"
  then obtain c where "d' = tx_Rollback d c" unfolding unchanged_def by blast
  then show ?thesis by (simp add: same_core_def tx_Rollback_def)
qed

lemma unchanged_seqs_wf:
  assumes "unchanged d d'" "db_wf d" "seq_entry d \<le> seq_entry d'" "seq_outbox d \<le> seq_outbox d'"
  shows "db_wf d'"
  using assms rollback_wf [OF assms(2-4)] by (simp add: unchanged_def)

text \<open>A failed posting can only have advanced the sequences.\<close>

lemma commit_in_seqs:
  "commit_in w d cur = (res, d') \<Longrightarrow> seq_entry d' = seq_entry cur \<and> seq_outbox d' = seq_outbox cur"
  by (auto simp: commit_in_def tx_Commit_def tx_Rollback_def split: option.splits if_splits)

definition seqs_le :: "db \<Rightarrow> db \<Rightarrow> bool" where
  "seqs_le d d' \<longleftrightarrow> seq_entry d \<le> seq_entry d' \<and> seq_outbox d \<le> seq_outbox d'"

lemma seqs_le_trans: "seqs_le a b \<Longrightarrow> seqs_le b c \<Longrightarrow> seqs_le a c"
  by (auto simp: seqs_le_def)

lemma seqs_le_refl [simp]: "seqs_le d d"
  by (simp add: seqs_le_def)

lemma seqs_le_Rollback [simp]: "seqs_le d (tx_Rollback d cur) \<longleftrightarrow> seqs_le d cur"
  by (simp add: seqs_le_def tx_Rollback_def)

lemma seqs_le_attempt:
  assumes "seqs_le d (snd m)" "\<And>e s. seqs_le d s \<Longrightarrow> seqs_le d (snd (f e s))" "\<And>a s. seqs_le d s \<Longrightarrow> seqs_le d (snd (g a s))"
  shows "seqs_le d (snd (attempt m f g))"
  using assms by (simp add: attempt_def split: sum.split)

lemma seqs_le_ops:
  "seqs_le d s \<Longrightarrow> seqs_le d (snd (inject w st s m))" if "seqs_le s (snd m)"
  using that seqs_le_trans by (auto simp: inject_def split: option.split)

lemma op_seqs:
  "seqs_le d (snd (ClaimIdempotencyKey d p k h))" "seqs_le d (snd (InsertPosting d po))"
  "seqs_le d (snd (InsertEntries d es ids))" "seqs_le d (snd (InsertOutbox d pid key pl))"
  "seqs_le d (snd (CompleteIdempotency d p k pid resp))"
proof -
  show "seqs_le d (snd (InsertEntries d es ids))"
    using InsertEntries_seqs [of d es ids] by (cases "InsertEntries d es ids") (simp add: seqs_le_def)
qed (auto simp: seqs_le_def exec_defs Let_def split: option.splits)

lemma seqs_le_commit_in: "seqs_le d cur \<Longrightarrow> seqs_le d (snd (commit_in w d cur))"
  using commit_in_seqs [of w d cur] by (cases "commit_in w d cur") (simp add: seqs_le_def)

lemma Post_seqs: "seqs_le d (snd (Post x w d r))"
  unfolding Post_def Let_def
  by (auto intro!: seqs_le_attempt seqs_le_ops op_seqs seqs_le_commit_in split: option.split sum.split)

lemma core_ok:
  assumes "ledger_ok x d" "same_core d d'" "db_wf d'"
  shows "ledger_ok x d'"
  using assms by (simp add: ledger_ok_def same_core_def zero_sum_def idem_complete_def)

lemma Post_ledger_ok:
  assumes "ledger_ok x d" "request_int64 r" "Post x w d r = (res, d')"
  shows "ledger_ok x d'"
  using assms(3)
proof (cases rule: Post_cases)
  case (error e)
  have "seqs_le d d'" using Post_seqs [of d x w r] assms(3) by simp
  with error assms(1) have "db_wf d'" by (auto simp: seqs_le_def ledger_ok_def intro: unchanged_seqs_wf)
  with error assms(1) show ?thesis by (blast intro: core_ok unchanged_core)
next
  case replayed
  with assms(1) show ?thesis by simp
next
  case (applied payload)
  with assms(1,2) show ?thesis by (simp add: posted_ledger_ok)
qed

lemma step_ok: "ledger_step x d d' \<Longrightarrow> ledger_ok x d \<Longrightarrow> ledger_ok x d'"
proof (induction rule: ledger_step.induct)
  case (post r w d res d')
  then show ?case by (blast intro: Post_ledger_ok)
next
  case (other ss d res d')
  have "db_wf d'" using other run_tx_invariant [of d ss] by (simp add: ledger_ok_def)
  with other run_tx_side show ?case by (blast intro: core_ok)
qed

lemma steps_ok: "ledger_steps x d d' \<Longrightarrow> ledger_ok x d \<Longrightarrow> ledger_ok x d'"
  by (induction rule: rtranclp_induct) (auto intro: step_ok)

text \<open>Idempotency rows are never removed or rewritten once committed.\<close>

lemma step_idem: "ledger_step x d d' \<Longrightarrow> \<exists>new. idempotency d' = idempotency d @ new"
proof (induction rule: ledger_step.induct)
  case (post r w d res d')
  from post(2) show ?case
  proof (cases rule: Post_cases)
    case (error e)
    then show ?thesis using unchanged_core by (auto simp: same_core_def)
  qed (auto simp: posted_def Let_def)
next
  case (other ss d res d')
  then show ?case using run_tx_side by (auto simp: same_core_def)
qed

lemma steps_idem: "ledger_steps x d d' \<Longrightarrow> set (idempotency d) \<subseteq> set (idempotency d')"
  by (induction rule: rtranclp_induct) (use step_idem in fastforce)+

section \<open>Replay\<close>

lemma find_unique:
  assumes "distinct (map f xs)" "i \<in> set xs" "\<And>y. P y \<longleftrightarrow> f y = f i"
  shows "find P xs = Some i"
  using assms
proof (induction xs)
  case (Cons a xs)
  show ?case
  proof (cases "P a")
    case True
    then have "a = i" using Cons.prems by (auto simp: image_iff)
    with True show ?thesis by simp
  next
    case False
    then show ?thesis using Cons by auto
  qed
qed simp

lemma LoadIdempotency_found:
  assumes "db_wf d" "i \<in> set (idempotency d)" "idem_match p k i"
  shows "LoadIdempotency d p k = Inr i"
proof -
  have "find (idem_match p k) (idempotency d) = Some i"
    using assms by (intro find_unique [of "\<lambda>r. (iPrincipal r, iKey r)"]) (auto simp: db_wf_def keys_ok_def idem_match_def)
  then show ?thesis by (simp add: LoadIdempotency_def)
qed

lemma replay_complete:
  assumes "ledger_ok x d" "i \<in> set (idempotency d)" "idem_match (qPrincipal r) (qKey r) i" "conn w StLoad = None"
  shows "replay w d r h = (if iBodyHash i \<noteq> h then Inl ErrIdempotencyBodyMismatch
    else Inr \<lparr>resPosting = PostingIDFor x (qPrincipal r) (qKey r), resBusinessDate = qBusinessDate r,
      resEntryIDs = map eId (posting_rows (entries d) (PostingIDFor x (qPrincipal r) (qKey r))), Replayed = True\<rparr>)"
proof -
  from assms(1-3) have "iResponse i = JResult (PostingIDFor x (qPrincipal r) (qKey r))
      (map eId (posting_rows (entries d) (PostingIDFor x (qPrincipal r) (qKey r))))"
    by (auto simp: ledger_ok_def idem_complete_def idem_match_def)
  moreover have "LoadIdempotency d (qPrincipal r) (qKey r) = Inr i"
    using assms by (intro LoadIdempotency_found) (simp_all add: ledger_ok_def)
  ultimately show ?thesis
    using assms(4) by (simp add: replay_def numeral_eq_Suc)
qed

lemma replay_loop_Replayed: "replay_loop w r k n rec = Inr res \<Longrightarrow> Replayed res"
  by (induction w r k n rec rule: replay_loop.induct) (auto split: jsonb.splits if_splits sum.splits)

lemma replay_Replayed: "replay w d r h = Inr res \<Longrightarrow> Replayed res"
  by (auto simp: replay_def split: option.splits sum.splits if_splits dest: replay_loop_Replayed)

lemma Post_duplicate:
  assumes "Validate r = None" "conn w StBegin = None" "conn w StClaim = None"
    and "i \<in> set (idempotency d)" "idem_match (qPrincipal r) (qKey r) i"
  shows "Post x w d r = (replay w d r (BodyHash x r), d)"
proof -
  have "ClaimIdempotencyKey d (qPrincipal r) (qKey r) h =
      (Inl (PgError SQLStateUniqueViolation ConstraintIdempotency), d)" for h
    using assms(4,5) by (auto simp: ClaimIdempotencyKey_def)
  then show ?thesis
    using assms(1-3) by (simp add: Post_def Let_def inject_def IsUniqueViolation_def)
qed

text \<open>After a success the stored row describes exactly the result that was returned.\<close>

lemma Post_success_row:
  assumes "ledger_ok x d" "Post x w d r = (Inr res, d')"
  shows "\<exists>i \<in> set (idempotency d'). idem_match (qPrincipal r) (qKey r) i \<and> iBodyHash i = BodyHash x r \<and>
    iResponse i = JResult (resPosting res) (resEntryIDs res)"
  using assms(2)
proof (cases rule: Post_cases)
  case replayed
  then obtain i where i: "i \<in> set (idempotency d)" "idem_match (qPrincipal r) (qKey r) i" by blast
  have "conn w StLoad = None" using replayed(1) by (auto simp: replay_def split: option.splits)
  note rc = replay_complete [OF assms(1) i this, of "BodyHash x r"]
  with replayed i assms(1) show ?thesis
    by (intro bexI [of _ i]) (auto simp: ledger_ok_def idem_complete_def idem_match_def split: if_splits)
next
  case (applied payload)
  then show ?thesis by (auto simp: posted_def Let_def idem_match_def postedResult_def)
qed simp

lemma response_unique:
  assumes "ledger_ok x d" "i \<in> set (idempotency d)" "idem_match p k i" "iResponse i = JResult a b"
  shows "a = PostingIDFor x p k \<and> b = map eId (posting_rows (entries d) (PostingIDFor x p k))"
  using assms by (auto simp: ledger_ok_def idem_complete_def idem_match_def)

section \<open>Retries\<close>

fun attempts :: "ext \<Rightarrow> Request \<Rightarrow> db \<Rightarrow> world list \<Rightarrow> db" where
  "attempts x r d [] = d"
| "attempts x r d (w # ws) = attempts x r (snd (Post x w d r)) ws"

text \<open>What a sequence of attempts can have done to the tables of the posting path.\<close>

definition untouched :: "db \<Rightarrow> db \<Rightarrow> bool" where
  "untouched d d' \<longleftrightarrow> (\<exists>m k. d' = d\<lparr>seq_entry := m, seq_outbox := k\<rparr>)"

definition settled :: "ext \<Rightarrow> Request \<Rightarrow> db \<Rightarrow> db \<Rightarrow> bool" where
  "settled x r d d' \<longleftrightarrow> (\<exists>c payload n. untouched d c \<and> d' = (posted x c r payload)\<lparr>seq_entry := fst n, seq_outbox := snd n\<rparr>)"

lemma unchanged_untouched: "unchanged d d' \<longleftrightarrow> untouched d d'"
proof
  assume "unchanged d d'"
  then show "untouched d d'" unfolding unchanged_def untouched_def tx_Rollback_def by blast
next
  assume "untouched d d'"
  then show "unchanged d d'" by (auto simp: unchanged_def untouched_def tx_Rollback_def)
qed

lemma untouched_trans: "untouched a b \<Longrightarrow> untouched b c \<Longrightarrow> untouched a c"
  by (auto simp: untouched_def) blast

lemma untouched_core:
  assumes "untouched d c"
  shows "entries c = entries d" "postings c = postings d" "idempotency c = idempotency d" "outbox c = outbox d"
    "accounts c = accounts d" "has_posting c = has_posting d" "has_account c = has_account d"
  using assms by (auto simp: untouched_def has_posting_def has_account_def fun_eq_iff)

lemma untouched_postable: "untouched d c \<Longrightarrow> postable x c r \<longleftrightarrow> postable x d r"
  by (simp add: postable_def untouched_core)

lemma settled_row:
  assumes "settled x r d d'"
  shows "\<exists>i \<in> set (idempotency d'). idem_match (qPrincipal r) (qKey r) i \<and> iBodyHash i = BodyHash x r"
  using assms by (auto simp: settled_def posted_def Let_def idem_match_def)

lemma Post_progress:
  assumes "Post x w d' r = (res, d2)" "\<not> (\<exists>i \<in> set (idempotency d). idem_match (qPrincipal r) (qKey r) i)"
    and "untouched d d' \<or> settled x r d d'"
  shows "untouched d d2 \<or> settled x r d d2"
  using assms(1)
proof (cases rule: Post_cases)
  case (error e)
  then have p: "untouched d' d2" by (simp add: unchanged_untouched)
  from assms(3) show ?thesis
  proof
    assume "settled x r d d'"
    with p show ?thesis by (fastforce simp: settled_def untouched_def)
  qed (use p untouched_trans in blast)
next
  case replayed
  with assms(3) show ?thesis by simp
next
  case (applied payload)
  then have "untouched d d'" using assms(3) settled_row by blast
  with applied(1) have "settled x r d d2"
    unfolding settled_def
    by (intro exI [of _ d'] exI [of _ payload] exI [of _ "(seq_entry d2, seq_outbox d2)"]) simp
  then show ?thesis ..
qed

lemma attempts_progress:
  assumes "\<not> (\<exists>i \<in> set (idempotency d). idem_match (qPrincipal r) (qKey r) i)" "untouched d d' \<or> settled x r d d'"
  shows "untouched d (attempts x r d' ws) \<or> settled x r d (attempts x r d' ws)"
  using assms(2)
proof (induction ws arbitrary: d')
  case (Cons w ws)
  then show ?case
    using Post_progress [OF _ assms(1)] by (metis attempts.simps(2) prod.collapse)
qed simp

lemma attempts_ok: "ledger_ok x d \<Longrightarrow> request_int64 r \<Longrightarrow> ledger_ok x (attempts x r d ws)"
proof (induction ws arbitrary: d)
  case (Cons w ws)
  then show ?case using Post_ledger_ok [of x d r w] by (cases "Post x w d r") simp
qed simp

lemma fst_attempt:
  assumes "\<And>e s. m = (Inl e, s) \<Longrightarrow> fst (f e s) \<notin> E" "\<And>a s. m = (Inr a, s) \<Longrightarrow> fst (g a s) \<notin> E"
  shows "fst (attempt m f g) \<notin> E"
  using assms by (cases m; cases "fst m") auto

lemma fst_option:
  assumes "m = None \<Longrightarrow> fst a \<notin> E" "\<And>y. m = Some y \<Longrightarrow> fst (b y) \<notin> E"
  shows "fst (case m of None \<Rightarrow> a | Some y \<Rightarrow> b y) \<notin> E"
  using assms by (cases m) auto

lemma fst_sum:
  assumes "\<And>e. m = Inl e \<Longrightarrow> fst (a e) \<notin> E" "\<And>y. m = Inr y \<Longrightarrow> fst (b y) \<notin> E"
  shows "fst (case m of Inl e \<Rightarrow> a e | Inr y \<Rightarrow> b y) \<notin> E"
  using assms by (cases m) auto

lemma fst_if: "(c \<Longrightarrow> fst a \<notin> E) \<Longrightarrow> (\<not> c \<Longrightarrow> fst b \<notin> E) \<Longrightarrow> fst (if c then a else b) \<notin> E"
  by simp

lemma buildEntries_Inl: "buildEntries r pid es = Inl err \<Longrightarrow> \<exists>m. err = ErrPostMoney m"
  by (induction r pid es rule: buildEntries.induct) (auto split: sum.splits)

text \<open>Waiting errors can only come from \<open>replay\<close>, and \<open>replay\<close> only runs on a stored row.\<close>

lemma Post_wait_errors:
  assumes "\<And>i h. i \<in> set (idempotency d) \<Longrightarrow> idem_match (qPrincipal r) (qKey r) i \<Longrightarrow> replay w d r h \<notin> E"
    and "E = {Inl ErrReplayTimeout, Inl ErrReplayCancelled}"
  shows "fst (Post x w d r) \<notin> E"
proof (cases "Validate r")
  case (Some err)
  then have "err \<noteq> ErrReplayTimeout \<and> err \<noteq> ErrReplayCancelled"
    by (auto simp: Validate_def split: if_splits sum.splits dest: entryAmounts_Inl)
  with Some assms(2) show ?thesis by (simp add: Post_def)
next
  case None
  show ?thesis
    unfolding Post_def Let_def None option.case
    by (intro fst_attempt fst_option fst_sum fst_if)
      (use assms in \<open>auto dest!: Claim_Inl buildEntries_Inl\<close>)
qed

section \<open>The global invariant\<close>

lemma scanSums_zero:
  assumes "\<forall>c. currencySum es c = 0"
  shows "\<exists>m. scanSums es cs out = Inr m \<and> dom m = dom out \<union> set cs \<and> (\<forall>c \<in> set cs. m c = Some 0) \<and>
    (\<forall>c. c \<notin> set cs \<longrightarrow> m c = out c)"
proof (induction cs arbitrary: out)
  case (Cons c cs)
  have "scan64 (currencySum es c) = Inr 0" using assms by (simp add: scan64_def in64_iff)
  moreover from Cons.IH [of "out(c \<mapsto> 0)"] obtain m where
    m: "scanSums es cs (out(c \<mapsto> 0)) = Inr m" "dom m = dom (out(c \<mapsto> 0)) \<union> set cs"
    "\<forall>c \<in> set cs. m c = Some 0" "\<forall>b. b \<notin> set cs \<longrightarrow> m b = (out(c \<mapsto> 0)) b" by blast
  moreover have "m c = Some 0" using m(3,4) by (cases "c \<in> set cs") simp_all
  ultimately show ?case by (intro exI [of _ m]) (simp add: insert_commute)
qed simp

section \<open>The contract of the posting service\<close>

text \<open>
  What the components that post rely on, the end-of-day engine and the consumer: a set of
  well-formed ledgers that posting, whatever happens to the connection, and every other
  statement of the store preserve. Their lemmas are proved from this contract alone.
\<close>

locale ledger_service =
  fixes ok :: "db \<Rightarrow> bool"
    and post :: "db \<Rightarrow> Request \<Rightarrow> (post_error + Result) \<times> db"
  assumes post_keeps: "ok d \<Longrightarrow> request_int64 r \<Longrightarrow> ok (snd (post d r))"
    and other_keeps: "ok d \<Longrightarrow> side s \<Longrightarrow> ok (snd (exec s d))"

lemma exec_side_error: "side s \<Longrightarrow> exec s d = (Inl e, d') \<Longrightarrow> d' = d"
  by (cases s) (auto simp: side_def exec_defs Let_def split: option.splits if_splits)

lemma run_tx_side_single:
  assumes "side s"
  shows "snd (run_tx [s] d) = snd (exec s d)"
proof (cases "exec s d")
  case (Pair r d')
  show ?thesis
  proof (cases r)
    case (Inl e)
    with Pair exec_side_error [OF assms, of d e d'] show ?thesis by (simp add: run_tx_def)
  next
    case (Inr u)
    have "entries d' = entries d" using exec_side [OF assms, of d] Pair by (simp add: same_core_def)
    with Pair Inr show ?thesis by (simp add: run_tx_def tx_Commit_def)
  qed
qed

lemma side_ledger_ok: "ledger_ok x d \<Longrightarrow> side s \<Longrightarrow> ledger_ok x (snd (exec s d))"
  using step_ok [OF ledger_step.other [of "[s]" d _ _ x, OF _ prod.collapse [symmetric]]] run_tx_side_single [of s d]
  by simp

interpretation svc: ledger_service "ledger_ok x" "\<lambda>d r. Post x (ws d r) d r" for x ws
proof unfold_locales
  fix d r assume "ledger_ok x d" "request_int64 r"
  then show "ledger_ok x (snd (Post x (ws d r) d r))"
    using Post_ledger_ok [of x d r "ws d r"] by (metis prod.collapse)
next
  fix d s assume "ledger_ok x d" "side s"
  then show "ledger_ok x (snd (exec s d))" by (rule side_ledger_ok)
qed

section \<open>A sample ledger\<close>

text \<open>Two accounts and a transfer between them, for the concrete instances below.\<close>

definition sampleExt :: ext where
  "sampleExt = \<lparr>digest = (\<lambda>c. canKind c @ canPostedAt c), newSHA1 = (\<lambda>ns s. of_nat (length s)),
     protoMarshal = (\<lambda>e. Some (evPrincipal e))\<rparr>"

definition sampleWorld :: world where
  "sampleWorld = \<lparr>conn = (\<lambda>_. None), ackLost = False, later = (\<lambda>_. emptyDB), cancelled = (\<lambda>_. False)\<rparr>"

definition lostAck :: world where
  "lostAck = sampleWorld\<lparr>conn := (\<lambda>s. if s = StCommit then Some ''reset'' else None), ackLost := True\<rparr>"

definition sampleAccount :: "uuid \<Rightarrow> Account" where
  "sampleAccount i = \<lparr>aId = i, aProductCode = ''CHK-01'', aCurrency = ''USD'', aOpenedOn = BusinessDate 2027 1 4\<rparr>"

definition sampleRequest :: Request where
  "sampleRequest = \<lparr>qPrincipal = ''teller'', qKey = ''k1'', qKind = ''transfer'', qCurrency = ''USD'',
     qBusinessDate = BusinessDate 2028 1 3, qValueDate = BusinessDate 2028 1 3, qPostedAt = 0, qReverses = None,
     qEntries = [\<lparr>qAccount = 1, qAmountMinor = 500\<rparr>, \<lparr>qAccount = 2, qAmountMinor = - 500\<rparr>]\<rparr>"

definition sampleDB :: db where
  "sampleDB = snd (run_tx [SInsertAccount (sampleAccount 1), SInsertAccount (sampleAccount 2)] emptyDB)"

lemma sample_steps: "ledger_steps x emptyDB sampleDB"
proof -
  obtain res where "run_tx [SInsertAccount (sampleAccount 1), SInsertAccount (sampleAccount 2)] emptyDB = (res, sampleDB)"
    by (metis sampleDB_def prod.collapse)
  then have "ledger_step x emptyDB sampleDB" by (intro ledger_step.other) (simp_all add: side_def)
  then show ?thesis by blast
qed

lemma sampleDB_tables:
  "postings sampleDB = [] \<and> idempotency sampleDB = [] \<and> map aId (accounts sampleDB) = [1, 2]"
  by (simp add: sampleDB_def run_tx_def InsertAccount_def sampleAccount_def char3_def has_account_def
      emptyDB_def tx_Commit_def)

lemma sample_fresh:
  "\<not> has_posting sampleDB i" "\<not> (\<exists>i \<in> set (idempotency sampleDB). idem_match p k i)"
  using sampleDB_tables by (simp_all add: has_posting_def)

lemma sample_accounts: "has_account sampleDB 1" "has_account sampleDB 2"
proof -
  have "aId ` set (accounts sampleDB) = {1, 2}"
    using sampleDB_tables by (metis list.set(1,2) list.set_map)
  then show "has_account sampleDB 1" "has_account sampleDB 2"
    unfolding has_account_def by (metis imageE insertI1 insertI2)+
qed

lemma sample_request: "request_int64 sampleRequest" "acceptable sampleRequest" "Validate sampleRequest = None"
proof -
  show r: "request_int64 sampleRequest" by (simp add: request_int64_def sampleRequest_def in64_iff)
  show "acceptable sampleRequest"
    by (simp add: acceptable_def sampleRequest_def validKinds_def Known_def registry_def MinInt64_def
        legSum_def in64_iff)
  with Validate_acceptable [OF r] show "Validate sampleRequest = None" by simp
qed

lemma sample_postable: "postable sampleExt sampleDB sampleRequest"
  using sample_request(1,2) sample_accounts
  by (auto simp: postable_def marshalPostingEvent_def sampleExt_def) (auto simp: sampleRequest_def)

lemma sample_healthy: "healthy sampleWorld"
  by (simp add: healthy_def sampleWorld_def)

lemma sample_Post:
  "\<exists>payload. Post sampleExt sampleWorld sampleDB sampleRequest =
     (Inr (postedResult sampleExt sampleDB sampleRequest), posted sampleExt sampleDB sampleRequest payload)"
proof (rule Post_succeeds [OF sample_healthy _ sample_postable sample_fresh])
  show "db_wf sampleDB" using steps_ok [OF sample_steps ledger_ok_empty] by (simp add: ledger_ok_def)
qed

lemma Post_again:
  assumes "ledger_steps x emptyDB d" "request_int64 r" "Post x w d r = (Inr res, d1)" "ledger_steps x d1 d2"
    and "qPrincipal r' = qPrincipal r" "qKey r' = qKey r" "Validate r' = None"
    and "conn w' StBegin = None" "conn w' StClaim = None" "conn w' StLoad = None"
  shows "Post x w' d2 r' = (if BodyHash x r' = BodyHash x r
    then Inr (res\<lparr>resBusinessDate := qBusinessDate r', Replayed := True\<rparr>)
    else Inl ErrIdempotencyBodyMismatch, d2)"
proof -
  have ok: "ledger_ok x d" by (rule steps_ok [OF assms(1) ledger_ok_empty])
  note ok1 = Post_ledger_ok [OF ok assms(2,3)]
  note ok2 = steps_ok [OF assms(4) ok1]
  from Post_success_row [OF ok assms(3)] obtain i where
    i: "i \<in> set (idempotency d1)" "idem_match (qPrincipal r) (qKey r) i" "iBodyHash i = BodyHash x r"
    "iResponse i = JResult (resPosting res) (resEntryIDs res)" by blast
  have i2: "i \<in> set (idempotency d2)" using steps_idem [OF assms(4)] i(1) by blast
  note u = response_unique [OF ok2 i2 i(2,4)]
  have m: "idem_match (qPrincipal r') (qKey r') i" using i(2) assms(5,6) by simp
  show ?thesis
    unfolding Post_duplicate [OF assms(7-9) i2 m] replay_complete [OF ok2 i2 m assms(10)]
    using i(3) u assms(5,6) by auto
qed

lemma Post_idempotent_again:
  assumes "ledger_steps x emptyDB d" "request_int64 r" "Post x w d r = (Inr res, d1)" "ledger_steps x d1 d2"
    and "Validate r = None" "conn w' StBegin = None" "conn w' StClaim = None" "conn w' StLoad = None"
  shows "Post x w' d2 r = (Inr (res\<lparr>resBusinessDate := qBusinessDate r, Replayed := True\<rparr>), d2)"
  using Post_again [OF assms(1-4) refl refl assms(5-8)] by simp

section \<open>Properties\<close>

text \<open>
  C7. \<^verbatim>\<open>Post\<close> is atomic under every failure of the connection: either all its rows are there, the
  posting, its legs with consecutive ids in request order, the outbox row and the completed
  idempotency row, and the caller has the result or, if only the commit's acknowledgement
  was lost, an error; or no table changed, and a successful answer is a replay.
\<close>

theorem Post_atomic:
  assumes "Post x w d r = (res, d')"
  shows "(\<exists>payload. d' = posted x d r payload \<and>
      (res = Inr (postedResult x d r) \<or> (\<exists>e. res = Inl e \<and> ackLost w \<and> conn w StCommit \<noteq> None))) \<or>
    (unchanged d d' \<and> (case res of Inl e \<Rightarrow> True | Inr a \<Rightarrow> Replayed a))"
  using assms
proof (cases rule: Post_cases)
  case replayed
  then show ?thesis using replay_Replayed [of w d r] by (auto split: sum.splits)
qed auto

theorem Post_atomic_witness:
  "\<exists>res d'. Post sampleExt lostAck sampleDB sampleRequest = (res, d') \<and>
    ((\<exists>payload. d' = posted sampleExt sampleDB sampleRequest payload) \<or> unchanged sampleDB d')"
proof -
  obtain res d' where P: "Post sampleExt lostAck sampleDB sampleRequest = (res, d')" by force
  show ?thesis using P Post_atomic [OF P] by blast
qed



text \<open>
  C1. Exactly one effect: however many attempts at a request failed before, at any statement, at
  the commit, or with the commit applied and its acknowledgement lost, one attempt over a
  working connection succeeds, and the ledger then holds its posting, its legs and its
  outbox row exactly once.
\<close>

theorem Post_exactly_once:
  assumes "ledger_steps x emptyDB d" "postable x d r" "healthy w"
    and "\<not> has_posting d (PostingIDFor x (qPrincipal r) (qKey r))"
    and "\<not> (\<exists>i \<in> set (idempotency d). idem_match (qPrincipal r) (qKey r) i)"
  shows "\<exists>res d2 n row. Post x w (attempts x r d ws) r = (Inr res, d2) \<and>
    resPosting res = PostingIDFor x (qPrincipal r) (qKey r) \<and> resEntryIDs res = idsFrom n (length (qEntries r)) \<and>
    postings d2 = postings d @ [storedPosting r (resPosting res)] \<and>
    entries d2 = entries d @ storedLegs r (resPosting res) n (qEntries r) \<and>
    outbox d2 = outbox d @ [row] \<and> oPosting row = resPosting res"
proof -
  let ?pid = "PostingIDFor x (qPrincipal r) (qKey r)"
  let ?d = "attempts x r d ws"
  have r64: "request_int64 r" and V: "Validate r = None"
    using assms(2) Validate_acceptable [of r] by (simp_all add: postable_def)
  have ok: "ledger_ok x ?d"
    using assms(1) r64 by (blast intro: attempts_ok steps_ok ledger_ok_empty)
  have "untouched d d" unfolding unchanged_untouched [symmetric] by simp
  then have "untouched d ?d \<or> settled x r d ?d" using attempts_progress [OF assms(5)] by blast
  then show ?thesis
  proof
    assume p: "untouched d ?d"
    then obtain payload where "Post x w ?d r = (Inr (postedResult x ?d r), posted x ?d r payload)"
      using Post_succeeds [OF assms(3), of ?d x r] ok assms(2,4,5) untouched_postable [OF p] untouched_core [OF p]
      by (auto simp: ledger_ok_def)
    then show ?thesis
      using untouched_core [OF p] by (auto simp: postedResult_def posted_def Let_def)
  next
    assume st: "settled x r d ?d"
    from settled_row [OF st] obtain i where
      i: "i \<in> set (idempotency ?d)" "idem_match (qPrincipal r) (qKey r) i" "iBodyHash i = BodyHash x r" by blast
    have c: "conn w s = None" for s using assms(3) by (simp add: healthy_def)
    note P = Post_duplicate [OF V c c i(1,2)] replay_complete [OF ok i(1,2) c]
    from st obtain e payload n where e: "untouched d e" and d: "?d = (posted x e r payload)\<lparr>seq_entry := fst n, seq_outbox := snd n\<rparr>"
      by (auto simp: settled_def)
    have old: "posting_rows (entries d) ?pid = []"
      using posting_rows_fresh [of d ?pid] assms(1,4) steps_ok ledger_ok_empty by (auto simp: ledger_ok_def)
    have "map eId (posting_rows (entries ?d) ?pid) = idsFrom (seq_entry e) (length (qEntries r))"
      using d untouched_core [OF e] old by (simp add: posting_rows_append posting_rows_legs storedLegs_ids)
    with P i(3) d untouched_core [OF e] show ?thesis
      by (auto simp: posted_def Let_def)
  qed
qed

theorem Post_exactly_once_witness:
  "\<exists>res d2 n. Post sampleExt sampleWorld (attempts sampleExt sampleRequest sampleDB [lostAck, lostAck]) sampleRequest =
      (Inr res, d2) \<and> entries d2 = entries sampleDB @ storedLegs sampleRequest (resPosting res) n (qEntries sampleRequest)"
  using Post_exactly_once [OF sample_steps sample_postable sample_healthy sample_fresh, of "[lostAck, lostAck]"]
  by blast



text \<open>
  The waiting loop of \<^verbatim>\<open>replay\<close> is never needed: a committed idempotency row always carries
  its response, because claim and completion commit together, so no call of \<^verbatim>\<open>Post\<close> times out
  waiting for a concurrent request.
\<close>

theorem Post_never_waits:
  assumes "ledger_steps x emptyDB d"
  shows "fst (Post x w d r) \<noteq> Inl ErrReplayTimeout \<and> fst (Post x w d r) \<noteq> Inl ErrReplayCancelled"
proof -
  have ok: "ledger_ok x d" using assms steps_ok ledger_ok_empty by blast
  have "replay w d r h \<notin> {Inl ErrReplayTimeout, Inl ErrReplayCancelled}"
    if "i \<in> set (idempotency d)" "idem_match (qPrincipal r) (qKey r) i" for i h
    using replay_complete [OF ok that, of w h]
    by (cases "conn w StLoad") (auto simp: replay_def)
  then show ?thesis using Post_wait_errors [of d r w _ x] by simp
qed

theorem Post_never_waits_witness:
  "fst (Post sampleExt lostAck sampleDB sampleRequest) \<noteq> Inl ErrReplayTimeout"
  using Post_never_waits [OF sample_steps, of sampleExt lostAck sampleRequest] by (rule conjunct1)

end
