(* ===== verification/Balance.thy ===== *)
theory Balance
  imports Ledger
begin

text \<open>
  The package \<^verbatim>\<open>internal/ledger/balance\<close>: the three balances of an account, holds, and the
  checkpoints that bound the derived-balance query.

  The abstract specification of a ledger balance is \<open>trueBalance\<close>, the sum of all entries up
  to the date. The refinement lemma says when the checkpointed query computes it: every
  checkpoint must be a watermark, that is, no entry at or below its last entry id may be
  dated after it. Postings keep that condition; taking a checkpoint keeps it only if
  no later-dated entry was inserted before an earlier-dated one.
\<close>

section \<open>Operations\<close>

datatype bal_error =
    ErrBalStore store_error
  | ErrBalMoney money_error
  | ErrHoldNotPositive int
  | ErrInsufficientAvailable int int
  | ErrUnknownReleaseKind string

definition HoldDuration :: int where
  "HoldDuration = 72 * 3600 * 1000000000"

definition At :: "db \<Rightarrow> uuid \<Rightarrow> BusinessDate \<Rightarrow> int \<Rightarrow> bal_error + Balances" where
  "At d a asOf now =
     (case GetAccount d a of Inl e \<Rightarrow> Inl (ErrBalStore e) | Inr acct \<Rightarrow>
      case LedgerBalance d a asOf of Inl e \<Rightarrow> Inl (ErrBalStore e) | Inr ledger \<Rightarrow>
      case OpenHoldTotal d a now of Inl e \<Rightarrow> Inl (ErrBalStore e) | Inr pend \<Rightarrow>
      case money_New 0 (aCurrency acct) of Inl e \<Rightarrow> Inl (ErrBalMoney e) | Inr zero \<Rightarrow>
      Inr \<lparr>bAccount = a, bCurrency = aCurrency acct, bScale = scale zero, bAsOf = asOf,
           bLedger = ledger, bAvailable = sub64 ledger pend, bPending = pend\<rparr>)"

text \<open>
  \<^verbatim>\<open>PlaceHold\<close> reads the balance and then inserts, in two statements on the pool: the check and
  the insertion are separate definitions, so that another client can come between them.
  \<open>new\<close> is the value of \<^verbatim>\<open>uuid.New()\<close>.
\<close>

definition PlaceHold_check ::
  "db \<Rightarrow> uuid \<Rightarrow> uuid \<Rightarrow> Amount \<Rightarrow> int \<Rightarrow> BusinessDate \<Rightarrow> bal_error + Hold" where
  "PlaceHold_check d new a amount placedAt asOf =
     (if minor amount \<le> 0 then Inl (ErrHoldNotPositive (minor amount)) else
      case At d a asOf placedAt of Inl e \<Rightarrow> Inl e | Inr bal \<Rightarrow>
      if bAvailable bal < minor amount then Inl (ErrInsufficientAvailable (bAvailable bal) (minor amount))
      else Inr \<lparr>hId = new, hAccount = a, hAmount = amount, hPlacedAt = placedAt,
                hExpiresAt = placedAt + HoldDuration, hReleasedAt = None, hReleaseKind = None\<rparr>)"

definition PlaceHold_insert :: "db \<Rightarrow> Hold \<Rightarrow> (bal_error + Hold) \<times> db" where
  "PlaceHold_insert d h = attempt (InsertHold d h) (\<lambda>e d'. (Inl (ErrBalStore e), d')) (\<lambda>_ d'. (Inr h, d'))"

definition PlaceHold ::
  "db \<Rightarrow> uuid \<Rightarrow> uuid \<Rightarrow> Amount \<Rightarrow> int \<Rightarrow> BusinessDate \<Rightarrow> (bal_error + Hold) \<times> db" where
  "PlaceHold d new a amount placedAt asOf =
     (case PlaceHold_check d new a amount placedAt asOf of
        Inl e \<Rightarrow> (Inl e, d)
      | Inr h \<Rightarrow> PlaceHold_insert d h)"

definition ReleaseHold :: "db \<Rightarrow> uuid \<Rightarrow> int \<Rightarrow> string \<Rightarrow> (bal_error + unit) \<times> db" where
  "ReleaseHold d h at kind =
     (if kind \<in> {''captured'', ''cancelled'', ''expired''}
      then attempt (store_ReleaseHold d h at kind) (\<lambda>e d'. (Inl (ErrBalStore e), d')) (\<lambda>_ d'. (Inr (), d'))
      else (Inl (ErrUnknownReleaseKind kind), d))"

definition ExpireDue :: "db \<Rightarrow> int \<Rightarrow> (store_error + nat) \<times> db" where
  "ExpireDue d at = ExpireHoldsAsOf d at"

definition Checkpoint :: "db \<Rightarrow> uuid \<Rightarrow> BusinessDate \<Rightarrow> (store_error + unit) \<times> db" where
  "Checkpoint d a bd =
     (case GetAccount d a of Inl e \<Rightarrow> (Inl e, d) | Inr acct \<Rightarrow>
      case LedgerBalance d a bd of Inl e \<Rightarrow> (Inl e, d) | Inr bal \<Rightarrow>
      case MaxEntryIDAsOf d a bd of Inl e \<Rightarrow> (Inl e, d) | Inr lastId \<Rightarrow>
      InsertCheckpoint d a bd (aCurrency acct) bal lastId)"

section \<open>The specification of a balance\<close>

definition upTo :: "db \<Rightarrow> uuid \<Rightarrow> BusinessDate \<Rightarrow> Entry list" where
  "upTo d a bd = filter (\<lambda>e. eAccount e = a \<and> toDate (eBusinessDate e) \<le> toDate bd) (entries d)"

definition trueBalance :: "db \<Rightarrow> uuid \<Rightarrow> BusinessDate \<Rightarrow> int" where
  "trueBalance d a bd = entrySum (upTo d a bd)"

definition belowId :: "db \<Rightarrow> uuid \<Rightarrow> int \<Rightarrow> Entry list" where
  "belowId d a n = filter (\<lambda>e. eAccount e = a \<and> eId e \<le> n) (entries d)"

text \<open>A checkpoint is a watermark of its account.\<close>

definition watermark :: "db \<Rightarrow> CheckpointRow \<Rightarrow> bool" where
  "watermark d c \<longleftrightarrow> cBalance c = entrySum (belowId d (cAccount c) (cLastEntry c)) \<and>
     (\<forall>e \<in> set (belowId d (cAccount c) (cLastEntry c)). toDate (eBusinessDate e) \<le> toDate (cDate c)) \<and>
     cLastEntry c < seq_entry d"

definition watermarks :: "db \<Rightarrow> bool" where
  "watermarks d \<longleftrightarrow> (\<forall>c \<in> set (checkpoints d). watermark d c)"

lemma latestOf_in: "latestOf cs = Some c \<Longrightarrow> c \<in> set cs"
  by (induction cs arbitrary: c) (auto split: option.splits if_splits)

lemma latestOf_None: "latestOf cs = None \<longleftrightarrow> cs = []"
  by (cases cs) (auto split: option.splits)

lemma sum_split:
  fixes f :: "'a \<Rightarrow> int"
  shows "(\<Sum>e\<leftarrow>filter P xs. f e) = (\<Sum>e\<leftarrow>filter (\<lambda>e. P e \<and> Q e) xs. f e) + (\<Sum>e\<leftarrow>filter (\<lambda>e. P e \<and> \<not> Q e) xs. f e)"
  by (induction xs) auto

lemma ledgerBalanceSQL_derived:
  assumes "watermarks d" "\<forall>e \<in> set (entries d). 0 < eId e"
  shows "ledgerBalanceSQL d a asOf = trueBalance d a asOf"
proof (cases "latestCheckpoint d a asOf")
  case None
  have "filter (\<lambda>e. eAccount e = a \<and> 0 < eId e \<and> toDate (eBusinessDate e) \<le> toDate asOf) (entries d) = upTo d a asOf"
    unfolding upTo_def using assms(2) by (intro filter_cong) auto
  with None show ?thesis by (simp add: ledgerBalanceSQL_def trueBalance_def entrySum_def Let_def)
next
  case (Some c)
  then have c: "c \<in> set (checkpoints d)" "cAccount c = a" "toDate (cDate c) \<le> toDate asOf"
    using latestOf_in by (fastforce simp: latestCheckpoint_def)+
  then have w: "cBalance c = entrySum (belowId d a (cLastEntry c))"
    "\<forall>e \<in> set (belowId d a (cLastEntry c)). toDate (eBusinessDate e) \<le> toDate asOf"
    using assms(1) by (auto simp: watermarks_def watermark_def intro: order_trans dest!: bspec)
  let ?P = "\<lambda>e. eAccount e = a \<and> toDate (eBusinessDate e) \<le> toDate asOf"
  have "filter (\<lambda>e. ?P e \<and> eId e \<le> cLastEntry c) (entries d) = belowId d a (cLastEntry c)"
    unfolding belowId_def using w(2) by (intro filter_cong) (auto simp: belowId_def)
  moreover have "filter (\<lambda>e. ?P e \<and> \<not> eId e \<le> cLastEntry c) (entries d) =
      filter (\<lambda>e. eAccount e = a \<and> eId e > cLastEntry c \<and> toDate (eBusinessDate e) \<le> toDate asOf) (entries d)"
    by (intro filter_cong) auto
  ultimately show ?thesis
    using Some w(1) sum_split [of "\<lambda>e. minor (eAmount e)" ?P "entries d" "\<lambda>e. eId e \<le> cLastEntry c"]
    by (simp add: ledgerBalanceSQL_def trueBalance_def upTo_def entrySum_def Let_def)
qed

text \<open>Appending entries with fresh ids keeps every watermark.\<close>

lemma belowId_append:
  assumes "entries d' = entries d @ new" "\<forall>e \<in> set new. seq_entry d \<le> eId e" "n < seq_entry d"
  shows "belowId d' a n = belowId d a n"
  using assms by (auto simp: belowId_def filter_empty_conv)

lemma watermarks_append:
  assumes "watermarks d" "checkpoints d' = checkpoints d" "entries d' = entries d @ new"
    and "\<forall>e \<in> set new. seq_entry d \<le> eId e" "seq_entry d \<le> seq_entry d'"
  shows "watermarks d'"
  using assms(1,2,5) belowId_append [OF assms(3,4)] by (fastforce simp: watermarks_def watermark_def)

lemma foldl_max_ge: "(n::int) \<le> foldl max n xs \<and> (\<forall>i \<in> set xs. i \<le> foldl max n xs)"
proof (induction xs arbitrary: n)
  case (Cons a xs)
  from Cons [of "max n a"] show ?case by auto
qed simp

lemma foldl_max_in: "foldl max (n::int) xs \<in> insert n (set xs)"
proof (induction xs arbitrary: n)
  case (Cons a xs)
  from Cons [of "max n a"] show ?case by (auto simp: max_def split: if_splits)
qed simp

lemma MaxEntryIDAsOf_char:
  assumes "\<forall>e \<in> set (entries d). 0 < eId e"
  shows "\<exists>n. MaxEntryIDAsOf d a bd = Inr n \<and> (\<forall>e \<in> set (upTo d a bd). eId e \<le> n) \<and>
    (n = 0 \<and> upTo d a bd = [] \<or> n \<in> eId ` set (upTo d a bd))"
proof (cases "upTo d a bd")
  case Nil
  then show ?thesis by (simp add: MaxEntryIDAsOf_def upTo_def)
next
  case (Cons e es)
  then have "MaxEntryIDAsOf d a bd = Inr (foldl max (eId e) (map eId es))"
    by (simp add: MaxEntryIDAsOf_def upTo_def)
  with Cons foldl_max_ge [of "eId e" "map eId es"] foldl_max_in [of "eId e" "map eId es"] show ?thesis by auto
qed

lemma toDate_fromDate [simp]: "toDate (fromDate n) = n"
  by (simp add: toDate_def fromDate_def)

text \<open>
  The order condition of a checkpoint: nothing dated after \<open>bd\<close> was inserted before something
  dated on or before it.
\<close>

definition in_order :: "db \<Rightarrow> uuid \<Rightarrow> BusinessDate \<Rightarrow> bool" where
  "in_order d a bd \<longleftrightarrow> (\<forall>e \<in> set (entries d). \<forall>f \<in> set (upTo d a bd).
     eAccount e = a \<and> toDate bd < toDate (eBusinessDate e) \<longrightarrow> eId f < eId e)"

lemma Checkpoint_watermarks:
  assumes "db_wf d" "watermarks d" "in_order d a bd"
  shows "watermarks (snd (Checkpoint d a bd))"
proof -
  have pos: "\<forall>e \<in> set (entries d). 0 < eId e \<and> eId e < seq_entry d" "0 < seq_entry d"
    using assms(1) by (auto simp: wf_simps)
  then obtain n where n: "MaxEntryIDAsOf d a bd = Inr n" "\<forall>e \<in> set (upTo d a bd). eId e \<le> n"
    "n = 0 \<and> upTo d a bd = [] \<or> n \<in> eId ` set (upTo d a bd)"
    using MaxEntryIDAsOf_char [of d a bd] by blast
  have below: "belowId d a n = upTo d a bd"
    unfolding belowId_def upTo_def
  proof (rule filter_cong [OF refl])
    fix e assume e: "e \<in> set (entries d)"
    show "(eAccount e = a \<and> eId e \<le> n) = (eAccount e = a \<and> toDate (eBusinessDate e) \<le> toDate bd)"
    proof
      assume l: "eAccount e = a \<and> eId e \<le> n"
      with pos e have "n \<noteq> 0" by auto
      with n(3) obtain f where f: "f \<in> set (upTo d a bd)" "n = eId f" by auto
      have "\<not> toDate bd < toDate (eBusinessDate e)"
        using assms(3) [unfolded in_order_def, rule_format, OF e f(1)] l f(2) by linarith
      with l show "eAccount e = a \<and> toDate (eBusinessDate e) \<le> toDate bd" by simp
    qed (use n(2) e in \<open>auto simp: upTo_def\<close>)
  qed
  have less: "n < seq_entry d" using n(3) pos by (auto simp: upTo_def)
  have grow: "watermarks (d\<lparr>checkpoints := checkpoints d @ [c]\<rparr>)"
    if "cAccount c = a" "toDate (cDate c) = toDate bd" "cBalance c = trueBalance d a bd" "cLastEntry c = n" for c
  proof -
    have frame: "belowId (d\<lparr>checkpoints := cs\<rparr>) = belowId d" for cs by (simp add: belowId_def fun_eq_iff)
    have "\<forall>e \<in> set (belowId d a n). toDate (eBusinessDate e) \<le> toDate bd"
      unfolding below by (simp add: upTo_def)
    with that assms(2) below less show ?thesis
      by (auto simp: watermarks_def watermark_def trueBalance_def frame)
  qed
  have "ledgerBalanceSQL d a bd = trueBalance d a bd"
    using ledgerBalanceSQL_derived [OF assms(2)] pos by blast
  with grow assms(2) n(1) show ?thesis
    by (auto simp: Checkpoint_def LedgerBalance_def scan64_def InsertCheckpoint_def split: sum.splits option.splits)
qed

lemma posted_watermarks:
  assumes "watermarks d"
  shows "watermarks (posted x d r pl)"
proof (rule watermarks_append [OF assms posted_fields(2) posted_fields(6)])
  show "\<forall>e \<in> set (storedLegs r (PostingIDFor x (qPrincipal r) (qKey r)) (seq_entry d) (qEntries r)).
      seq_entry d \<le> eId e"
    using storedLegs_bounds by blast
qed simp

lemma Post_watermarks:
  assumes "watermarks d" "Post x w d r = (res, d')"
  shows "watermarks d'"
  using assms(2)
proof (cases rule: Post_cases)
  case (error e)
  have "seq_entry d \<le> seq_entry d'" using Post_seqs [of d x w r] assms(2) by (simp add: seqs_le_def)
  moreover from error(2) have "entries d' = entries d @ []" "checkpoints d' = checkpoints d"
    by (auto simp: unchanged_untouched untouched_def)
  ultimately show ?thesis using watermarks_append [OF assms(1), of d' "[]"] by simp
qed (use assms(1) posted_watermarks in auto)

section \<open>Holds\<close>

lemma openHolds_insert:
  "openHolds (d\<lparr>holds := holds d @ [h]\<rparr>) a t =
     openHolds d a t @ (if hAccount h = a \<and> hReleasedAt h = None \<and> t < hExpiresAt h then [h] else [])"
  by (simp add: openHolds_def)

lemma At_Inr:
  assumes "At d a asOf now = Inr b"
  shows "LedgerBalance d a asOf = Inr (bLedger b)" "OpenHoldTotal d a now = Inr (bPending b)"
    "bAvailable b = sub64 (bLedger b) (bPending b)"
  using assms by (auto simp: At_def split: sum.splits)

lemma PlaceHold_Inr:
  assumes "PlaceHold d new a amt t asOf = (Inr h, d')"
  shows "\<exists>b cur. At d a asOf t = Inr b \<and> 0 < minor amt \<and> minor amt \<le> bAvailable b \<and>
    h = \<lparr>hId = new, hAccount = a, hAmount = amt, hPlacedAt = t, hExpiresAt = t + HoldDuration,
      hReleasedAt = None, hReleaseKind = None\<rparr> \<and>
    d' = d\<lparr>holds := holds d @ [h\<lparr>hAmount := amt\<lparr>currency := cur\<rparr>\<rparr>]\<rparr>"
proof -
  from assms have c: "PlaceHold_check d new a amt t asOf = Inr h" "PlaceHold_insert d h = (Inr h, d')"
    by (auto simp: PlaceHold_def PlaceHold_insert_def attempt_def split: sum.splits)
  from c(1) obtain b where b: "At d a asOf t = Inr b" "0 < minor amt" "minor amt \<le> bAvailable b"
    and h: "h = \<lparr>hId = new, hAccount = a, hAmount = amt, hPlacedAt = t, hExpiresAt = t + HoldDuration,
      hReleasedAt = None, hReleaseKind = None\<rparr>"
    by (auto simp: PlaceHold_check_def split: if_splits sum.splits)
  from c(2) obtain cur where "d' = d\<lparr>holds := holds d @ [h\<lparr>hAmount := amt\<lparr>currency := cur\<rparr>\<rparr>]\<rparr>"
    using h by (auto simp: PlaceHold_insert_def attempt_def InsertHold_def split: sum.splits option.splits if_splits)
  with b h show ?thesis by blast
qed

lemma holds_frame: "LedgerBalance (d\<lparr>holds := x\<rparr>) a asOf = LedgerBalance d a asOf"
  by (simp add: LedgerBalance_def ledgerBalanceSQL_def latestCheckpoint_def)

lemma openHolds_expired:
  assumes "at \<le> t"
  shows "map (\<lambda>h. minor (hAmount h)) (openHolds (snd (ExpireHoldsAsOf d at)) a t) =
    map (\<lambda>h. minor (hAmount h)) (openHolds d a t)"
proof -
  have "map (\<lambda>h. minor (hAmount h)) (filter (\<lambda>h. hAccount h = a \<and> hReleasedAt h = None \<and> t < hExpiresAt h)
      (map (\<lambda>h. if hReleasedAt h = None \<and> hExpiresAt h \<le> at
        then h\<lparr>hReleasedAt := Some at, hReleaseKind := Some ''expired''\<rparr> else h) hs)) =
    map (\<lambda>h. minor (hAmount h)) (filter (\<lambda>h. hAccount h = a \<and> hReleasedAt h = None \<and> t < hExpiresAt h) hs)" for hs
    using assms by (induction hs) auto
  then show ?thesis by (simp add: openHolds_def ExpireHoldsAsOf_def Let_def)
qed

lemma ReleaseHold_once:
  assumes "ReleaseHold d h at k = (Inr (), d')" "k' \<in> {''captured'', ''cancelled'', ''expired''}"
  shows "ReleaseHold d' h at' k' = (Inl (ErrBalStore (ErrNotFound ''open hold'')), d')"
proof -
  from assms(1) have "store_ReleaseHold d h at k = (Inr (), d')"
    unfolding ReleaseHold_def by (cases "store_ReleaseHold d h at k"; cases "fst (store_ReleaseHold d h at k)")
      (simp_all add: attempt_def split: if_splits)
  then have "d' = d\<lparr>holds := map (\<lambda>x. if hId x = h \<and> hReleasedAt x = None
      then x\<lparr>hReleasedAt := Some at, hReleaseKind := Some k\<rparr> else x) (holds d)\<rparr>"
    unfolding store_ReleaseHold_def Let_def
    by (cases "\<exists>x \<in> set (holds d). hId x = h \<and> hReleasedAt x = None"; cases "k \<in> set release_kinds")
      (simp_all only: if_True if_False simp_thms prod.inject sum.simps)
  then have hs: "holds d' = map (\<lambda>x. if hId x = h \<and> hReleasedAt x = None
      then x\<lparr>hReleasedAt := Some at, hReleaseKind := Some k\<rparr> else x) (holds d)" by (rule ssubst) simp
  have "\<not> (hId (if hId x = h \<and> hReleasedAt x = None then x\<lparr>hReleasedAt := Some at, hReleaseKind := Some k\<rparr> else x) = h \<and>
      hReleasedAt (if hId x = h \<and> hReleasedAt x = None then x\<lparr>hReleasedAt := Some at, hReleaseKind := Some k\<rparr> else x) = None)" for x
    by (cases "hId x = h \<and> hReleasedAt x = None") simp_all
  then have "\<not> (\<exists>x \<in> set (holds d'). hId x = h \<and> hReleasedAt x = None)"
    unfolding hs set_map by blast
  then have "store_ReleaseHold d' h at' k' = (Inl (ErrNotFound ''open hold''), d')"
    unfolding store_ReleaseHold_def Let_def by simp
  with assms(2) show ?thesis unfolding ReleaseHold_def by simp
qed

section \<open>Sample postings out of date order\<close>

definition dayD :: BusinessDate where "dayD = BusinessDate 2028 1 3"
definition dayE :: BusinessDate where "dayE = BusinessDate 2028 1 4"

definition nextDayRequest :: Request where
  "nextDayRequest = sampleRequest\<lparr>qBusinessDate := dayE, qValueDate := dayE\<rparr>"

definition feeRequest :: Request where
  "feeRequest = sampleRequest\<lparr>qKey := ''fee-1'', qKind := ''fee'',
     qEntries := [\<lparr>qAccount = 1, qAmountMinor = - 100\<rparr>, \<lparr>qAccount = 2, qAmountMinor = 100\<rparr>]\<rparr>"

lemma day_numbers: "toDate dayD < toDate dayE" "AddDays dayD 1 = dayE"
  by (simp_all add: toDate_def dayD_def dayE_def) code_simp+

lemma map_four: "map f xs = [a, b, c, d] \<Longrightarrow> \<exists>w x y z. xs = [w, x, y, z] \<and> f w = a \<and> f x = b \<and> f y = c \<and> f z = d"
  by (auto simp: map_eq_Cons_conv)

lemma healthy_step:
  assumes "ledger_steps x emptyDB d" "postable x d r" "\<not> has_posting d (PostingIDFor x (qPrincipal r) (qKey r))"
    and "\<not> (\<exists>i \<in> set (idempotency d). idem_match (qPrincipal r) (qKey r) i)"
  shows "\<exists>pl. ledger_steps x emptyDB (posted x d r pl)"
proof -
  have ok: "db_wf d" using steps_ok [OF assms(1) ledger_ok_empty] by (simp add: ledger_ok_def)
  obtain pl where P: "Post x sampleWorld d r = (Inr (postedResult x d r), posted x d r pl)"
    using Post_succeeds [OF sample_healthy ok assms(2-4)] by blast
  have "ledger_step x d (posted x d r pl)"
    using assms(2) by (intro ledger_step.post [OF _ P]) (simp add: postable_def)
  with assms(1) show ?thesis by (meson rtranclp.rtrancl_into_rtrancl)
qed

lemma sampleDB_more:
  "entries sampleDB = []" "seq_entry sampleDB = 1" "checkpoints sampleDB = []" "holds sampleDB = []"
  by (simp_all add: sampleDB_def run_tx_def InsertAccount_def sampleAccount_def char3_def has_account_def
      emptyDB_def tx_Commit_def)

lemma GetAccount_sample:
  assumes "accounts d = accounts sampleDB"
  shows "\<exists>acct. GetAccount d 1 = Inr acct \<and> aCurrency acct = ''USD''"
  using assms by (simp add: GetAccount_def sampleDB_def run_tx_def InsertAccount_def sampleAccount_def char3_def
      has_account_def emptyDB_def tx_Commit_def)

lemma out_of_order_reachable:
  "\<exists>p q. ledger_steps sampleExt emptyDB (posted sampleExt (posted sampleExt sampleDB nextDayRequest p) feeRequest q)"
proof -
  have a: "postable sampleExt sampleDB nextDayRequest"
    using sample_postable by (simp add: postable_def nextDayRequest_def request_int64_def acceptable_def legSum_def
        marshalPostingEvent_def sampleExt_def)
  obtain p where p: "ledger_steps sampleExt emptyDB (posted sampleExt sampleDB nextDayRequest p)"
    using healthy_step [OF sample_steps a sample_fresh] by blast
  let ?d = "posted sampleExt sampleDB nextDayRequest p"
  have b: "postable sampleExt ?d feeRequest"
    using sample_accounts
    by (simp add: postable_def feeRequest_def request_int64_def acceptable_def legSum_def validKinds_def
        marshalPostingEvent_def sampleExt_def posted_has in64_iff MinInt64_def sampleRequest_def Known_def registry_def)
  have "PostingIDFor sampleExt (qPrincipal feeRequest) (qKey feeRequest) \<noteq>
      PostingIDFor sampleExt (qPrincipal nextDayRequest) (qKey nextDayRequest)"
    by (simp add: PostingIDFor_def sampleExt_def feeRequest_def nextDayRequest_def sampleRequest_def)
  then have c: "\<not> has_posting ?d (PostingIDFor sampleExt (qPrincipal feeRequest) (qKey feeRequest))"
    using sample_fresh(1) by (simp add: posted_has)
  have e: "\<not> (\<exists>i \<in> set (idempotency ?d). idem_match (qPrincipal feeRequest) (qKey feeRequest) i)"
    using sampleDB_tables
    by (simp add: posted_def Let_def idem_match_def feeRequest_def nextDayRequest_def sampleRequest_def)
  show ?thesis using healthy_step [OF p b c e] by blast
qed

text \<open>The transfer of the sample ledger leaves 500 on account 1.\<close>

lemma sample_At:
  assumes "d = posted sampleExt sampleDB sampleRequest pl"
  shows "At (d\<lparr>holds := hs\<rparr>) 1 dayD t = (let p = (\<Sum>h\<leftarrow>openHolds (d\<lparr>holds := hs\<rparr>) 1 t. minor (hAmount h)) in
    if in64 p then Inr \<lparr>bAccount = 1, bCurrency = ''USD'', bScale = 2, bAsOf = dayD,
      bLedger = 500, bAvailable = sub64 500 p, bPending = p\<rparr> else Inl (ErrBalStore ErrScanRange))"
proof -
  obtain acct where a: "GetAccount (d\<lparr>holds := hs\<rparr>) 1 = Inr acct" "aCurrency acct = ''USD''"
    using GetAccount_sample [of "d\<lparr>holds := hs\<rparr>"] assms by auto
  have "LedgerBalance d 1 dayD = Inr 500"
    by (simp add: assms LedgerBalance_def ledgerBalanceSQL_def latestCheckpoint_def sampleDB_more
        sampleRequest_def dayD_def scan64_def in64_iff)
  with a show ?thesis
    by (simp add: At_def holds_frame OpenHoldTotal_def scan64_def money_New_def MinInt64_def Let_def)
qed

section \<open>Properties\<close>



text \<open>
  Without that order a checkpoint loses an entry for ever: with a posting dated 4 January
  inserted before a fee dated 3 January (both through \<^verbatim>\<open>Post\<close>), the checkpoint of 3 January
  records the fee's entry id as its watermark, and the balance of 4 January, 400 before the
  checkpoint, reads -100 after it.
\<close>

theorem Checkpoint_drops_entry:
  "\<exists>d. ledger_steps sampleExt emptyDB d \<and> watermarks d \<and>
     LedgerBalance d 1 (AddDays dayD 1) = Inr 400 \<and>
     fst (Checkpoint d 1 dayD) = Inr () \<and>
     LedgerBalance (snd (Checkpoint d 1 dayD)) 1 (AddDays dayD 1) = Inr (- 100) \<and>
     trueBalance (snd (Checkpoint d 1 dayD)) 1 (AddDays dayD 1) = 400"
proof -
  obtain p q where r: "ledger_steps sampleExt emptyDB
      (posted sampleExt (posted sampleExt sampleDB nextDayRequest p) feeRequest q)"
    using out_of_order_reachable by blast
  define d where "d = posted sampleExt (posted sampleExt sampleDB nextDayRequest p) feeRequest q"
  have w: "watermarks d" unfolding d_def by (intro posted_watermarks) (simp add: watermarks_def sampleDB_more)
  obtain acct where a: "GetAccount d 1 = Inr acct" "aCurrency acct = ''USD''"
    using GetAccount_sample [of d] by (auto simp: d_def)
  have es: "map (\<lambda>e. (eId e, eAccount e, minor (eAmount e), toDate (eBusinessDate e))) (entries d) =
      [(1, 1, 500, toDate dayE), (2, 2, - 500, toDate dayE), (3, 1, - 100, toDate dayD), (4, 2, 100, toDate dayD)]"
    by (simp add: d_def sampleDB_more nextDayRequest_def feeRequest_def sampleRequest_def dayD_def)
  from map_four [OF this] obtain e1 e2 e3 e4 where E: "entries d = [e1, e2, e3, e4]"
    and f: "eId e1 = 1" "eId e3 = 3" "eAccount e1 = 1" "eAccount e2 = 2" "eAccount e3 = 1" "eAccount e4 = 2"
      "minor (eAmount e1) = 500" "minor (eAmount e3) = - 100"
      "toDate (eBusinessDate e1) = toDate dayE" "toDate (eBusinessDate e3) = toDate dayD"
    unfolding prod.inject by blast
  have none: "checkpoints d = []" by (simp add: d_def sampleDB_more)
  have ne: "(1 :: uuid) \<noteq> 2" by simp
  have hasacc: "has_account d 1" using sample_accounts by (simp add: d_def posted_has)
  have acc: "latestCheckpoint d 1 asOf = None" for asOf by (simp add: latestCheckpoint_def none)
  have b3: "LedgerBalance d 1 dayD = Inr (- 100)"
    using E f day_numbers(1)
    by (simp add: LedgerBalance_def ledgerBalanceSQL_def acc scan64_def in64_iff Let_def)
  have b4: "LedgerBalance d 1 dayE = Inr 400"
    using E f day_numbers(1)
    by (simp add: LedgerBalance_def ledgerBalanceSQL_def acc scan64_def in64_iff Let_def)
  have m: "MaxEntryIDAsOf d 1 dayD = Inr 3" using E f day_numbers(1) by (simp add: MaxEntryIDAsOf_def)
  define c where "c = \<lparr>cAccount = 1, cDate = fromDate (toDate dayD), cCurrency = ''USD'', cBalance = - 100, cLastEntry = 3\<rparr>"
  have C: "Checkpoint d 1 dayD = (Inr (), d\<lparr>checkpoints := [c]\<rparr>)"
    using a hasacc none
    by (simp add: Checkpoint_def b3 m InsertCheckpoint_def char3_def c_def)
  have "LedgerBalance (d\<lparr>checkpoints := [c]\<rparr>) 1 dayE = Inr (- 100)"
    using E f day_numbers(1)
    by (simp add: LedgerBalance_def ledgerBalanceSQL_def latestCheckpoint_def c_def scan64_def in64_iff)
  moreover have "trueBalance (d\<lparr>checkpoints := [c]\<rparr>) 1 dayE = 400"
    using E f day_numbers(1) by (simp add: trueBalance_def upTo_def entrySum_def)
  ultimately show ?thesis using r [folded d_def] w b4 C day_numbers(2) by (intro exI [of _ d]) simp
qed


definition hold400 :: Amount where
  "hold400 = \<lparr>minor = 400, currency = ''USD'', scale = 2\<rparr>"

lemma sample_no_holds: "d = posted sampleExt sampleDB sampleRequest pl \<Longrightarrow> d\<lparr>holds := []\<rparr> = d"
  by (simp add: sampleDB_more posted_def Let_def)

lemma sample_At_empty:
  assumes "d = posted sampleExt sampleDB sampleRequest pl"
  shows "At d 1 dayD 0 = Inr \<lparr>bAccount = 1, bCurrency = ''USD'', bScale = 2, bAsOf = dayD,
      bLedger = 500, bAvailable = 500, bPending = 0\<rparr>"
proof -
  have "At (d\<lparr>holds := []\<rparr>) 1 dayD 0 = Inr \<lparr>bAccount = 1, bCurrency = ''USD'', bScale = 2, bAsOf = dayD,
      bLedger = 500, bAvailable = 500, bPending = 0\<rparr>"
    using sample_At [OF assms, of "[]" 0] by (simp add: openHolds_def in64_iff sub64_def)
  then show ?thesis unfolding sample_no_holds [OF assms] .
qed

lemma sample_check:
  assumes "d = posted sampleExt sampleDB sampleRequest pl"
  shows "PlaceHold_check d new 1 hold400 0 dayD = Inr \<lparr>hId = new, hAccount = 1, hAmount = hold400,
    hPlacedAt = 0, hExpiresAt = HoldDuration, hReleasedAt = None, hReleaseKind = None\<rparr>"
  using sample_At_empty [OF assms] by (simp add: PlaceHold_check_def hold400_def)

lemma sample_insert:
  assumes "d = posted sampleExt sampleDB sampleRequest pl" "hAccount h = 1" "hAmount h = hold400"
    and "hReleasedAt h = None" "hReleaseKind h = None" "\<forall>x \<in> set hs. hId x \<noteq> hId h"
  shows "PlaceHold_insert (d\<lparr>holds := hs\<rparr>) h = (Inr h, d\<lparr>holds := hs @ [h]\<rparr>)"
proof -
  have "has_account (d\<lparr>holds := hs\<rparr>) 1" using sample_accounts by (simp add: assms(1) posted_has)
  moreover have "h\<lparr>hAmount := (hAmount h)\<lparr>currency := ''USD''\<rparr>, hReleasedAt := None, hReleaseKind := None\<rparr> = h"
    using assms(3-5) by (cases h) (simp add: hold400_def)
  ultimately show ?thesis
    using assms(2,3,6) by (auto simp: PlaceHold_insert_def InsertHold_def hold400_def char3_def)
qed


text \<open>
  The check and the insertion of \<^verbatim>\<open>PlaceHold\<close> are two statements outside a transaction: two
  clients that both check before either inserts each hold 400 of the 500 available, both
  calls succeed, and the available balance becomes negative.
\<close>

theorem PlaceHold_race:
  "\<exists>d h1 h2 d1 d2 b. ledger_steps sampleExt emptyDB d \<and>
     PlaceHold_check d 7 1 hold400 0 dayD = Inr h1 \<and> PlaceHold_check d 8 1 hold400 0 dayD = Inr h2 \<and>
     PlaceHold_insert d h1 = (Inr h1, d1) \<and> PlaceHold_insert d1 h2 = (Inr h2, d2) \<and>
     At d2 1 dayD 0 = Inr b \<and> bLedger b = 500 \<and> bAvailable b = - 300"
proof -
  obtain pl where r: "ledger_steps sampleExt emptyDB (posted sampleExt sampleDB sampleRequest pl)"
    using healthy_step [OF sample_steps sample_postable sample_fresh] by blast
  define d where "d = posted sampleExt sampleDB sampleRequest pl"
  define h where "h i = \<lparr>hId = i, hAccount = 1, hAmount = hold400, hPlacedAt = 0, hExpiresAt = HoldDuration,
    hReleasedAt = None, hReleaseKind = None\<rparr>" for i
  have c: "PlaceHold_check d i 1 hold400 0 dayD = Inr (h i)" for i
    using sample_check [OF d_def, of i] by (simp add: h_def)
  note d = sample_no_holds [OF d_def]
  have i1: "PlaceHold_insert d (h 7) = (Inr (h 7), d\<lparr>holds := [h 7]\<rparr>)"
    using sample_insert [OF d_def, of "h 7" "[]"] d by (simp add: h_def)
  have i2: "PlaceHold_insert (d\<lparr>holds := [h 7]\<rparr>) (h 8) = (Inr (h 8), d\<lparr>holds := [h 7, h 8]\<rparr>)"
    using sample_insert [OF d_def, of "h 8" "[h 7]"] by (simp add: h_def)
  have "openHolds (d\<lparr>holds := [h 7, h 8]\<rparr>) 1 0 = [h 7, h 8]"
    by (simp add: openHolds_def h_def HoldDuration_def)
  then have "At (d\<lparr>holds := [h 7, h 8]\<rparr>) 1 dayD 0 = Inr \<lparr>bAccount = 1, bCurrency = ''USD'', bScale = 2,
      bAsOf = dayD, bLedger = 500, bAvailable = - 300, bPending = 800\<rparr>"
    using sample_At [OF d_def, of "[h 7, h 8]" 0] by (simp add: h_def hold400_def in64_iff sub64_def wrap64_def)
  with r c i1 i2 show ?thesis
    unfolding d_def [symmetric] by (intro exI conjI) (assumption | simp)+
qed

text \<open>
  Hold expiry is exact and silent: a hold counts against the available balance from its
  placement up to but excluding 72 hours later unless released before, and \<^verbatim>\<open>ExpireDue\<close>
  changes no account's pending figure at its own instant or any later one.
\<close>

theorem ExpireDue_transparent:
  assumes "at \<le> t"
  shows "OpenHoldTotal (snd (ExpireDue d at)) a t = OpenHoldTotal d a t \<and>
    (\<forall>new amt h d'. PlaceHold d new a amt at asOf = (Inr h, d') \<longrightarrow>
      (openHolds d' a t \<noteq> openHolds d a t \<longleftrightarrow> t < at + 72 * 3600 * 1000000000))"
proof (intro conjI allI impI)
  show "OpenHoldTotal (snd (ExpireDue d at)) a t = OpenHoldTotal d a t"
    by (simp add: ExpireDue_def OpenHoldTotal_def openHolds_expired [OF assms])
  fix new amt h d' assume "PlaceHold d new a amt at asOf = (Inr h, d')"
  from PlaceHold_Inr [OF this] obtain cur where
    "h = \<lparr>hId = new, hAccount = a, hAmount = amt, hPlacedAt = at, hExpiresAt = at + HoldDuration,
      hReleasedAt = None, hReleaseKind = None\<rparr>"
    "d' = d\<lparr>holds := holds d @ [h\<lparr>hAmount := amt\<lparr>currency := cur\<rparr>\<rparr>]\<rparr>" by blast
  then show "openHolds d' a t \<noteq> openHolds d a t \<longleftrightarrow> t < at + 72 * 3600 * 1000000000"
    by (simp add: openHolds_insert HoldDuration_def)
qed

theorem ExpireDue_transparent_witness:
  "(0 :: int) \<le> HoldDuration \<and>
   OpenHoldTotal (snd (ExpireDue (sampleDB\<lparr>holds := [\<lparr>hId = 7, hAccount = 1, hAmount = hold400, hPlacedAt = 0,
     hExpiresAt = HoldDuration, hReleasedAt = None, hReleaseKind = None\<rparr>]\<rparr>) 0)) 1 HoldDuration = Inr 0"
proof -
  have "(0 :: int) \<le> HoldDuration" by (simp add: HoldDuration_def)
  from ExpireDue_transparent [OF this, of "sampleDB\<lparr>holds := [\<lparr>hId = 7, hAccount = 1, hAmount = hold400, hPlacedAt = 0,
     hExpiresAt = HoldDuration, hReleasedAt = None, hReleaseKind = None\<rparr>]\<rparr>" 1 dayD] this
  show ?thesis by (simp add: OpenHoldTotal_def openHolds_def scan64_def in64_iff)
qed

end
