(* ===== verification/Accrual.thy ===== *)
theory Accrual
  imports Balance Daycount Calendar
begin

text \<open>
  The package \<^verbatim>\<open>internal/ledger/accrual\<close>: the product catalogue, interest and fees, and the
  end-of-day run with its four phases. The engine's posting service is a parameter of the
  definitions, as it is a field of the source's \<^verbatim>\<open>Engine\<close>; the calendar is threaded because its
  cache is state, and a run is an option because the calendar's search is.
\<close>

section \<open>Products\<close>

record Product =
  Code :: string
  RateBP :: int
  MonthlyFeeMinor :: int
  MinBalanceMinor :: int
  MinBalanceFeeMinor :: int
  prodCurrency :: string

definition Products :: "string \<rightharpoonup> Product" where
  "Products = [
     ''CHK-01'' \<mapsto> \<lparr>Code = ''CHK-01'', RateBP = 0, MonthlyFeeMinor = 500, MinBalanceMinor = 100000,
       MinBalanceFeeMinor = 1200, prodCurrency = ''USD''\<rparr>,
     ''SAV-01'' \<mapsto> \<lparr>Code = ''SAV-01'', RateBP = 325, MonthlyFeeMinor = 0, MinBalanceMinor = 0,
       MinBalanceFeeMinor = 0, prodCurrency = ''USD''\<rparr>,
     ''CHK-JPY'' \<mapsto> \<lparr>Code = ''CHK-JPY'', RateBP = 0, MonthlyFeeMinor = 300, MinBalanceMinor = 0,
       MinBalanceFeeMinor = 0, prodCurrency = ''JPY''\<rparr>,
     ''SUSPENSE'' \<mapsto> \<lparr>Code = ''SUSPENSE'', RateBP = 0, MonthlyFeeMinor = 0, MinBalanceMinor = 0,
       MinBalanceFeeMinor = 0, prodCurrency = ''USD''\<rparr>]"

section \<open>Interest and fees\<close>

type_synonym poster = "db \<Rightarrow> Request \<Rightarrow> (post_error + Result) \<times> db"

datatype acc_error =
    ErrClaimEOD store_error
  | ErrExpireHolds store_error
  | ErrListAccounts store_error
  | ErrAccrualBalance store_error
  | ErrFeeBalance bal_error
  | ErrAccrualPost post_error
  | ErrInterestPanic go_panic
  | ErrCheckpoint store_error
  | ErrFinishEOD store_error

record Report =
  repBusinessDate :: string
  HoldsExpired :: nat
  InterestPosted :: nat
  FeesPosted :: nat
  Checkpoints :: nat
  InterestMinor :: int
  FeeMinor :: int
  DurationSeconds :: string

definition basisPointDenominator :: int where
  "basisPointDenominator = 10000"

definition isMonthEnd :: "BusinessDate \<Rightarrow> bool" where
  "isMonthEnd d \<longleftrightarrow> month (AddDays d 1) \<noteq> month d"

definition InterestFor :: "int \<Rightarrow> int \<Rightarrow> int \<Rightarrow> go_panic + int" where
  "InterestFor dailyBalanceSum rateBP den =
     (if rateBP = 0 \<or> dailyBalanceSum = 0 then Inr 0
      else RoundHalfEven (mul64 dailyBalanceSum rateBP) (mul64 basisPointDenominator den))"

definition suspenseNamespace :: uuid where
  "suspenseNamespace = 0x9c4e5b1827f35a6db0e41d7f8c3a5b92"

definition suspenseFor :: "ext \<Rightarrow> string \<Rightarrow> uuid" where
  "suspenseFor x cur = newSHA1 x suspenseNamespace (''suspense/'' @ cur)"

definition suspenseRequest ::
  "ext \<Rightarrow> Account \<Rightarrow> int \<Rightarrow> string \<Rightarrow> BusinessDate \<Rightarrow> string \<Rightarrow> Request" where
  "suspenseRequest x a amountMinor kind d idemKey =
     \<lparr>qPrincipal = ''eod'', qKey = idemKey, qKind = kind, qCurrency = aCurrency a,
      qBusinessDate = d, qValueDate = d, qPostedAt = bd_time d + 16 * 3600 * 1000000000, qReverses = None,
      qEntries = [\<lparr>qAccount = aId a, qAmountMinor = amountMinor\<rparr>,
                  \<lparr>qAccount = suspenseFor x (aCurrency a), qAmountMinor = neg64 amountMinor\<rparr>]\<rparr>"

definition postAgainstSuspense ::
  "ext \<Rightarrow> poster \<Rightarrow> db \<Rightarrow> Account \<Rightarrow> int \<Rightarrow> string \<Rightarrow> BusinessDate \<Rightarrow> string \<Rightarrow> (acc_error + unit) \<times> db" where
  "postAgainstSuspense x post d a amountMinor kind bd idemKey =
     attempt (post d (suspenseRequest x a amountMinor kind bd idemKey))
       (\<lambda>e d'. (Inl (ErrAccrualPost e), d')) (\<lambda>_ d'. (Inr (), d'))"

text \<open>The sum of the positive daily balances from \<open>d\<close> to \<open>stop\<close>.\<close>

function balanceSum :: "db \<Rightarrow> uuid \<Rightarrow> BusinessDate \<Rightarrow> BusinessDate \<Rightarrow> int \<Rightarrow> store_error + int" where
  "balanceSum db a d stop acc =
     (if After d stop then Inr acc
      else case LedgerBalance db a d of
        Inl e \<Rightarrow> Inl e
      | Inr bal \<Rightarrow> balanceSum db a (AddDays d 1) stop (if bal > 0 then add64 acc bal else acc))"
  by pat_completeness auto

termination
  by (relation "measure (\<lambda>(db, a, d, stop, acc). nat (bd_days stop - bd_days d + 1))")
    (auto simp: After_iff)

declare balanceSum.simps [simp del]

definition interestKey :: "Account \<Rightarrow> BusinessDate \<Rightarrow> string" where
  "interestKey a first = ''interest/'' @ uuid_String (aId a) @ ''/'' @ fmt_0d 4 (year first) @ ''-'' @ fmt_0d 2 (month first)"

fun postInterest_loop ::
  "ext \<Rightarrow> poster \<Rightarrow> BusinessDate \<Rightarrow> BusinessDate \<Rightarrow> BusinessDate \<Rightarrow> int \<Rightarrow> db \<Rightarrow> Account list \<Rightarrow> nat \<Rightarrow> int \<Rightarrow>
   (acc_error + nat \<times> int) \<times> db" where
  "postInterest_loop x post calendarFirst first prevMonthEnd den d [] count net = (Inr (count, net), d)"
| "postInterest_loop x post calendarFirst first prevMonthEnd den d (a # as) count net =
     (case Products (aProductCode a) of
        None \<Rightarrow> postInterest_loop x post calendarFirst first prevMonthEnd den d as count net
      | Some p \<Rightarrow>
          if RateBP p = 0 then postInterest_loop x post calendarFirst first prevMonthEnd den d as count net
          else case balanceSum d (aId a) first prevMonthEnd 0 of
            Inl e \<Rightarrow> (Inl (ErrAccrualBalance e), d)
          | Inr s \<Rightarrow> (case InterestFor s (RateBP p) den of
              Inl pan \<Rightarrow> (Inl (ErrInterestPanic pan), d)
            | Inr amount \<Rightarrow>
                if amount = 0 then postInterest_loop x post calendarFirst first prevMonthEnd den d as count net
                else attempt (postAgainstSuspense x post d a amount ''interest'' calendarFirst (interestKey a first))
                  (\<lambda>e d'. (Inl e, d'))
                  (\<lambda>_ d'. postInterest_loop x post calendarFirst first prevMonthEnd den d' as
                     (Suc count) (add64 net amount))))"

definition postInterest ::
  "ext \<Rightarrow> poster \<Rightarrow> db \<Rightarrow> Account list \<Rightarrow> BusinessDate \<Rightarrow> (acc_error + nat \<times> int) \<times> db" where
  "postInterest x post d as postOn =
     (let calendarFirst = FirstOfMonth (year postOn) (month postOn);
          prevMonthEnd = AddDays calendarFirst (- 1);
          first = Date (year prevMonthEnd) (month prevMonthEnd) 1;
          basis = BasisFor first;
          den = snd (DayCountFraction first (AddDays first 1) basis)
      in postInterest_loop x post calendarFirst first prevMonthEnd den d as 0 0)"

text \<open>The fee of one account: the monthly fee, and the minimum-balance fee on the available balance.\<close>

definition feeFor :: "db \<Rightarrow> Account \<Rightarrow> Product \<Rightarrow> BusinessDate \<Rightarrow> int \<Rightarrow> acc_error + int" where
  "feeFor d a p bd now =
     (if MinBalanceFeeMinor p > 0
      then case At d (aId a) bd now of
        Inl e \<Rightarrow> Inl (ErrFeeBalance e)
      | Inr b \<Rightarrow> Inr (if bAvailable b < MinBalanceMinor p
                     then add64 (MonthlyFeeMinor p) (MinBalanceFeeMinor p) else MonthlyFeeMinor p)
      else Inr (MonthlyFeeMinor p))"

definition feeKey :: "Account \<Rightarrow> BusinessDate \<Rightarrow> string" where
  "feeKey a d = ''fee/'' @ uuid_String (aId a) @ ''/'' @ BusinessDate_String d"

fun postFees ::
  "ext \<Rightarrow> poster \<Rightarrow> BusinessDate \<Rightarrow> int \<Rightarrow> db \<Rightarrow> Account list \<Rightarrow> nat \<Rightarrow> int \<Rightarrow> (acc_error + nat \<times> int) \<times> db" where
  "postFees x post bd now d [] count net = (Inr (count, net), d)"
| "postFees x post bd now d (a # as) count net =
     (case Products (aProductCode a) of
        None \<Rightarrow> postFees x post bd now d as count net
      | Some p \<Rightarrow> (case feeFor d a p bd now of
          Inl e \<Rightarrow> (Inl e, d)
        | Inr fee \<Rightarrow>
            if fee = 0 then postFees x post bd now d as count net
            else attempt (postAgainstSuspense x post d a (neg64 fee) ''fee'' bd (feeKey a bd))
              (\<lambda>e d'. (Inl e, d'))
              (\<lambda>_ d'. postFees x post bd now d' as (Suc count) (add64 net fee))))"

section \<open>End of day\<close>

fun checkpointAll :: "BusinessDate \<Rightarrow> db \<Rightarrow> Account list \<Rightarrow> nat \<Rightarrow> (acc_error option \<times> nat) \<times> db" where
  "checkpointAll bd d [] n = ((None, n), d)"
| "checkpointAll bd d (a # as) n =
     attempt (Checkpoint d (aId a) bd)
       (\<lambda>e d'. if IsUniqueViolation e [] then checkpointAll bd d' as n else ((Some (ErrCheckpoint e), n), d'))
       (\<lambda>_ d'. checkpointAll bd d' as (Suc n))"

definition intString :: "int \<Rightarrow> string" where
  "intString n = fmt_0d 1 n"

definition reportJSON :: "Report \<Rightarrow> string" where
  "reportJSON r = ''{'' @ CHR 34 # ''business_date'' @ CHR 34 # '':'' @ CHR 34 # repBusinessDate r @ CHR 34 # '','' @
     CHR 34 # ''holds_expired'' @ CHR 34 # '':'' @ intString (int (HoldsExpired r)) @ '','' @
     CHR 34 # ''interest_posted'' @ CHR 34 # '':'' @ intString (int (InterestPosted r)) @ '','' @
     CHR 34 # ''fees_posted'' @ CHR 34 # '':'' @ intString (int (FeesPosted r)) @ '','' @
     CHR 34 # ''checkpoints'' @ CHR 34 # '':'' @ intString (int (Checkpoints r)) @ '','' @
     CHR 34 # ''interest_minor_total'' @ CHR 34 # '':'' @ intString (InterestMinor r) @ '','' @
     CHR 34 # ''fee_minor_total'' @ CHR 34 # '':'' @ intString (FeeMinor r) @ '','' @
     CHR 34 # ''duration'' @ CHR 34 # '':'' @ CHR 34 # DurationSeconds r @ CHR 34 # ''}''"

text \<open>
  The run, with the elapsed time \<open>dur\<close> it reports. The phases are separate transactions on the
  pool: the first error returns with everything done so far committed.
\<close>

definition Run ::
  "ext \<Rightarrow> poster \<Rightarrow> USFederal \<Rightarrow> db \<Rightarrow> BusinessDate \<Rightarrow> int \<Rightarrow> string \<Rightarrow>
   ((Report \<times> acc_error option) \<times> db \<times> USFederal) option" where
  "Run x post cal d bd now dur =
    (let rep = \<lparr>repBusinessDate = BusinessDate_String bd, HoldsExpired = 0, InterestPosted = 0, FeesPosted = 0,
           Checkpoints = 0, InterestMinor = 0, FeeMinor = 0, DurationSeconds = []\<rparr> in
    attempt (ClaimEODRun d bd) (\<lambda>e d'. Some ((rep, Some (ErrClaimEOD e)), d', cal)) (\<lambda>_ d1.
    attempt (ExpireDue d1 now) (\<lambda>e d'. Some ((rep, Some (ErrExpireHolds e)), d', cal)) (\<lambda>expired d2.
    let rep = rep\<lparr>HoldsExpired := expired\<rparr> in
    case AllAccounts d2 of Inl e \<Rightarrow> Some ((rep, Some (ErrListAccounts e)), d2, cal) | Inr as \<Rightarrow>
    case FirstBusinessDayOfMonth cal (year bd) (month bd) of None \<Rightarrow> None | Some (fb, cal') \<Rightarrow>
    attempt (if Equal bd fb then postInterest x post d2 as bd else (Inr (0, 0), d2))
      (\<lambda>e d'. Some ((rep, Some e), d', cal')) (\<lambda>nt d3.
    let rep = rep\<lparr>InterestPosted := fst nt, InterestMinor := snd nt\<rparr> in
    attempt (if isMonthEnd bd then postFees x post bd now d3 as 0 0 else (Inr (0, 0), d3))
      (\<lambda>e d'. Some ((rep, Some e), d', cal')) (\<lambda>nt d4.
    let rep = rep\<lparr>FeesPosted := fst nt, FeeMinor := snd nt\<rparr>;
        c = checkpointAll bd d4 as 0;
        rep = rep\<lparr>Checkpoints := snd (fst c)\<rparr>; d5 = snd c
    in case fst (fst c) of Some e \<Rightarrow> Some ((rep, Some e), d5, cal') | None \<Rightarrow>
    let rep = rep\<lparr>DurationSeconds := dur\<rparr> in
    attempt (FinishEODRun d5 bd (reportJSON rep))
      (\<lambda>e d'. Some ((rep, Some (ErrFinishEOD e)), d', cal'))
      (\<lambda>_ d'. Some ((rep, None), d', cal')))))))"

section \<open>The engine keeps every ledger invariant\<close>

lemma suspense_int64: "in64 n \<Longrightarrow> request_int64 (suspenseRequest x a n k bd key)"
  by (simp add: request_int64_def suspenseRequest_def neg64_def)

lemma RoundHalfEven_in64: "RoundHalfEven n d = Inr q \<Longrightarrow> in64 q"
  by (auto simp: RoundHalfEven_def Let_def quot64_def add64_def neg64_def split: if_splits prod.splits)

lemma InterestFor_in64: "InterestFor s r den = Inr q \<Longrightarrow> in64 q"
  by (auto simp: InterestFor_def in64_iff [of 0] split: if_splits dest: RoundHalfEven_in64)

lemma snd_attempt:
  assumes "P (snd m)" "\<And>e s. P s \<Longrightarrow> P (snd (f e s))" "\<And>a s. P s \<Longrightarrow> P (snd (g a s))"
  shows "P (snd (attempt m f g))"
  using assms by (simp add: attempt_def split: sum.split)

lemma Checkpoint_snd:
  "snd (Checkpoint d a bd) = d \<or> (\<exists>cur bal n. snd (Checkpoint d a bd) = snd (exec (SInsertCheckpoint a bd cur bal n) d))"
  by (auto simp: Checkpoint_def split: sum.split)

definition ends_in :: "(db \<Rightarrow> bool) \<Rightarrow> ('r \<times> db \<times> 'c) option \<Rightarrow> bool" where
  "ends_in P r \<longleftrightarrow> (case r of None \<Rightarrow> True | Some (_, d, _) \<Rightarrow> P d)"

lemma ends_in_attempt:
  assumes "P (snd m)" "\<And>e s. P s \<Longrightarrow> ends_in P (f e s)" "\<And>a s. P s \<Longrightarrow> ends_in P (g a s)"
  shows "ends_in P (attempt m f g)"
  using assms by (simp add: attempt_def split: sum.split)

lemma ends_in_Some [simp]: "ends_in P (Some (r, d, c)) \<longleftrightarrow> P d"
  by (simp add: ends_in_def)

lemma ends_in_None [simp]: "ends_in P None"
  by (simp add: ends_in_def)

context ledger_service
begin

lemma checkpoint_keeps: "ok d \<Longrightarrow> ok (snd (Checkpoint d a bd))"
  using Checkpoint_snd [of d a bd] other_keeps by (auto simp: side_def simp del: exec.simps)

lemma suspense_keeps: "ok d \<Longrightarrow> in64 n \<Longrightarrow> ok (snd (postAgainstSuspense x post d a n k bd key))"
  unfolding postAgainstSuspense_def by (intro snd_attempt [of ok]) (simp_all add: post_keeps suspense_int64)

lemma interest_keeps: "ok d \<Longrightarrow> ok (snd (postInterest_loop x post cf fi pe den d as n t))"
proof (induction as arbitrary: d n t)
  case (Cons a as)
  show ?case
  proof (cases "Products (aProductCode a)")
    case (Some p)
    show ?thesis
    proof (cases "RateBP p = 0 \<or> (\<exists>e. balanceSum d (aId a) fi pe 0 = Inl e)")
      case False
      then obtain s where s: "balanceSum d (aId a) fi pe 0 = Inr s"
        by (cases "balanceSum d (aId a) fi pe 0") auto
      show ?thesis
      proof (cases "InterestFor s (RateBP p) den")
        case (Inr q)
        have "ok (snd (attempt (postAgainstSuspense x post d a q ''interest'' cf (interestKey a fi))
            (\<lambda>e d'. (Inl e, d')) (\<lambda>_ d'. postInterest_loop x post cf fi pe den d' as (Suc n) (add64 t q))))"
          using Cons suspense_keeps InterestFor_in64 [OF Inr] by (intro snd_attempt [of ok]) simp_all
        with Cons Some False s Inr show ?thesis by simp
      qed (use Cons Some False s in simp)
    qed (use Cons Some in auto)
  qed (use Cons in simp)
qed simp

lemma fees_keeps: "ok d \<Longrightarrow> ok (snd (postFees x post bd now d as n t))"
proof (induction as arbitrary: d n t)
  case (Cons a as)
  show ?case
  proof (cases "Products (aProductCode a)")
    case (Some p)
    show ?thesis
    proof (cases "feeFor d a p bd now")
      case (Inr fee)
      have "ok (snd (attempt (postAgainstSuspense x post d a (neg64 fee) ''fee'' bd (feeKey a bd))
          (\<lambda>e d'. (Inl e, d')) (\<lambda>_ d'. postFees x post bd now d' as (Suc n) (add64 t fee))))"
        using Cons suspense_keeps [of d "neg64 fee"] by (intro snd_attempt [of ok]) (simp_all add: neg64_def)
      with Cons Some Inr show ?thesis by simp
    qed (use Cons Some in simp)
  qed (use Cons in simp)
qed simp

lemma checkpoints_keeps: "ok d \<Longrightarrow> ok (snd (checkpointAll bd d as n))"
proof (induction as arbitrary: d n)
  case (Cons a as)
  have "ok (snd (attempt (Checkpoint d (aId a) bd)
       (\<lambda>e d'. if IsUniqueViolation e [] then checkpointAll bd d' as n else ((Some (ErrCheckpoint e), n), d'))
       (\<lambda>_ d'. checkpointAll bd d' as (Suc n))))"
    using Cons checkpoint_keeps by (intro snd_attempt [of ok]) simp_all
  then show ?case by simp
qed simp

lemma claim_keeps: "ok d \<Longrightarrow> ok (snd (ClaimEODRun d bd))"
  using other_keeps [of d "SClaimEODRun bd"] by (simp add: side_def)

lemma expire_keeps: "ok d \<Longrightarrow> ok (snd (ExpireDue d now))"
  using other_keeps [of d "SExpireHoldsAsOf now"] by (simp add: side_def ExpireDue_def)

lemma finish_keeps: "ok d \<Longrightarrow> ok (snd (FinishEODRun d bd ph))"
  using other_keeps [of d "SFinishEODRun bd ph"] by (simp add: side_def)

lemma run_keeps_claimed: "ok (snd (ClaimEODRun d bd)) \<Longrightarrow> ends_in ok (Run x post cal d bd now dur)"
  unfolding Run_def Let_def
  by (intro ends_in_attempt)
    (auto intro!: ends_in_attempt expire_keeps finish_keeps checkpoints_keeps fees_keeps interest_keeps
      simp: postInterest_def Let_def split: sum.split option.split)

lemma run_keeps: "ok d \<Longrightarrow> ends_in ok (Run x post cal d bd now dur)"
  by (rule run_keeps_claimed) (rule claim_keeps)

end

text \<open>A second reading of the contract: the claim of a date, once made, stays.\<close>

definition claimed :: "BusinessDate \<Rightarrow> db \<Rightarrow> bool" where
  "claimed bd d \<longleftrightarrow> (\<exists>r \<in> set (eod_runs d). toDate (rDate r) = toDate bd)"

lemma Post_eod: "eod_runs (snd (Post x w d r)) = eod_runs d"
proof -
  obtain res d' where P: "Post x w d r = (res, d')" by force
  then show ?thesis
  proof (cases rule: Post_cases)
    case (error e)
    with P show ?thesis by (auto simp: unchanged_untouched untouched_def)
  qed (use P in auto)
qed

lemma exec_claimed: "claimed bd d \<Longrightarrow> claimed bd (snd (exec s d))"
proof (cases s)
  case (SInsertEntries es)
  have "InsertEntries d es ids = (r, d') \<Longrightarrow> eod_runs d' = eod_runs d" for d ids r d'
  proof (induction d es ids rule: InsertEntries.induct)
    case (2 d e es ids)
    obtain r1 d1 where 1: "InsertEntry d e = (r1, d1)" by force
    with 2 InsertEntry_frame(8) [OF 1] show ?case by (cases r1) auto
  qed simp
  from this [of d "[]"] SInsertEntries show "claimed bd d \<Longrightarrow> claimed bd (snd (exec s d))"
    by (metis claimed_def exec.simps(5) prod.collapse snd_forget)
next
  case (SFinishEODRun bd' ph)
  have c: "claimed bd e \<longleftrightarrow> toDate bd \<in> set (map (\<lambda>r. toDate (rDate r)) (eod_runs e))" for e
    unfolding claimed_def set_map image_iff by metis
  show "claimed bd d \<Longrightarrow> claimed bd (snd (exec s d))"
    unfolding c SFinishEODRun exec.simps FinishEODRun_def by (simp add: eod_upd del: map_map set_map)
qed (auto simp: claimed_def exec_defs Let_def split: option.splits)

interpretation eod: ledger_service "claimed bd" "\<lambda>d r. Post x (ws d r) d r" for bd x ws
  by unfold_locales (simp_all add: claimed_def [of _ "snd (Post _ _ _ _)"] Post_eod claimed_def [symmetric] exec_claimed)

lemma ClaimEODRun_claimed: "claimed bd (snd (ClaimEODRun d bd))"
  by (auto simp: ClaimEODRun_def claimed_def)

definition returns :: "'a option \<Rightarrow> bool" where
  "returns r \<longleftrightarrow> r \<noteq> None"

lemma returns_simps [simp]: "returns (Some a)" "\<not> returns None"
  by (simp_all add: returns_def)

lemma returns_attempt:
  "(\<And>e s. returns (f e s)) \<Longrightarrow> (\<And>a s. returns (g a s)) \<Longrightarrow> returns (attempt m f g)"
  by (simp add: attempt_def split: sum.split)

lemma FirstBusinessDayOfMonth_returns:
  assumes "cache_ok c"
  shows "\<exists>fb c'. FirstBusinessDayOfMonth c y m = Some (fb, c')"
proof -
  obtain c' where "IsBusinessDay c (Date y m 1) = (businessDay (Date y m 1), c')" "cache_ok c'"
    using IsBusinessDay_ok [OF assms] by metis
  with NextBusinessDay_char [of c' "Date y m 1"] show ?thesis by (auto simp: FirstBusinessDayOfMonth_def Let_def)
qed

lemma Run_returns:
  assumes "cache_ok cal"
  shows "returns (Run x post cal d bd now dur)"
proof -
  obtain fb c' where f: "FirstBusinessDayOfMonth cal (year bd) (month bd) = Some (fb, c')"
    using FirstBusinessDayOfMonth_returns [OF assms] by blast
  show ?thesis
    unfolding Run_def Let_def f option.case prod.case
    by (intro returns_attempt) (auto split: sum.split option.split intro!: returns_attempt)
qed

section \<open>Month ends\<close>

lemma isMonthEnd_iff:
  assumes "valid_date d"
  shows "isMonthEnd d \<longleftrightarrow> day d = daysIn (month d) (year d)"
proof (cases "day d = daysIn (month d) (year d)")
  case False
  obtain y m n where d: "d = BusinessDate y m n" by (cases d)
  with False assms have "valid_date (BusinessDate y m (n + 1))" by (simp add: valid_date_def)
  with d False show ?thesis by (simp add: isMonthEnd_def AddDays_in_month)
next
  case True
  obtain y m n where d: "d = BusinessDate y m n" by (cases d)
  have m: "1 \<le> m" "m \<le> 12" using assms d by (simp_all add: valid_date_def)
  have n: "n = daysIn m y" using True d by simp
  have "time_days y m (n + 1) = time_days y (m + 1) 1"
    unfolding n using month_cases [OF m]
    by (elim disjE) (simp_all add: time_days_def daysIn_def daysSinceEpoch_Suc DaysInYear_def)
  then have e: "AddDays d 1 = Date y (m + 1) 1" by (simp add: AddDays_def Date_def d)
  show ?thesis
  proof (cases "m = 12")
    case False
    with m have "valid_date (BusinessDate y (m + 1) 1)" by (intro valid_first_28) auto
    with e d n show ?thesis by (simp add: isMonthEnd_def)
  next
    case T: True
    have "time_days y 13 1 = time_days (y + 1) 1 1" by (simp add: time_days_def)
    moreover have "valid_date (BusinessDate (y + 1) 1 1)" by (intro valid_first_28) auto
    ultimately have "Date y 13 1 = BusinessDate (y + 1) 1 1" using Date_valid [of "y + 1" 1 1] by (simp add: Date_def)
    with e d n T show ?thesis by (simp add: isMonthEnd_def)
  qed
qed

section \<open>Properties\<close>

text \<open>
  C28. The end-of-day run returns and keeps the books: from any well-formed ledger and whatever
  connection failures its postings meet, \<^verbatim>\<open>Run\<close> ends, with a report or with an error part-way,
  in a ledger in which every posting and every currency still sums to zero and every
  idempotency row is complete.
\<close>

theorem Run_keeps_books:
  assumes "cache_ok cal" "ledger_ok x d"
  shows "\<exists>rep err d' cal'. Run x (\<lambda>d r. Post x (ws d r) d r) cal d bd now dur = Some ((rep, err), d', cal') \<and>
    ledger_ok x d'"
proof -
  let ?run = "Run x (\<lambda>d r. Post x (ws d r) d r) cal d bd now dur"
  have "returns ?run" by (rule Run_returns [OF assms(1)])
  then obtain rep err d' cal' where r: "?run = Some ((rep, err), d', cal')" by (auto simp: returns_def)
  moreover have "ends_in (ledger_ok x) ?run" by (rule svc.run_keeps [OF assms(2)])
  ultimately show ?thesis by auto
qed

theorem Run_keeps_books_witness:
  "\<exists>rep err d' cal'. Run sampleExt (\<lambda>d r. Post sampleExt sampleWorld d r) (NewUSFederal None) sampleDB
     (BusinessDate 2028 1 31) 0 [] = Some ((rep, err), d', cal') \<and> ledger_ok sampleExt d'"
  using Run_keeps_books [of "NewUSFederal None" sampleExt sampleDB "\<lambda>_ _. sampleWorld"]
    steps_ok [OF sample_steps ledger_ok_empty] by simp





text \<open>
  Fees depend on the calendar in a way end-of-day runs on business days do not meet:
  \<^verbatim>\<open>isMonthEnd\<close> is the last calendar day of the month, so in a month that ends on a weekend,
  such as April 2028, no business day triggers the fee phase and no fee is charged.
\<close>

theorem fees_skipped_on_weekend_month_end:
  assumes "valid_date d" "year d = 2028" "month d = 4" "businessDay d"
  shows "\<not> isMonthEnd d \<and> isMonthEnd (BusinessDate 2028 4 30)"
proof
  have v: "valid_date (BusinessDate 2028 4 30)" by (simp add: valid_date_def daysIn_def)
  show "isMonthEnd (BusinessDate 2028 4 30)" by (simp add: isMonthEnd_iff [OF v] daysIn_def)
  have "weekday (BusinessDate 2028 4 30) = Sunday" by code_simp
  with assms(2-4) have "day d \<noteq> 30" by (cases d) (auto simp: businessDay_def)
  then show "\<not> isMonthEnd d" using assms by (simp add: isMonthEnd_iff daysIn_def)
qed

theorem fees_skipped_on_weekend_month_end_witness:
  "valid_date (BusinessDate 2028 4 28) \<and> businessDay (BusinessDate 2028 4 28) \<and> \<not> isMonthEnd (BusinessDate 2028 4 28)"
proof -
  have v: "valid_date (BusinessDate 2028 4 28)" by (simp add: valid_date_def daysIn_def)
  have b: "businessDay (BusinessDate 2028 4 28)" by code_simp
  show ?thesis using v b fees_skipped_on_weekend_month_end [OF v _ _ b] by simp
qed

end
