(* ===== verification/Broker.thy ===== *)
theory Broker
  imports Prelude "HOL-Library.List_Lexorder" "HOL-Library.Char_ord"
begin

text \<open>
  The package \<^verbatim>\<open>internal/broker\<close>: records, the two interfaces \<^verbatim>\<open>Producer\<close> and \<^verbatim>\<open>Consumer\<close>, and
  the in-memory broker \<^verbatim>\<open>Fake\<close>, which can fail in the middle of a batch and redeliver. The
  locale \<open>producer\<close> is the durability contract the outbox relay relies on: an acknowledged
  batch is in the log in order, a failed one left at most a prefix there.
\<close>

record Record =
  kTopic :: string
  kKey :: string
  kValue :: string
  kPartition :: int
  kOffset :: int

text \<open>
  An error that comes from the Kafka client is the list of the kinds \<^verbatim>\<open>errors.Is\<close> and \<^verbatim>\<open>errors.As\<close> find in
  its chain.
\<close>

datatype etag = TDeadline | TCanceled | TDataLoss | TProtocol bool | TClientClosed | TNet | TEOF
  | TRefused | TReset | TPipe

datatype broker_error = ErrClosed | ErrCtx | ErrSimulatedProduce | PanicIndex
  | ErrTransient "etag list" | ErrKafka "etag list" | ErrBroker string

text \<open>\<^verbatim>\<open>map[string][]Record\<close> as an association list, in the order the topics were first written.\<close>

record Fake =
  flog :: "(string \<times> Record list) list"
  cursor :: "string \<rightharpoonup> int"
  closed :: bool
  FailProduceAfter :: int
  produced :: int
  RedeliverFrom :: int

definition NewFake :: Fake where
  "NewFake = \<lparr>flog = [], cursor = Map.empty, closed = False, FailProduceAfter = 0, produced = 0, RedeliverFrom = - 1\<rparr>"

definition topicLog :: "(string \<times> Record list) list \<Rightarrow> string \<Rightarrow> Record list" where
  "topicLog l t = (case map_of l t of None \<Rightarrow> [] | Some rs \<Rightarrow> rs)"

fun setLog :: "(string \<times> Record list) list \<Rightarrow> string \<Rightarrow> Record list \<Rightarrow> (string \<times> Record list) list" where
  "setLog [] t rs = [(t, rs)]"
| "setLog ((u, us) # l) t rs = (if u = t then (u, rs) # l else (u, us) # setLog l t rs)"

definition cursorOf :: "Fake \<Rightarrow> string \<Rightarrow> int" where
  "cursorOf f t = (case cursor f t of None \<Rightarrow> 0 | Some n \<Rightarrow> n)"

section \<open>Producing\<close>

definition stamped :: "Fake \<Rightarrow> Record \<Rightarrow> Record" where
  "stamped f r = r\<lparr>kPartition := 0, kOffset := int (length (topicLog (flog f) (kTopic r)))\<rparr>"

definition appendRecord :: "Fake \<Rightarrow> Record \<Rightarrow> Fake" where
  "appendRecord f r = f\<lparr>flog := setLog (flog f) (kTopic r) (topicLog (flog f) (kTopic r) @ [stamped f r]),
     produced := produced f + 1\<rparr>"

fun produceLoop :: "Fake \<Rightarrow> Record list \<Rightarrow> (broker_error + unit) \<times> Fake" where
  "produceLoop f [] = (Inr (), f)"
| "produceLoop f (r # rs) =
     (if FailProduceAfter f > 0 \<and> produced f \<ge> FailProduceAfter f then (Inl ErrSimulatedProduce, f)
      else produceLoop (appendRecord f r) rs)"

definition Produce :: "bool \<Rightarrow> Fake \<Rightarrow> Record list \<Rightarrow> (broker_error + unit) \<times> Fake" where
  "Produce ctxDone f rs =
     (if closed f then (Inl ErrClosed, f)
      else if ctxDone then (Inl ErrCtx, f)
      else produceLoop f rs)"

section \<open>Consuming\<close>

definition redeliver :: "Fake \<Rightarrow> Fake" where
  "redeliver f = (if RedeliverFrom f \<ge> 0
     then f\<lparr>cursor := (\<lambda>t. map_option (\<lambda>_. RedeliverFrom f) (cursor f t)), RedeliverFrom := - 1\<rparr> else f)"

text \<open>One topic of \<^verbatim>\<open>Poll\<close>; a negative cursor is an index panic.\<close>

definition pollTopic :: "nat \<Rightarrow> Fake \<Rightarrow> Record list \<Rightarrow> string \<Rightarrow> broker_error + Record list \<times> Fake" where
  "pollTopic mx f out t =
     (let c = cursorOf f t; l = topicLog (flog f) t in
      if c < int (length l) \<and> length out < mx then
        if c < 0 then Inl PanicIndex
        else let got = take (mx - length out) (drop (nat c) l)
             in Inr (out @ got, f\<lparr>cursor := (cursor f)(t \<mapsto> c + int (length got))\<rparr>)
      else Inr (out, f))"

fun pollTopics :: "nat \<Rightarrow> Fake \<Rightarrow> Record list \<Rightarrow> string list \<Rightarrow> (broker_error + Record list) \<times> Fake" where
  "pollTopics mx f out [] = (Inr out, f)"
| "pollTopics mx f out (t # ts) = (case pollTopic mx f out t of
      Inl e \<Rightarrow> (Inl e, f)
    | Inr (out', f') \<Rightarrow> pollTopics mx f' out' ts)"

definition Poll :: "bool \<Rightarrow> Fake \<Rightarrow> nat \<Rightarrow> (broker_error + Record list) \<times> Fake" where
  "Poll ctxDone f mx =
     (if closed f then (Inl ErrClosed, f)
      else if ctxDone then (Inl ErrCtx, f)
      else let f' = redeliver f in pollTopics mx f' [] (sort (map fst (flog f'))))"

definition Commit :: "Fake \<Rightarrow> Record list \<Rightarrow> (broker_error + unit) \<times> Fake" where
  "Commit f rs = (Inr (), f)"

definition Rewind :: "Fake \<Rightarrow> string \<Rightarrow> int \<Rightarrow> Fake" where
  "Rewind f t to = f\<lparr>cursor := (cursor f)(t \<mapsto> to)\<rparr>"

definition Lag :: "Fake \<Rightarrow> int" where
  "Lag f = (\<Sum>(t, rs)\<leftarrow>flog f. int (length rs) - cursorOf f t)"

definition Records :: "Fake \<Rightarrow> string \<Rightarrow> Record list" where
  "Records f t = topicLog (flog f) t"

definition Close :: "Fake \<Rightarrow> Fake" where
  "Close f = f\<lparr>closed := True\<rparr>"

text \<open>The interface \<^verbatim>\<open>Consumer\<close>, over the state \<open>'b\<close> of whoever implements it.\<close>

record 'b broker_ops =
  poll :: "'b \<Rightarrow> nat \<Rightarrow> (broker_error + Record list) \<times> 'b"
  commit :: "'b \<Rightarrow> Record list \<Rightarrow> (broker_error + unit) \<times> 'b"
  lag :: "'b \<Rightarrow> broker_error + int"

section \<open>The producer contract\<close>

text \<open>The content of a record, without the position the broker assigns.\<close>

definition content :: "Record \<Rightarrow> string \<times> string" where
  "content r = (kKey r, kValue r)"

locale producer =
  fixes produce :: "'b \<Rightarrow> Record list \<Rightarrow> (broker_error + unit) \<times> 'b"
    and durable :: "'b \<Rightarrow> string \<Rightarrow> Record list"
  assumes acknowledged: "produce b rs = (Inr (), b') \<Longrightarrow> \<forall>r \<in> set rs. kTopic r = t \<Longrightarrow>
      map content (durable b' t) = map content (durable b t) @ map content rs"
    and refused: "produce b rs = (Inl e, b') \<Longrightarrow> \<forall>r \<in> set rs. kTopic r = t \<Longrightarrow>
      \<exists>k. map content (durable b' t) = map content (durable b t) @ map content (take k rs)"
begin

lemma durable_grows:
  assumes "produce b rs = (res, b')" "\<forall>r \<in> set rs. kTopic r = t"
  shows "\<exists>k. map content (durable b' t) = map content (durable b t) @ map content (take k rs)"
proof (cases res)
  case (Inr u)
  with acknowledged [of b rs b' t] assms show ?thesis by (intro exI [of _ "length rs"]) simp
qed (use refused assms in blast)

end

text \<open>A producer that is up accepts every batch and stays up.\<close>

locale live_producer = producer +
  fixes up :: "'b \<Rightarrow> bool"
  assumes accepts: "up b \<Longrightarrow> \<exists>b'. produce b rs = (Inr (), b') \<and> up b'"

lemma topicLog_setLog: "topicLog (setLog l t rs) u = (if u = t then rs else topicLog l u)"
  by (induction l t rs rule: setLog.induct) (auto simp: topicLog_def)

lemma Records_append:
  "map content (Records (appendRecord f r) t) =
     map content (Records f t) @ (if kTopic r = t then [content r] else [])"
  by (simp add: Records_def appendRecord_def topicLog_setLog stamped_def content_def)

lemma produceLoop_log:
  "produceLoop f rs = (res, f') \<Longrightarrow> \<forall>r \<in> set rs. kTopic r = t \<Longrightarrow>
     \<exists>k. map content (Records f' t) = map content (Records f t) @ map content (take k rs) \<and>
       (res = Inr () \<longrightarrow> k = length rs)"
proof (induction f rs rule: produceLoop.induct)
  case (2 f r rs)
  show ?case
  proof (cases "FailProduceAfter f > 0 \<and> produced f \<ge> FailProduceAfter f")
    case True
    with 2(2) show ?thesis by (intro exI [of _ 0]) auto
  next
    case False
    with 2 obtain k where
      "map content (Records f' t) = map content (Records (appendRecord f r) t) @ map content (take k rs)"
      "res = Inr () \<longrightarrow> k = length rs" by auto
    with 2(3) show ?thesis by (intro exI [of _ "Suc k"]) (simp add: Records_append)
  qed
qed (auto intro: exI [of _ 0])

interpretation fake: producer "Produce ctxDone" Records for ctxDone
proof unfold_locales
  fix f rs f' t
  assume p: "Produce ctxDone f rs = (Inr (), f')" and t: "\<forall>r \<in> set rs. kTopic r = t"
  then have "produceLoop f rs = (Inr (), f')" by (auto simp: Produce_def split: if_splits)
  from produceLoop_log [OF this t]
  show "map content (Records f' t) = map content (Records f t) @ map content rs" by auto
next
  fix f rs e f' t
  assume p: "Produce ctxDone f rs = (Inl e, f')" and t: "\<forall>r \<in> set rs. kTopic r = t"
  show "\<exists>k. map content (Records f' t) = map content (Records f t) @ map content (take k rs)"
  proof (cases "closed f \<or> ctxDone")
    case True
    with p have "f' = f" by (auto simp: Produce_def split: if_splits)
    then show ?thesis by (intro exI [of _ 0]) simp
  next
    case False
    with p have "produceLoop f rs = (Inl e, f')" by (auto simp: Produce_def)
    from produceLoop_log [OF this t] show ?thesis by blast
  qed
qed

definition fakeUp :: "Fake \<Rightarrow> bool" where
  "fakeUp f \<longleftrightarrow> \<not> closed f \<and> FailProduceAfter f \<le> 0"

lemma produceLoop_up: "FailProduceAfter f \<le> 0 \<Longrightarrow> closed (snd (produceLoop f rs)) = closed f \<and>
    FailProduceAfter (snd (produceLoop f rs)) \<le> 0 \<and> fst (produceLoop f rs) = Inr ()"
  by (induction f rs rule: produceLoop.induct) (auto simp: appendRecord_def)

interpretation fake_live: live_producer "Produce False" Records fakeUp
proof unfold_locales
  fix f rs
  assume "fakeUp f"
  with produceLoop_up [of f rs] show "\<exists>f'. Produce False f rs = (Inr (), f') \<and> fakeUp f'"
    by (intro exI [of _ "snd (produceLoop f rs)"]) (auto simp: Produce_def fakeUp_def prod_eq_iff)
qed

end
