(* ===== verification/Outbox.thy ===== *)
theory Outbox
  imports Ledger Broker
begin

text \<open>
  The package \<^verbatim>\<open>internal/ledger/outbox\<close>: the relay that produces committed outbox rows and marks
  them sent afterwards. \<open>Drain\<close> is written over any producer; its lemmas are proved from the
  producer contract and used through the interpretation on the in-memory broker.
\<close>

section \<open>The relay\<close>

definition DefaultBatchSize :: nat where
  "DefaultBatchSize = 500"

record Relay =
  rtopic :: string
  batchSize :: nat

definition NewRelay :: "string \<Rightarrow> int \<Rightarrow> Relay" where
  "NewRelay topic batch = \<lparr>rtopic = (if topic = [] then ''shadowbook.postings.v1'' else topic),
     batchSize = (if batch \<le> 0 then DefaultBatchSize else nat batch)\<rparr>"

datatype relay_error = ErrOutboxClaim store_error | ErrProduce broker_error | ErrMarkSent store_error

definition recordOf :: "Relay \<Rightarrow> OutboxRow \<Rightarrow> Record" where
  "recordOf rl row = \<lparr>kTopic = rtopic rl, kKey = oPartitionKey row, kValue = oPayload row,
     kPartition = 0, kOffset = 0\<rparr>"

text \<open>\<open>mf\<close> is the connection error, if any, of the statement that marks the batch.\<close>

definition Drain ::
  "('b \<Rightarrow> Record list \<Rightarrow> (broker_error + unit) \<times> 'b) \<Rightarrow> Relay \<Rightarrow> string option \<Rightarrow> db \<Rightarrow> 'b \<Rightarrow>
   (nat \<times> relay_error option) \<times> db \<times> 'b" where
  "Drain produce rl mf d b =
     (case ClaimOutboxBatch d (batchSize rl) of
        Inl e \<Rightarrow> ((0, Some (ErrOutboxClaim e)), d, b)
      | Inr rows \<Rightarrow>
          if rows = [] then ((0, None), d, b)
          else attempt (produce b (map (recordOf rl) rows))
            (\<lambda>e b'. ((0, Some (ErrProduce e)), d, b'))
            (\<lambda>_ b'. case mf of
                Some m \<Rightarrow> ((length rows, Some (ErrMarkSent (ErrConn m))), d, b')
              | None \<Rightarrow> attempt (MarkOutboxSent d (map oId rows))
                  (\<lambda>e d'. ((length rows, Some (ErrMarkSent e)), d', b'))
                  (\<lambda>_ d'. ((length rows, None), d', b'))))"

definition unsent :: "db \<Rightarrow> OutboxRow list" where
  "unsent d = filter (\<lambda>r. \<not> oSent r) (outbox d)"

text \<open>The rows one call claims, and the rows after they are marked.\<close>

definition batchOf :: "Relay \<Rightarrow> db \<Rightarrow> OutboxRow list" where
  "batchOf rl d = take (batchSize rl) (sort_key oId (unsent d))"

definition markRows :: "OutboxRow list \<Rightarrow> db \<Rightarrow> db" where
  "markRows rows d = d\<lparr>outbox := map (\<lambda>r. if oId r \<in> oId ` set rows then r\<lparr>oSent := True\<rparr> else r) (outbox d)\<rparr>"

lemma ClaimOutboxBatch_batchOf: "ClaimOutboxBatch d (batchSize rl) = Inr (batchOf rl d)"
  by (simp add: ClaimOutboxBatch_def batchOf_def unsent_def)

lemma MarkOutboxSent_markRows: "rows \<noteq> [] \<Longrightarrow> MarkOutboxSent d (map oId rows) = (Inr (), markRows rows d)"
  by (simp add: MarkOutboxSent_def markRows_def)

lemma batchOf_unsent: "set (batchOf rl d) \<subseteq> set (unsent d)"
  unfolding batchOf_def using set_take_subset by fastforce

lemma mark_filter:
  "filter (\<lambda>r. \<not> oSent r) (map (\<lambda>r. if oId r \<in> M then r\<lparr>oSent := True\<rparr> else r) xs) =
   filter (\<lambda>r. oId r \<notin> M) (filter (\<lambda>r. \<not> oSent r) xs)"
  by (induction xs) auto

lemma unsent_markRows: "unsent (markRows rows d) = filter (\<lambda>r. oId r \<notin> oId ` set rows) (unsent d)"
  by (simp add: unsent_def markRows_def mark_filter)

text \<open>\<open>Drain\<close> on a database whose claim cannot fail, in terms of the batch.\<close>

lemma Drain_batch:
  "Drain produce rl mf d b =
     (if batchOf rl d = [] then ((0, None), d, b)
      else attempt (produce b (map (recordOf rl) (batchOf rl d)))
        (\<lambda>e b'. ((0, Some (ErrProduce e)), d, b'))
        (\<lambda>_ b'. case mf of
            Some m \<Rightarrow> ((length (batchOf rl d), Some (ErrMarkSent (ErrConn m))), d, b')
          | None \<Rightarrow> ((length (batchOf rl d), None), markRows (batchOf rl d) d, b')))"
proof (cases "batchOf rl d = []")
  case False
  note M = MarkOutboxSent_markRows [OF False]
  show ?thesis unfolding Drain_def ClaimOutboxBatch_batchOf sum.case M attempt_simps
    by (rule refl)
qed (simp add: Drain_def ClaimOutboxBatch_batchOf)

lemma Drain_success:
  assumes "Drain produce rl mf d b = ((n, None), d', b')"
  obtains (idle) "n = 0" "batchOf rl d = []" "d' = d" "b' = b"
  | (sent) "batchOf rl d \<noteq> []" "n = length (batchOf rl d)" "d' = markRows (batchOf rl d) d"
      "produce b (map (recordOf rl) (batchOf rl d)) = (Inr (), b')"
proof (cases "batchOf rl d = []")
  case True
  show ?thesis by (rule idle) (use assms True in \<open>simp_all add: Drain_batch\<close>)
next
  case False
  note D = assms [unfolded Drain_batch if_not_P [OF False]]
  from D False show ?thesis
    by (cases rule: attempt_cases) (auto split: option.splits intro: sent)
qed

lemma Drain_shrinks:
  assumes "Drain produce rl mf d b = ((n, None), d', b')" "n \<noteq> 0"
  shows "length (unsent d') < length (unsent d)"
  using assms(1)
proof (cases rule: Drain_success)
  case sent
  let ?r = "hd (batchOf rl d)"
  have "?r \<in> set (batchOf rl d)" using sent(1) by simp
  then have "?r \<in> set (unsent d)" "oId ?r \<in> oId ` set (batchOf rl d)" using batchOf_unsent by blast+
  then show ?thesis unfolding sent(3) unsent_markRows by (intro length_filter_less) auto
qed (use assms(2) in simp)

text \<open>
  The final drain of \<^verbatim>\<open>Run\<close> after its context is cancelled: batches until nothing is left or an
  error occurs. It ends because every batch without an error marks a row.
\<close>

function drainAll ::
  "('b \<Rightarrow> Record list \<Rightarrow> (broker_error + unit) \<times> 'b) \<Rightarrow> Relay \<Rightarrow> string option \<Rightarrow> db \<Rightarrow> 'b \<Rightarrow>
   relay_error option \<times> db \<times> 'b" where
  "drainAll produce rl mf d b =
     (let r = Drain produce rl mf d b; n = fst (fst r); err = snd (fst r); d' = fst (snd r); b' = snd (snd r)
      in if err \<noteq> None \<or> n = 0 then (err, d', b') else drainAll produce rl mf d' b')"
  by pat_completeness auto

termination
proof (relation "measure (\<lambda>(produce, rl, mf, d, b). length (unsent d))", simp, goal_cases)
  case (1 produce rl mf d b r n err d' b')
  then have "err = None" "n \<noteq> 0" by simp_all
  have "Drain produce rl mf d b = ((n, err), d', b')" unfolding 1(1-5) by simp
  then have "length (unsent d') < length (unsent d)"
    unfolding \<open>err = None\<close> using \<open>n \<noteq> 0\<close> by (rule Drain_shrinks)
  then show ?case by simp
qed

declare drainAll.simps [simp del]

text \<open>
  One tick of the poll: batches until one is short. Over a batch size of zero it would not end;
  \<open>NewRelay\<close> never builds one.
\<close>

partial_function (option) drainTick ::
  "('b \<Rightarrow> Record list \<Rightarrow> (broker_error + unit) \<times> 'b) \<Rightarrow> Relay \<Rightarrow> string option \<Rightarrow> db \<Rightarrow> 'b \<Rightarrow>
   (relay_error option \<times> db \<times> 'b) option" where
  "drainTick produce rl mf d b =
     (let r = Drain produce rl mf d b; n = fst (fst r); err = snd (fst r); d' = fst (snd r); b' = snd (snd r)
      in if err \<noteq> None then Some (err, d', b')
         else if n < batchSize rl then Some (None, d', b')
         else drainTick produce rl mf d' b')"

text \<open>
  \<^verbatim>\<open>Run\<close> over the events its \<^verbatim>\<open>select\<close> receives; between two events the ledger
  serves calls of \<^verbatim>\<open>Post\<close>, which commit more rows.
  The result \<open>None\<close> is a relay that is still running when the events end.
\<close>

datatype event = Tick "string option" | Cancel "string option" | PostCall world Request

fun relay_Run ::
  "('b \<Rightarrow> Record list \<Rightarrow> (broker_error + unit) \<times> 'b) \<Rightarrow> ext \<Rightarrow> Relay \<Rightarrow> event list \<Rightarrow> db \<Rightarrow> 'b \<Rightarrow>
   relay_error option option \<times> db \<times> 'b" where
  "relay_Run produce x rl [] d b = (None, d, b)"
| "relay_Run produce x rl (PostCall w r # evs) d b = relay_Run produce x rl evs (snd (Post x w d r)) b"
| "relay_Run produce x rl (Cancel mf # evs) d b =
     (let r = drainAll produce rl mf d b in (Some None, fst (snd r), snd (snd r)))"
| "relay_Run produce x rl (Tick mf # evs) d b =
     (case drainTick produce rl mf d b of
        None \<Rightarrow> (None, d, b)
      | Some (Some err, d', b') \<Rightarrow> (Some (Some err), d', b')
      | Some (None, d', b') \<Rightarrow> relay_Run produce x rl evs d' b')"

lemma drainTick_returns:
  assumes "0 < batchSize rl"
  shows "\<exists>r. drainTick produce rl mf d b = Some r"
proof (induction "length (unsent d)" arbitrary: d b rule: less_induct)
  case less
  obtain n err d' b' where D: "Drain produce rl mf d b = ((n, err), d', b')" by (metis surj_pair)
  show ?case
  proof (cases "err = None \<and> batchSize rl \<le> n")
    case True
    with assms D have "length (unsent d') < length (unsent d)" by (intro Drain_shrinks [of produce rl mf d b n]) auto
    from less.hyps [OF this, of b'] obtain r where "drainTick produce rl mf d' b' = Some r" by blast
    with True show ?thesis by (subst drainTick.simps) (cases r; simp add: D Let_def)
  qed (subst drainTick.simps; auto simp: D Let_def)
qed

lemma NewRelay_batch: "0 < batchSize (NewRelay topic batch)"
  by (simp add: NewRelay_def DefaultBatchSize_def)

section \<open>At least once\<close>

text \<open>Every row marked sent is in the broker's durable log.\<close>

definition relayed :: "('b \<Rightarrow> string \<Rightarrow> Record list) \<Rightarrow> Relay \<Rightarrow> db \<Rightarrow> 'b \<Rightarrow> bool" where
  "relayed durable rl d b \<longleftrightarrow> (\<forall>r \<in> set (outbox d). oSent r \<longrightarrow>
     (oPartitionKey r, oPayload r) \<in> set (map content (durable b (rtopic rl))))"

lemma content_recordOf: "content (recordOf rl r) = (oPartitionKey r, oPayload r)"
  by (simp add: content_def recordOf_def)

text \<open>The contents of the outbox rows, as the records carry them.\<close>

abbreviation rowContent :: "OutboxRow \<Rightarrow> string \<times> string" where
  "rowContent r \<equiv> (oPartitionKey r, oPayload r)"

lemma recordOf_topic: "\<forall>r \<in> set (map (recordOf rl) rows). kTopic r = rtopic rl"
  by (auto simp: recordOf_def)

lemma map_content_recordOf: "map content (map (recordOf rl) rows) = map rowContent rows"
  by (simp add: content_recordOf)

text \<open>Rows in id order are claimed as a prefix, and what stays unsent is the rest.\<close>

lemma sort_by_id: "sorted_wrt (<) (map f xs) \<Longrightarrow> sort_key f xs = xs" for f :: "'a \<Rightarrow> int"
  by (rule sort_key_id_if_sorted) (simp add: strict_sorted_imp_sorted)

lemma batchOf_prefix: "sorted_wrt (<) (map oId (unsent d)) \<Longrightarrow> batchOf rl d = take (batchSize rl) (unsent d)"
  by (simp add: batchOf_def sort_by_id)

lemma drop_marked:
  "sorted_wrt (<) (map f xs) \<Longrightarrow> filter (\<lambda>r. f r \<notin> f ` set (take n xs)) xs = drop n xs" for f :: "'a \<Rightarrow> int"
proof (induction xs arbitrary: n)
  case (Cons x xs)
  show ?case
  proof (cases n)
    case (Suc m)
    have "\<forall>r \<in> set xs. f r \<noteq> f x" using Cons.prems by auto
    then have "filter (\<lambda>r. f r \<notin> insert (f x) (f ` set (take m xs))) xs = filter (\<lambda>r. f r \<notin> f ` set (take m xs)) xs"
      by (intro filter_cong) auto
    with Cons Suc show ?thesis by simp
  qed simp
qed simp

context producer
begin

abbreviation logged :: "'b \<Rightarrow> Relay \<Rightarrow> (string \<times> string) list" where
  "logged b rl \<equiv> map content (durable b (rtopic rl))"

text \<open>One call: the log grows by the batch and the batch is marked, or nothing is marked.\<close>

lemma drain_cases:
  assumes "Drain produce rl mf d b = ((n, err), d', b')"
  obtains (idle) "n = 0" "err = None" "d' = d" "b' = b" "batchOf rl d = []"
  | (failed) k where "err \<noteq> None" "d' = d" "logged b' rl = logged b rl @ map rowContent (take k (batchOf rl d))"
  | (sent) "err = None" "n = length (batchOf rl d)" "n \<noteq> 0" "d' = markRows (batchOf rl d) d"
      "logged b' rl = logged b rl @ map rowContent (batchOf rl d)"
proof (cases err)
  case None
  from assms [unfolded None] show ?thesis
  proof (cases rule: Drain_success)
    case idle
    with None that(1) show ?thesis by blast
  next
    case sent
    show ?thesis
      by (rule that(3)) (use sent None acknowledged [OF sent(4) recordOf_topic] in
        \<open>simp_all add: map_content_recordOf del: map_map\<close>)
  qed
next
  case (Some e)
  let ?rows = "batchOf rl d"
  have ne: "?rows \<noteq> []" using assms Some by (auto simp: Drain_batch)
  obtain r1 b1 where p: "produce b (map (recordOf rl) ?rows) = (r1, b1)" by force
  from durable_grows [OF p recordOf_topic] obtain k where
    k: "logged b1 rl = logged b rl @ map content (take k (map (recordOf rl) ?rows))" by blast
  have "b' = b1 \<and> d' = d"
    using assms Some ne p by (cases r1) (auto simp: Drain_batch split: option.splits)
  then show ?thesis
    by (intro that(2) [of k]) (use k Some in \<open>simp_all add: take_map map_content_recordOf del: map_map\<close>)
qed

lemma drain_relayed:
  assumes "Drain produce rl mf d b = ((n, err), d', b')" "relayed durable rl d b"
    and "distinct (map oId (outbox d))"
  shows "relayed durable rl d' b'"
  using assms(1)
proof (cases rule: drain_cases)
  case idle
  with assms(2) show ?thesis by simp
next
  case (failed k)
  with assms(2) show ?thesis by (fastforce simp: relayed_def)
next
  case sent
  show ?thesis unfolding relayed_def
  proof (intro ballI impI)
    fix r assume "r \<in> set (outbox d')" "oSent r"
    then obtain q where q: "q \<in> set (outbox d)" "rowContent r = rowContent q"
      "oSent q \<or> oId q \<in> oId ` set (batchOf rl d)"
      unfolding sent(4) by (auto simp: markRows_def split: if_splits)
    show "rowContent r \<in> set (logged b' rl)"
    proof (cases "oSent q")
      case True
      with q assms(2) sent(5) show ?thesis by (auto simp: relayed_def)
    next
      case False
      with q obtain q' where q': "q' \<in> set (batchOf rl d)" "oId q = oId q'" by blast
      with batchOf_unsent [of rl d] have "q' \<in> set (outbox d)" by (auto simp: unsent_def)
      with q(1) q'(2) assms(3) have "q' = q" by (metis inj_onD distinct_map)
      with q(2) q'(1) sent(5) show ?thesis by auto
    qed
  qed
qed

end

section \<open>Invariants of the loops\<close>

lemma drainAll_inv:
  assumes "\<And>d b n err d' b'. P d b \<Longrightarrow> Drain produce rl mf d b = ((n, err), d', b') \<Longrightarrow> P d' b'"
    and "P d b" "drainAll produce rl mf d b = (err, d', b')"
  shows "P d' b'"
  using assms(2,3)
proof (induction "length (unsent d)" arbitrary: d b rule: less_induct)
  case less
  obtain n e d1 b1 where D: "Drain produce rl mf d b = ((n, e), d1, b1)" by (metis surj_pair)
  note A = less.prems(2) [unfolded drainAll.simps [of _ _ _ d] D Let_def fst_conv snd_conv]
  have P1: "P d1 b1" using assms(1) [OF less.prems(1) D] .
  show ?case
  proof (cases "e \<noteq> None \<or> n = 0")
    case True
    with A P1 show ?thesis by simp
  next
    case False
    then have e: "e = None" "n \<noteq> 0" by simp_all
    show ?thesis by (rule less.hyps [OF Drain_shrinks [OF D [unfolded e(1)] e(2)] P1]) (use A False in simp)
  qed
qed

lemma drainTick_inv:
  assumes "\<And>d b n err d' b'. P d b \<Longrightarrow> Drain produce rl mf d b = ((n, err), d', b') \<Longrightarrow> P d' b'"
    and "P d b" "drainTick produce rl mf d b = Some (err, d', b')" "0 < batchSize rl"
  shows "P d' b'"
  using assms(2,3)
proof (induction "length (unsent d)" arbitrary: d b rule: less_induct)
  case less
  obtain n e d1 b1 where D: "Drain produce rl mf d b = ((n, e), d1, b1)" by (metis surj_pair)
  note A = less.prems(2) [unfolded drainTick.simps [of _ _ _ d] D Let_def fst_conv snd_conv]
  have P1: "P d1 b1" using assms(1) [OF less.prems(1) D] .
  show ?case
  proof (cases "e \<noteq> None \<or> n < batchSize rl")
    case True
    with A P1 show ?thesis by (auto split: if_splits)
  next
    case False
    with assms(4) have e: "e = None" "n \<noteq> 0" by simp_all
    show ?thesis by (rule less.hyps [OF Drain_shrinks [OF D [unfolded e(1)] e(2)] P1]) (use A False in simp)
  qed
qed

fun int64_event :: "event \<Rightarrow> bool" where
  "int64_event (PostCall w r) \<longleftrightarrow> request_int64 r"
| "int64_event _ \<longleftrightarrow> True"

lemma relay_Run_inv:
  assumes drain: "\<And>mf d b n err d' b'. P d b \<Longrightarrow> Drain produce rl mf d b = ((n, err), d', b') \<Longrightarrow> P d' b'"
    and post: "\<And>w r d b. P d b \<Longrightarrow> request_int64 r \<Longrightarrow> P (snd (Post x w d r)) b"
    and "P d b" "relay_Run produce x rl evs d b = (res, d', b')" "0 < batchSize rl" "list_all int64_event evs"
  shows "P d' b'"
  using assms(3,4,6)
proof (induction evs arbitrary: d b)
  case (Cons ev evs)
  show ?case
  proof (cases ev)
    case (PostCall w r)
    then have "P (snd (Post x w d r)) b" using post Cons.prems by simp
    with PostCall Cons show ?thesis by simp
  next
    case (Cancel mf)
    obtain e d1 b1 where D: "drainAll produce rl mf d b = (e, d1, b1)" by (metis surj_pair)
    have "P d1 b1" by (rule drainAll_inv [where P = P and mf = mf, OF _ Cons.prems(1) D]) (rule drain)
    with Cons.prems(2) Cancel D show ?thesis by simp
  next
    case (Tick mf)
    obtain e d1 b1 where D: "drainTick produce rl mf d b = Some (e, d1, b1)"
      using drainTick_returns [OF assms(5)] by (metis surj_pair)
    have P1: "P d1 b1" by (rule drainTick_inv [where P = P and mf = mf, OF _ Cons.prems(1) D assms(5)]) (rule drain)
    show ?thesis
    proof (cases e)
      case None
      show ?thesis by (rule Cons.IH [OF P1]) (use Cons.prems(2,3) Tick D None in simp_all)
    next
      case (Some err)
      with Cons.prems(2) Tick D P1 show ?thesis by simp
    qed
  qed
qed simp

section \<open>At least once\<close>

definition relay_ok :: "('b \<Rightarrow> string \<Rightarrow> Record list) \<Rightarrow> ext \<Rightarrow> Relay \<Rightarrow> db \<Rightarrow> 'b \<Rightarrow> bool" where
  "relay_ok durable x rl d b \<longleftrightarrow> ledger_ok x d \<and> relayed durable rl d b"

lemma ok_outbox_ids: "ledger_ok x d \<Longrightarrow> sorted_wrt (<) (map oId (outbox d))"
  by (simp add: ledger_ok_def db_wf_def seqs_ok_def)

lemma ok_distinct: "ledger_ok x d \<Longrightarrow> distinct (map oId (outbox d))"
  using ok_outbox_ids strict_sorted_iff by blast

lemma markRows_ok: "ledger_ok x d \<Longrightarrow> ledger_ok x (markRows rows d)"
  using side_ledger_ok [of x d "SMarkOutboxSent (map oId rows)"]
  by (cases "rows = []") (simp_all add: side_def MarkOutboxSent_markRows, simp add: markRows_def)

text \<open>What a call of \<^verbatim>\<open>Post\<close> does to the outbox.\<close>

lemma Post_outbox:
  assumes "Post x w d r = (res, d')"
  shows "outbox d' = outbox d \<or> (\<exists>row. outbox d' = outbox d @ [row] \<and> \<not> oSent row \<and> oId row = seq_outbox d)"
  using assms
proof (cases rule: Post_cases)
  case (error e)
  have "outbox (tx_Rollback d d') = outbox d" by (simp add: tx_Rollback_def)
  with error(2) show ?thesis by (simp add: unchanged_def)
next
  case (applied payload)
  then show ?thesis by (simp add: posted_def Let_def)
qed simp

context producer
begin

lemma drain_ok:
  assumes "relay_ok durable x rl d b" "Drain produce rl mf d b = ((n, err), d', b')"
  shows "relay_ok durable x rl d' b'"
proof -
  have "ledger_ok x d'" using assms(2)
    by (cases rule: drain_cases) (use assms(1) in \<open>simp_all add: relay_ok_def markRows_ok\<close>)
  with drain_relayed [OF assms(2)] assms(1) ok_distinct show ?thesis by (auto simp: relay_ok_def)
qed

lemma post_relay_ok:
  assumes "relay_ok durable x rl d b" "request_int64 r"
  shows "relay_ok durable x rl (snd (Post x w d r)) b"
proof -
  obtain res d' where P: "Post x w d r = (res, d')" by force
  have "ledger_ok x d'" using assms P by (auto simp: relay_ok_def intro: Post_ledger_ok)
  with Post_outbox [OF P] assms(1) P show ?thesis by (auto simp: relay_ok_def relayed_def)
qed

lemma relay_Run_ok:
  assumes "relay_ok durable x rl d b" "relay_Run produce x rl evs d b = (res, d', b')" "0 < batchSize rl"
    and "list_all int64_event evs"
  shows "relay_ok durable x rl d' b'"
  using assms by (rule relay_Run_inv [where P = "relay_ok durable x rl", rotated 2]) (fact drain_ok post_relay_ok)+

end

section \<open>In order and once, while the broker is up\<close>

text \<open>The log is exactly the sent rows, which come before all unsent ones.\<close>

definition in_step :: "('b \<Rightarrow> string \<Rightarrow> Record list) \<Rightarrow> ext \<Rightarrow> Relay \<Rightarrow> db \<Rightarrow> 'b \<Rightarrow> bool" where
  "in_step durable x rl d b \<longleftrightarrow> ledger_ok x d \<and> (\<exists>ys zs. outbox d = ys @ zs \<and> (\<forall>r \<in> set ys. oSent r) \<and>
     (\<forall>r \<in> set zs. \<not> oSent r) \<and> map content (durable b (rtopic rl)) = map rowContent ys)"

lemma unsent_split:
  "outbox d = ys @ zs \<Longrightarrow> \<forall>r \<in> set ys. oSent r \<Longrightarrow> \<forall>r \<in> set zs. \<not> oSent r \<Longrightarrow> unsent d = zs"
  by (simp add: unsent_def)

lemma markRows_prefix:
  assumes "outbox d = ys @ zs" "\<forall>r \<in> set ys. oSent r" "sorted_wrt (<) (map oId (outbox d))"
  shows "outbox (markRows (take k zs) d) = (ys @ map (\<lambda>r. r\<lparr>oSent := True\<rparr>) (take k zs)) @ drop k zs"
proof -
  have sent: "map (\<lambda>r. if oId r \<in> M then r\<lparr>oSent := True\<rparr> else r) ys = ys" for M
    using assms(2) by (intro map_idI) simp
  have zs: "sorted_wrt (<) (map oId (take k zs @ drop k zs))" using assms(1,3) by (simp add: sorted_wrt_append)
  have "\<forall>r \<in> set (drop k zs). oId r \<notin> oId ` set (take k zs)"
    using zs unfolding map_append sorted_wrt_append by fastforce
  then have "map (\<lambda>r. if oId r \<in> oId ` set (take k zs) then r\<lparr>oSent := True\<rparr> else r) (take k zs @ drop k zs) =
      map (\<lambda>r. r\<lparr>oSent := True\<rparr>) (take k zs) @ drop k zs"
    unfolding map_append by (intro arg_cong2 [where f = "(@)"] map_cong map_idI) auto
  with sent assms(1) show ?thesis by (simp add: markRows_def)
qed

context live_producer
begin

lemma Drain_live:
  assumes "in_step durable x rl d b" "up b"
  shows "\<exists>n d' b'. Drain produce rl None d b = ((n, None), d', b') \<and> in_step durable x rl d' b' \<and> up b' \<and>
    (n = 0 \<and> 0 < batchSize rl \<longrightarrow> unsent d' = [])"
proof -
  from assms(1) obtain ys zs where o: "outbox d = ys @ zs" "\<forall>r \<in> set ys. oSent r" "\<forall>r \<in> set zs. \<not> oSent r"
    and log: "logged b rl = map rowContent ys" and ok: "ledger_ok x d"
    unfolding in_step_def by blast
  note u = unsent_split [OF o]
  have "sorted_wrt (<) (map oId (unsent d))"
    using ok_outbox_ids [OF ok] o(1) u by (simp add: sorted_wrt_append)
  then have B: "batchOf rl d = take (batchSize rl) zs" using batchOf_prefix u by simp
  show ?thesis
  proof (cases "batchOf rl d = []")
    case True
    with assms B u show ?thesis by (auto simp: Drain_batch)
  next
    case False
    from accepts [OF assms(2)] obtain b' where
      p: "produce b (map (recordOf rl) (batchOf rl d)) = (Inr (), b')" "up b'" by blast
    have D: "Drain produce rl None d b = ((length (batchOf rl d), None), markRows (batchOf rl d) d, b')"
      using False by (simp add: Drain_batch p(1))
    have "logged b' rl = map rowContent (ys @ map (\<lambda>r. r\<lparr>oSent := True\<rparr>) (take (batchSize rl) zs))"
      using acknowledged [OF p(1) recordOf_topic] log unfolding map_content_recordOf B by (simp add: comp_def)
    moreover have "\<forall>r \<in> set (ys @ map (\<lambda>r. r\<lparr>oSent := True\<rparr>) (take (batchSize rl) zs)). oSent r"
      "\<forall>r \<in> set (drop (batchSize rl) zs). \<not> oSent r"
      using o(2) by auto (use o(3) in_set_dropD in fast)
    ultimately have "in_step durable x rl (markRows (batchOf rl d) d) b'"
      unfolding in_step_def using markRows_ok [OF ok] markRows_prefix [OF o(1,2) ok_outbox_ids [OF ok]]
      by (simp only: B) blast
    with D p(2) False show ?thesis by blast
  qed
qed

lemma drainAll_live:
  assumes "in_step durable x rl d b" "up b" "0 < batchSize rl"
  shows "\<exists>d' b'. drainAll produce rl None d b = (None, d', b') \<and> in_step durable x rl d' b' \<and> unsent d' = []"
  using assms(1,2)
proof (induction "length (unsent d)" arbitrary: d b rule: less_induct)
  case less
  from Drain_live [OF less.prems] obtain n d1 b1 where
    D: "Drain produce rl None d b = ((n, None), d1, b1)" "in_step durable x rl d1 b1" "up b1"
    "n = 0 \<Longrightarrow> unsent d1 = []" using assms(3) by blast
  show ?case
  proof (cases "n = 0")
    case True
    with D show ?thesis by (subst drainAll.simps) simp
  next
    case False
    from less.hyps [OF Drain_shrinks [OF D(1) False] D(2,3)] obtain d' b' where
      "drainAll produce rl None d1 b1 = (None, d', b')" "in_step durable x rl d' b'" "unsent d' = []" by blast
    then show ?thesis using D(1) False by (subst drainAll.simps) simp
  qed
qed

lemma drainTick_live:
  assumes "in_step durable x rl d b" "up b" "0 < batchSize rl"
  shows "\<exists>d' b'. drainTick produce rl None d b = Some (None, d', b') \<and> in_step durable x rl d' b' \<and> up b'"
  using assms(1,2)
proof (induction "length (unsent d)" arbitrary: d b rule: less_induct)
  case less
  from Drain_live [OF less.prems] obtain n d1 b1 where
    D: "Drain produce rl None d b = ((n, None), d1, b1)" "in_step durable x rl d1 b1" "up b1" by blast
  show ?case
  proof (cases "n < batchSize rl")
    case True
    with D show ?thesis by (subst drainTick.simps) simp
  next
    case False
    with assms(3) have "n \<noteq> 0" by simp
    from less.hyps [OF Drain_shrinks [OF D(1) this] D(2,3)] obtain d' b' where
      "drainTick produce rl None d1 b1 = Some (None, d', b')" "in_step durable x rl d' b'" "up b'" by blast
    then show ?thesis using D(1) False by (subst drainTick.simps) simp
  qed
qed

end

fun calm :: "event \<Rightarrow> bool" where
  "calm (PostCall w r) \<longleftrightarrow> request_int64 r"
| "calm (Tick mf) \<longleftrightarrow> mf = None"
| "calm (Cancel mf) \<longleftrightarrow> False"

lemma post_in_step:
  assumes "in_step durable x rl d b" "request_int64 r"
  shows "in_step durable x rl (snd (Post x w d r)) b"
proof -
  obtain res d' where P: "Post x w d r = (res, d')" by force
  have ok: "ledger_ok x d'" using assms P by (auto simp: in_step_def intro: Post_ledger_ok)
  from assms(1) obtain ys zs where o: "outbox d = ys @ zs" "\<forall>r \<in> set ys. oSent r" "\<forall>r \<in> set zs. \<not> oSent r"
    and log: "map content (durable b (rtopic rl)) = map rowContent ys"
    unfolding in_step_def by blast
  from Post_outbox [OF P] obtain new where "outbox d' = ys @ (zs @ new)" "\<forall>r \<in> set new. \<not> oSent r"
    using o(1) by (metis append.assoc append.right_neutral empty_iff list.set(1) set_ConsD)
  moreover from this(2) o(3) have "\<forall>r \<in> set (zs @ new). \<not> oSent r" by auto
  ultimately have "in_step durable x rl d' b" unfolding in_step_def using ok o(2) log by blast
  with P show ?thesis by simp
qed

context live_producer
begin

lemma relay_Run_live:
  assumes "in_step durable x rl d b" "up b" "0 < batchSize rl" "list_all calm evs"
  shows "\<exists>d' b'. relay_Run produce x rl (evs @ [Cancel None]) d b = (Some None, d', b') \<and>
    in_step durable x rl d' b' \<and> unsent d' = []"
  using assms(1,2,4)
proof (induction evs arbitrary: d b)
  case Nil
  with drainAll_live [OF Nil(1,2) assms(3)] show ?case by auto
next
  case (Cons ev evs)
  show ?case
  proof (cases ev)
    case (PostCall w r)
    with Cons post_in_step [OF Cons.prems(1)] show ?thesis by simp
  next
    case (Tick mf)
    with drainTick_live [OF Cons.prems(1,2) assms(3)] Cons show ?thesis by fastforce
  qed (use Cons.prems in simp)
qed

end

lemma in_step_end:
  assumes "in_step durable x rl d b" "unsent d = []"
  shows "map content (durable b (rtopic rl)) = map rowContent (outbox d)"
proof -
  from assms(1) obtain ys zs where o: "outbox d = ys @ zs" "\<forall>r \<in> set ys. oSent r" "\<forall>r \<in> set zs. \<not> oSent r"
    "map content (durable b (rtopic rl)) = map rowContent ys" unfolding in_step_def by blast
  with unsent_split [OF o(1-3)] assms(2) show ?thesis by simp
qed

section \<open>Properties\<close>

lemma sampleDB_outbox: "outbox sampleDB = []"
  by (simp add: sampleDB_def run_tx_def InsertAccount_def sampleAccount_def char3_def has_account_def
      emptyDB_def tx_Commit_def)

text \<open>
  C15. The relay delivers at least once: whatever ticks, failing produces, failing marks, postings
  and shutdown it goes through, every row it has marked sent is in the broker's log with its
  key and payload, so a committed posting is never dropped between ledger and topic.
\<close>

theorem relay_at_least_once:
  assumes "ledger_steps x emptyDB d" "relayed Records (NewRelay topic n) d f" "list_all int64_event evs"
    and "relay_Run (Produce ctxDone) x (NewRelay topic n) evs d f = (res, d', f')"
  shows "\<forall>row \<in> set (outbox d'). oSent row \<longrightarrow>
    (oPartitionKey row, oPayload row) \<in> set (map content (Records f' (rtopic (NewRelay topic n))))"
proof -
  have "relay_ok Records x (NewRelay topic n) d f"
    using assms(1,2) steps_ok ledger_ok_empty by (auto simp: relay_ok_def)
  from fake.relay_Run_ok [OF this assms(4) NewRelay_batch assms(3)]
  show ?thesis by (simp add: relay_ok_def relayed_def)
qed

theorem relay_at_least_once_witness:
  "\<exists>res d' f'. relay_Run (Produce False) sampleExt (NewRelay [] 0)
      [PostCall sampleWorld sampleRequest, Tick (Some ''reset''), Tick None] sampleDB NewFake = (res, d', f') \<and>
    (\<forall>row \<in> set (outbox d'). oSent row \<longrightarrow> (oPartitionKey row, oPayload row) \<in>
        set (map content (Records f' (rtopic (NewRelay [] 0)))))"
proof -
  let ?evs = "[PostCall sampleWorld sampleRequest, Tick (Some ''reset''), Tick None]"
  obtain res d' f' where R: "relay_Run (Produce False) sampleExt (NewRelay [] 0) ?evs sampleDB NewFake = (res, d', f')"
    by (metis surj_pair)
  have "relayed Records (NewRelay [] 0) sampleDB NewFake" by (simp add: relayed_def sampleDB_outbox)
  from relay_at_least_once [OF sample_steps this _ R] R show ?thesis using sample_request(1) by auto
qed



end
