(* ===== verification/Timeformat.thy ===== *)
theory Timeformat
  imports Dateformat
begin

text \<open>
  Instants on the wire: \<^verbatim>\<open>time.Parse(time.RFC3339Nano, s)\<close>, chunk by chunk of the layout
  \<^verbatim>\<open>2006-01-02T15:04:05.999999999Z07:00\<close>, as an instant in nanoseconds. The standard library's
  leniencies are kept: an hour of one digit, a comma before the fraction, a fraction of any
  length that is cut at nine digits, and offsets of up to 24:60.
\<close>

definition skip_char :: "char \<Rightarrow> string \<Rightarrow> string option" where
  "skip_char k s = (case s of [] \<Rightarrow> None | c # cs \<Rightarrow> if c = k then Some cs else None)"

text \<open>\<^verbatim>\<open>getnum(value, false)\<close>: one or two digits.\<close>

definition getnum_var :: "string \<Rightarrow> (int \<times> string) option" where
  "getnum_var s = (case getnum 2 s of
      Some r \<Rightarrow> Some r
    | None \<Rightarrow> getnum 1 s)"

definition parseNanoseconds :: "string \<Rightarrow> int" where
  "parseNanoseconds ds =
     (let k = take 9 ds in foldl (\<lambda>n c. 10 * n + digitVal c) 0 k * 10 ^ (9 - length k))"

definition parseFraction :: "string \<Rightarrow> int \<times> string" where
  "parseFraction s = (case s of
      p # c # cs \<Rightarrow>
        if p \<in> {CHR ''.'', CHR '',''} \<and> isDigit c
        then let ds = takeWhile isDigit (c # cs) in (parseNanoseconds ds, drop (length ds) (c # cs))
        else (0, s)
    | _ \<Rightarrow> (0, s))"

text \<open>The offset in seconds east of UTC.\<close>

definition parseZone :: "string \<Rightarrow> (int \<times> string) option" where
  "parseZone s = (case s of [] \<Rightarrow> None | c # cs \<Rightarrow>
      if c = CHR ''Z'' then Some (0, cs)
      else if length s < 6 \<or> s ! 3 \<noteq> CHR '':'' then None
      else case getnum 2 (take 2 cs) of None \<Rightarrow> None | Some (hr, _) \<Rightarrow>
        case getnum 2 (take 2 (drop 4 s)) of None \<Rightarrow> None | Some (mm, _) \<Rightarrow>
        if 24 < hr \<or> 60 < mm then None
        else if c = CHR ''+'' then Some ((hr * 60 + mm) * 60, drop 6 s)
        else if c = CHR ''-'' then Some (- ((hr * 60 + mm) * 60), drop 6 s)
        else None)"

text \<open>The time of day with its zone, in nanoseconds from midnight of the date as written.\<close>

definition parseClock :: "string \<Rightarrow> int option" where
  "parseClock s =
     (case getnum_var s of None \<Rightarrow> None | Some (h, s1) \<Rightarrow>
      if 24 \<le> h then None else
      case skip_char (CHR '':'') s1 of None \<Rightarrow> None | Some s2 \<Rightarrow>
      case getnum 2 s2 of None \<Rightarrow> None | Some (m, s3) \<Rightarrow>
      if 60 \<le> m then None else
      case skip_char (CHR '':'') s3 of None \<Rightarrow> None | Some s4 \<Rightarrow>
      case getnum 2 s4 of None \<Rightarrow> None | Some (sec, s5) \<Rightarrow>
      if 60 \<le> sec then None else
      let (ns, s6) = parseFraction s5 in
      case parseZone s6 of None \<Rightarrow> None | Some (off, s7) \<Rightarrow>
      if s7 \<noteq> [] then None
      else Some (((h * 60 + m) * 60 + sec - off) * 1000000000 + ns))"

definition time_Parse_RFC3339Nano :: "string \<Rightarrow> int option" where
  "time_Parse_RFC3339Nano s =
     (case time_Parse (take 10 s) of None \<Rightarrow> None | Some b \<Rightarrow>
      case skip_char (CHR ''T'') (drop 10 s) of None \<Rightarrow> None | Some rest \<Rightarrow>
      case parseClock rest of None \<Rightarrow> None | Some t \<Rightarrow>
      Some (bd_time (Date (year b) (month b) (day b)) + t))"

lemma time_Parse_RFC3339Nano_examples:
  "time_Parse_RFC3339Nano ''0001-01-02T00:00:01.5+00:01'' = Some (nsPerDay - 58500000000)"
  "time_Parse_RFC3339Nano ''0001-01-01T1:00:00Z'' = Some 3600000000000"
  "time_Parse_RFC3339Nano ''0001-02-30T01:00:00Z'' = None"
  "time_Parse_RFC3339Nano ''0001-02-01T24:00:00Z'' = None"
  by code_simp+

end
