(* ===== verification/Kafka.thy ===== *)
theory Kafka
  imports Broker
begin

text \<open>
  The clients of \<^verbatim>\<open>internal/broker/kafka.go\<close>. The franz-go client they drive is a parameter: a
  state of type \<open>'k\<close> and the record \<open>kgo\<close> of the calls the code makes. Configuration, the choice
  of options, error classification, the treatment of fetch errors, the commit and the
  transactional session around it are the code's own.
\<close>

section \<open>Error classes\<close>

definition isDataLoss :: "etag list \<Rightarrow> bool" where
  "isDataLoss e \<longleftrightarrow> TDataLoss \<in> set e"

text \<open>A deadline of the context is a \<^verbatim>\<open>net.Error\<close> too: it has \<^verbatim>\<open>Timeout\<close> and \<^verbatim>\<open>Temporary\<close>.\<close>

definition isNetError :: "etag list \<Rightarrow> bool" where
  "isNetError e \<longleftrightarrow> TNet \<in> set e \<or> TDeadline \<in> set e"

definition isConnErr :: "etag list \<Rightarrow> bool" where
  "isConnErr e \<longleftrightarrow> isNetError e \<or> TEOF \<in> set e \<or> TRefused \<in> set e \<or> TReset \<in> set e \<or> TPipe \<in> set e"

text \<open>\<^verbatim>\<open>errors.As\<close> finds the first protocol error of the chain.\<close>

fun protocolError :: "etag list \<Rightarrow> bool option" where
  "protocolError [] = None"
| "protocolError (t # ts) = (case t of TProtocol r \<Rightarrow> Some r | _ \<Rightarrow> protocolError ts)"

definition isRetriable :: "etag list \<Rightarrow> bool" where
  "isRetriable e = (case protocolError e of
      Some r \<Rightarrow> r
    | None \<Rightarrow> TClientClosed \<notin> set e \<and> isConnErr e)"

definition IsTransient :: "broker_error \<Rightarrow> bool" where
  "IsTransient err = (case err of
      ErrTransient _ \<Rightarrow> True
    | ErrKafka e \<Rightarrow> isRetriable e \<or> isDataLoss e
    | _ \<Rightarrow> False)"

section \<open>Configuration\<close>

definition DefaultPollTimeout :: int where
  "DefaultPollTimeout = 250000000"

record KafkaConfig =
  Seeds :: "string list"
  Group :: string
  Topics :: "string list"
  PollTimeout :: int
  ClientID :: string

definition cfg_validate :: "KafkaConfig \<Rightarrow> broker_error option" where
  "cfg_validate c = (if Seeds c = [] then Some (ErrBroker ''broker: no seed brokers configured'') else None)"

datatype kopt =
    SeedBrokers "string list" | ClientIDOpt string | AllISRAcks | ProducerBatchMaxBytes int | StickyKeyPartitioner
  | ConsumerGroup string | ConsumeTopics "string list" | ResetAtStart | DisableAutoCommit
  | TransactionalID string | RequireStableFetchOffsets

text \<open>The lag of one described group: fetch error, describe error, and the lag of every partition.\<close>

record groupLag =
  fetchErr :: bool
  describeErr :: bool
  partLags :: "int list list"

record 'k kgo =
  newClient :: "kopt list \<Rightarrow> etag list + 'k"
  createTopic :: "'k \<Rightarrow> string \<Rightarrow> int \<Rightarrow> int \<Rightarrow> (etag list option \<times> etag list option)"
  topicExists :: "etag list \<Rightarrow> bool"
  produceSync :: "'k \<Rightarrow> (string \<times> string \<times> string) list \<Rightarrow> etag list option list \<times> 'k"
  pollRecords :: "'k \<Rightarrow> nat \<Rightarrow> ((string \<times> int \<times> etag list) list \<times> Record list) \<times> 'k"
  commitRecords :: "'k \<Rightarrow> (string \<times> int \<times> int) list \<Rightarrow> etag list option \<times> 'k"
  admLag :: "'k \<Rightarrow> string \<Rightarrow> etag list + groupLag list"
  sessBegin :: "'k \<Rightarrow> etag list option \<times> 'k"
  sessEnd :: "'k \<Rightarrow> bool \<Rightarrow> (bool \<times> etag list option) \<times> 'k"
  closeClient :: "'k \<Rightarrow> 'k"

section \<open>Administration\<close>

definition EnsureTopic :: "'k kgo \<Rightarrow> string list \<Rightarrow> string \<Rightarrow> int \<Rightarrow> int \<Rightarrow> broker_error option" where
  "EnsureTopic g seeds topic partitions replicas =
     (case newClient g [SeedBrokers seeds, ClientIDOpt ''shadowbook-admin''] of
        Inl e \<Rightarrow> Some (ErrKafka e)
      | Inr cl \<Rightarrow>
          let (err, respErr) = createTopic g cl topic partitions replicas in
          case err of
            Some e \<Rightarrow> if topicExists g e then None else Some (ErrKafka e)
          | None \<Rightarrow> (case respErr of
              Some e \<Rightarrow> if \<not> topicExists g e then Some (ErrKafka e) else None
            | None \<Rightarrow> None))"

definition totalLag :: "groupLag list \<Rightarrow> int" where
  "totalLag ls = foldl add64 0
     (concat (map (\<lambda>l. if fetchErr l \<or> describeErr l then [] else filter (\<lambda>n. n > 0) (concat (partLags l))) ls))"

definition GroupLag :: "'k kgo \<Rightarrow> string list \<Rightarrow> string \<Rightarrow> broker_error + int" where
  "GroupLag g seeds grp =
     (case newClient g [SeedBrokers seeds, ClientIDOpt ''shadowbook-lag''] of
        Inl e \<Rightarrow> Inl (ErrKafka e)
      | Inr cl \<Rightarrow> (case admLag g cl grp of Inl e \<Rightarrow> Inl (ErrKafka e) | Inr ls \<Rightarrow> Inr (totalLag ls)))"

section \<open>Producer\<close>

definition NewKafkaProducer :: "'k kgo \<Rightarrow> KafkaConfig \<Rightarrow> broker_error + 'k" where
  "NewKafkaProducer g cfg =
     (case cfg_validate cfg of Some e \<Rightarrow> Inl e | None \<Rightarrow>
      let cid = (if ClientID cfg = [] then ''shadowbook-relay'' else ClientID cfg) in
      case newClient g [SeedBrokers (Seeds cfg), ClientIDOpt cid, AllISRAcks,
          ProducerBatchMaxBytes (2 ^ 20), StickyKeyPartitioner] of
        Inl e \<Rightarrow> Inl (ErrKafka e) | Inr cl \<Rightarrow> Inr cl)"

fun FirstErr :: "etag list option list \<Rightarrow> etag list option" where
  "FirstErr [] = None"
| "FirstErr (None # rs) = FirstErr rs"
| "FirstErr (Some e # rs) = Some e"

definition KafkaProduce :: "'k kgo \<Rightarrow> 'k \<Rightarrow> Record list \<Rightarrow> (broker_error + unit) \<times> 'k" where
  "KafkaProduce g k records =
     (if records = [] then (Inr (), k)
      else let (results, k') = produceSync g k (map (\<lambda>r. (kTopic r, kKey r, kValue r)) records) in
        case FirstErr results of Some e \<Rightarrow> (Inl (ErrKafka e), k') | None \<Rightarrow> (Inr (), k'))"

definition KafkaProducer_Close :: "'k kgo \<Rightarrow> 'k \<Rightarrow> 'k" where
  "KafkaProducer_Close g k = closeClient g k"

section \<open>Consumer\<close>

record 'k KafkaConsumer =
  kcl :: 'k
  kgroup :: string
  ktimeout :: int
  dataLoss :: int

definition DataLossEvents :: "'k KafkaConsumer \<Rightarrow> int" where
  "DataLossEvents c = dataLoss c"

definition NewKafkaConsumer :: "'k kgo \<Rightarrow> KafkaConfig \<Rightarrow> broker_error + 'k KafkaConsumer" where
  "NewKafkaConsumer g cfg =
     (case cfg_validate cfg of Some e \<Rightarrow> Inl e | None \<Rightarrow>
      if Group cfg = [] then Inl (ErrBroker ''broker: consumer group id is required'')
      else if Topics cfg = [] then Inl (ErrBroker ''broker: no topics to consume'')
      else let cid = (if ClientID cfg = [] then ''shadowbook-consumer'' else ClientID cfg) in
      case newClient g [SeedBrokers (Seeds cfg), ClientIDOpt cid, ConsumerGroup (Group cfg),
          ConsumeTopics (Topics cfg), ResetAtStart, DisableAutoCommit] of
        Inl e \<Rightarrow> Inl (ErrKafka e)
      | Inr cl \<Rightarrow> Inr \<lparr>kcl = cl, kgroup = Group cfg,
          ktimeout = (if PollTimeout cfg \<le> 0 then DefaultPollTimeout else PollTimeout cfg), dataLoss = 0\<rparr>)"

text \<open>The loop over the fetch errors: the data losses counted, and the error that stops it.\<close>

fun scanFetchErrors :: "(string \<times> int \<times> etag list) list \<Rightarrow> int \<Rightarrow> int \<times> broker_error option" where
  "scanFetchErrors [] n = (n, None)"
| "scanFetchErrors ((t, p, e) # es) n =
     (if TDeadline \<in> set e \<or> TCanceled \<in> set e then scanFetchErrors es n
      else if isDataLoss e then scanFetchErrors es (n + 1)
      else if isRetriable e then scanFetchErrors es n
      else (n, Some (ErrKafka e)))"

text \<open>\<open>ctxDone\<close> is the caller's context after the poll.\<close>

definition KafkaPoll ::
  "'k kgo \<Rightarrow> bool \<Rightarrow> 'k KafkaConsumer \<Rightarrow> nat \<Rightarrow> (broker_error + Record list) \<times> 'k KafkaConsumer" where
  "KafkaPoll g ctxDone c mx =
     (let ((errs, recs), k') = pollRecords g (kcl c) mx; c' = c\<lparr>kcl := k'\<rparr> in
      if ctxDone then (Inl ErrCtx, c')
      else let (n, stop) = scanFetchErrors errs (dataLoss c'); c'' = c'\<lparr>dataLoss := n\<rparr> in
        case stop of Some e \<Rightarrow> (Inl e, c'') | None \<Rightarrow> (Inr recs, c''))"

definition offsetsOf :: "Record list \<Rightarrow> (string \<times> int \<times> int) list" where
  "offsetsOf rs = map (\<lambda>r. (kTopic r, kPartition r, kOffset r)) rs"

definition KafkaCommit ::
  "'k kgo \<Rightarrow> 'k KafkaConsumer \<Rightarrow> Record list \<Rightarrow> (broker_error + unit) \<times> 'k KafkaConsumer" where
  "KafkaCommit g c records =
     (if records = [] then (Inr (), c)
      else let (err, k') = commitRecords g (kcl c) (offsetsOf records); c' = c\<lparr>kcl := k'\<rparr> in
        case err of
          Some e \<Rightarrow> (Inl (if isRetriable e then ErrTransient e else ErrKafka e), c')
        | None \<Rightarrow> (Inr (), c'))"

definition KafkaLag :: "'k kgo \<Rightarrow> 'k KafkaConsumer \<Rightarrow> broker_error + int" where
  "KafkaLag g c = (case admLag g (kcl c) (kgroup c) of Inl e \<Rightarrow> Inl (ErrKafka e) | Inr ls \<Rightarrow> Inr (totalLag ls))"

definition KafkaConsumer_Close :: "'k kgo \<Rightarrow> 'k KafkaConsumer \<Rightarrow> 'k KafkaConsumer" where
  "KafkaConsumer_Close g c = c\<lparr>kcl := closeClient g (kcl c)\<rparr>"

definition kafkaOps :: "'k kgo \<Rightarrow> bool \<Rightarrow> 'k KafkaConsumer broker_ops" where
  "kafkaOps g ctxDone = \<lparr>poll = KafkaPoll g ctxDone, commit = KafkaCommit g, lag = KafkaLag g\<rparr>"

section \<open>Transactional consumer\<close>

record 'k KafkaTransactionalConsumer =
  sess :: 'k
  tgroup :: string
  ttimeout :: int
  inTxn :: bool
  aborted :: int
  tDataLoss :: int

definition NewKafkaTransactionalConsumer ::
  "'k kgo \<Rightarrow> KafkaConfig \<Rightarrow> broker_error + 'k KafkaTransactionalConsumer" where
  "NewKafkaTransactionalConsumer g cfg =
     (case cfg_validate cfg of Some e \<Rightarrow> Inl e | None \<Rightarrow>
      if Group cfg = [] then Inl (ErrBroker ''broker: consumer group id is required'')
      else if Topics cfg = [] then Inl (ErrBroker ''broker: no topics to consume'')
      else let cid = (if ClientID cfg = [] then ''shadowbook-consumer-d'' else ClientID cfg) in
      case newClient g [SeedBrokers (Seeds cfg), ClientIDOpt cid, ConsumerGroup (Group cfg),
          ConsumeTopics (Topics cfg), ResetAtStart, TransactionalID (Group cfg @ ''-txn''), RequireStableFetchOffsets] of
        Inl e \<Rightarrow> Inl (ErrKafka e)
      | Inr s \<Rightarrow> Inr \<lparr>sess = s, tgroup = Group cfg,
          ttimeout = (if PollTimeout cfg \<le> 0 then DefaultPollTimeout else PollTimeout cfg),
          inTxn = False, aborted = 0, tDataLoss = 0\<rparr>)"

definition AbortedTransactions :: "'k KafkaTransactionalConsumer \<Rightarrow> int" where
  "AbortedTransactions c = aborted c"

definition endTxn ::
  "'k kgo \<Rightarrow> 'k KafkaTransactionalConsumer \<Rightarrow> bool \<Rightarrow> (bool \<times> etag list option) \<times> 'k KafkaTransactionalConsumer" where
  "endTxn g c tryCommit =
     (let (r, k') = sessEnd g (sess c) tryCommit in (r, c\<lparr>sess := k', inTxn := False\<rparr>))"

definition TxnPollOpen ::
  "'k kgo \<Rightarrow> bool \<Rightarrow> 'k KafkaTransactionalConsumer \<Rightarrow> nat \<Rightarrow>
   (broker_error + Record list) \<times> 'k KafkaTransactionalConsumer" where
  "TxnPollOpen g ctxDone c mx =
     (let ((errs, recs), k') = pollRecords g (sess c) mx; c1 = c\<lparr>sess := k'\<rparr> in
      if ctxDone then (Inl ErrCtx, c1)
      else let (n, stop) = scanFetchErrors errs (tDataLoss c1); c2 = c1\<lparr>tDataLoss := n\<rparr> in
        case stop of
          Some e \<Rightarrow> (Inl e, c2)
        | None \<Rightarrow> (Inr recs, if recs = [] then snd (endTxn g c2 False) else c2))"

definition TxnPoll ::
  "'k kgo \<Rightarrow> bool \<Rightarrow> 'k KafkaTransactionalConsumer \<Rightarrow> nat \<Rightarrow>
   (broker_error + Record list) \<times> 'k KafkaTransactionalConsumer" where
  "TxnPoll g ctxDone c mx =
     (if \<not> inTxn c then
        (let (err, k') = sessBegin g (sess c); c' = c\<lparr>sess := k'\<rparr> in
         case err of
           Some e \<Rightarrow> (Inl (ErrTransient e), c')
         | None \<Rightarrow> TxnPollOpen g ctxDone (c'\<lparr>inTxn := True\<rparr>) mx)
      else TxnPollOpen g ctxDone c mx)"

definition TxnCommit ::
  "'k kgo \<Rightarrow> 'k KafkaTransactionalConsumer \<Rightarrow> Record list \<Rightarrow> (broker_error + unit) \<times> 'k KafkaTransactionalConsumer" where
  "TxnCommit g c records =
     (if \<not> inTxn c then (Inr (), c)
      else let ((committed, err), c') = endTxn g c True in
        case err of
          Some e \<Rightarrow> (Inl (ErrTransient e), c')
        | None \<Rightarrow>
            if \<not> committed then (Inl (ErrTransient []), c'\<lparr>aborted := aborted c' + 1\<rparr>)
            else (Inr (), c'))"

definition TxnLag :: "'k kgo \<Rightarrow> 'k KafkaTransactionalConsumer \<Rightarrow> broker_error + int" where
  "TxnLag g c = (case admLag g (sess c) (tgroup c) of Inl e \<Rightarrow> Inl (ErrKafka e) | Inr ls \<Rightarrow> Inr (totalLag ls))"

definition TxnClose :: "'k kgo \<Rightarrow> 'k KafkaTransactionalConsumer \<Rightarrow> 'k KafkaTransactionalConsumer" where
  "TxnClose g c =
     (let c1 = (if inTxn c then snd (endTxn g c False) else c) in c1\<lparr>sess := closeClient g (sess c1)\<rparr>)"

definition txnOps :: "'k kgo \<Rightarrow> bool \<Rightarrow> 'k KafkaTransactionalConsumer broker_ops" where
  "txnOps g ctxDone = \<lparr>poll = TxnPoll g ctxDone, commit = TxnCommit g, lag = TxnLag g\<rparr>"

end
