(* ===== verification/Consumer.thy ===== *)
theory Consumer
  imports Ledger Kafka Timeformat
begin

text \<open>
  The package \<^verbatim>\<open>internal/ledger/consumer\<close>: movements taken from the broker and booked against a
  suspense account under one of four delivery modes, which differ in the order of commit and
  apply and in the inbox row. \<open>RunOnce\<close> is written over any consumer of the broker. What is not
  code of the repository is the record \<open>cext\<close>: the protobuf decoder and \<^verbatim>\<open>uuid.Parse\<close>; a random
  \<^verbatim>\<open>uuid.New()\<close> is an argument of each call.
\<close>

section \<open>Modes and options\<close>

type_synonym Mode = string

definition AtMostOnce :: Mode where
  "AtMostOnce = ''A''"

definition AtLeastOnce :: Mode where
  "AtLeastOnce = ''B''"

definition InboxDedup :: Mode where
  "InboxDedup = ''C''"

definition Transactional :: Mode where
  "Transactional = ''D''"

lemmas mode_defs = AtMostOnce_def AtLeastOnce_def InboxDedup_def Transactional_def

definition Valid :: "Mode \<Rightarrow> bool" where
  "Valid m \<longleftrightarrow> m = AtMostOnce \<or> m = AtLeastOnce \<or> m = InboxDedup \<or> m = Transactional"

datatype cons_error =
    ErrUnknownMode Mode
  | ErrUnmarshal
  | ErrNoMessageId
  | ErrAccountId string
  | ErrConsMoney money_error
  | ErrConsBusinessDate date_error
  | ErrConsValueDate date_error
  | ErrConsPostedAt string
  | ErrConsBegin store_error
  | ErrClaimInbox store_error
  | ErrConsPosting store_error
  | ErrConsEntries store_error
  | ErrConsCommit store_error
  | ErrPoll broker_error
  | ErrBrokerCommit Mode broker_error
  | ErrSuspenseAccount string store_error

record Options =
  oMode :: Mode
  oTopic :: string
  oBatch :: int
  oMetrics :: bool

record Consumer =
  cmode :: Mode
  copts :: Options

definition NewConsumer :: "Options \<Rightarrow> cons_error + Consumer" where
  "NewConsumer o0 =
     (if \<not> Valid (oMode o0) then Inl (ErrUnknownMode (oMode o0))
      else let o1 = (if oTopic o0 = [] then o0\<lparr>oTopic := ''shadowbook.movements.v1''\<rparr> else o0);
               o2 = (if oBatch o1 \<le> 0 then o1\<lparr>oBatch := 100\<rparr> else o1)
           in Inr \<lparr>cmode = oMode o2, copts = o2\<rparr>)"

record Stats =
  Polled :: nat
  Applied :: nat
  Duplicates :: nat
  Failed :: nat

definition cons_suspenseNamespace :: uuid where
  "cons_suspenseNamespace = 0x9c4e5b1827f35a6db0e41d7f8c3a5b92"

definition SuspenseAccountFor :: "ext \<Rightarrow> string \<Rightarrow> uuid" where
  "SuspenseAccountFor x cur = newSHA1 x cons_suspenseNamespace (''suspense/'' @ cur)"

definition kindOrTransfer :: "string \<Rightarrow> string" where
  "kindOrTransfer k = (if k \<in> {''transfer'', ''interest'', ''fee'', ''reversal''} then k else ''transfer'')"

section \<open>Decoding a movement\<close>

record MovementEvent =
  mvMessageId :: string
  mvAccountId :: string
  mvMinor :: int
  mvCurrency :: string
  mvBusinessDate :: string
  mvValueDate :: string
  mvPostedAt :: string
  mvKind :: string

record cext =
  protoUnmarshal :: "string \<Rightarrow> MovementEvent option"
  uuidParse :: "string \<Rightarrow> uuid option"

record Movement =
  vMessage :: string
  vAccount :: uuid
  vAmount :: Amount
  vBusinessDate :: BusinessDate
  vValueDate :: BusinessDate
  vPostedAt :: int
  vKind :: string

definition decodeMovement :: "cext \<Rightarrow> Record \<Rightarrow> cons_error + Movement" where
  "decodeMovement cx rec =
     (case protoUnmarshal cx (kValue rec) of None \<Rightarrow> Inl ErrUnmarshal | Some ev \<Rightarrow>
      if mvMessageId ev = [] then Inl ErrNoMessageId else
      case uuidParse cx (mvAccountId ev) of None \<Rightarrow> Inl (ErrAccountId (mvAccountId ev)) | Some acc \<Rightarrow>
      case money_New (mvMinor ev) (mvCurrency ev) of Inl e \<Rightarrow> Inl (ErrConsMoney e) | Inr amt \<Rightarrow>
      case Parse (mvBusinessDate ev) of Inl e \<Rightarrow> Inl (ErrConsBusinessDate e) | Inr bd \<Rightarrow>
      case Parse (mvValueDate ev) of Inl e \<Rightarrow> Inl (ErrConsValueDate e) | Inr vd \<Rightarrow>
      case time_Parse_RFC3339Nano (mvPostedAt ev) of None \<Rightarrow> Inl (ErrConsPostedAt (mvPostedAt ev)) | Some at \<Rightarrow>
      Inr \<lparr>vMessage = mvMessageId ev, vAccount = acc, vAmount = amt, vBusinessDate = bd,
           vValueDate = vd, vPostedAt = at, vKind = mvKind ev\<rparr>)"

section \<open>Applying a movement\<close>

definition dedups :: "Mode \<Rightarrow> bool" where
  "dedups m \<longleftrightarrow> m = InboxDedup \<or> m = Transactional"

definition movementPostingID :: "ext \<Rightarrow> Mode \<Rightarrow> uuid \<Rightarrow> string \<Rightarrow> uuid" where
  "movementPostingID x m fresh msg =
     (if m = AtLeastOnce \<or> m = AtMostOnce then fresh
      else newSHA1 x cons_suspenseNamespace (''movement/'' @ msg))"

definition movementPosting :: "uuid \<Rightarrow> Movement \<Rightarrow> Posting" where
  "movementPosting pid v = \<lparr>pId = pid, pPrincipal = ''consumer'', pKind = kindOrTransfer (vKind v),
     pCurrency = currency (vAmount v), pBusinessDate = vBusinessDate v, pValueDate = vValueDate v,
     pPostedAt = vPostedAt v, pReverses = None\<rparr>"

definition movementEntries :: "ext \<Rightarrow> uuid \<Rightarrow> Movement \<Rightarrow> Entry list" where
  "movementEntries x pid v =
     [\<lparr>eId = 0, ePosting = pid, eAccount = vAccount v, eAmount = vAmount v,
       eBusinessDate = vBusinessDate v, eValueDate = vValueDate v, eReverses = None\<rparr>,
      \<lparr>eId = 0, ePosting = pid, eAccount = SuspenseAccountFor x (currency (vAmount v)),
       eAmount = Amount_Neg (vAmount v),
       eBusinessDate = vBusinessDate v, eValueDate = vValueDate v, eReverses = None\<rparr>]"

definition apply_movement ::
  "ext \<Rightarrow> cext \<Rightarrow> Mode \<Rightarrow> uuid \<Rightarrow> world \<Rightarrow> db \<Rightarrow> Record \<Rightarrow> (cons_error + bool) \<times> db" where
  "apply_movement x cx m fresh w d rec =
     (case decodeMovement cx rec of Inl e \<Rightarrow> (Inl e, d) | Inr v \<Rightarrow>
      case conn w StBegin of Some msg \<Rightarrow> (Inl (ErrConsBegin (ErrConn msg)), d) | None \<Rightarrow>
      let pid = movementPostingID x m fresh (vMessage v); fail = (\<lambda>e cur. (Inl e, tx_Rollback d cur)) in
      attempt (if dedups m
               then inject w StClaim d (ClaimInboxMessage d (vMessage v) (kTopic rec) (kPartition rec) (kOffset rec))
               else (Inr (), d))
        (\<lambda>e d1. if IsUniqueViolation e ConstraintInbox then (Inr False, tx_Rollback d d1) else fail (ErrClaimInbox e) d1) (\<lambda>_ d1.
      attempt (inject w StPosting d1 (InsertPosting d1 (movementPosting pid v)))
        (\<lambda>e. fail (ErrConsPosting e)) (\<lambda>_ d2.
      attempt (inject w StEntries d2 (InsertEntries d2 (movementEntries x pid v) []))
        (\<lambda>e. fail (ErrConsEntries e)) (\<lambda>_ d3.
      attempt (commit_in w d d3)
        (\<lambda>e d4. (Inl (ErrConsCommit e), d4)) (\<lambda>_ d4. (Inr True, d4))))))"

section \<open>One batch\<close>

text \<open>
  The metrics are the labels counted, in order, and the last lag published.
\<close>

record Counters =
  movements :: "(Mode \<times> string) list"
  consumerLag :: "(Mode \<times> int) option"

definition count :: "Consumer \<Rightarrow> string \<Rightarrow> Counters \<Rightarrow> Counters" where
  "count c result k = (if oMetrics (copts c) then k\<lparr>movements := movements k @ [(cmode c, result)]\<rparr> else k)"

text \<open>
  The loop over the records: record number \<open>i\<close> meets the connection \<open>ws i\<close> and would draw the
  identifier \<open>ids i\<close>.
\<close>

fun applyAll ::
  "ext \<Rightarrow> cext \<Rightarrow> Consumer \<Rightarrow> (nat \<Rightarrow> uuid) \<Rightarrow> (nat \<Rightarrow> world) \<Rightarrow> nat \<Rightarrow> db \<Rightarrow> Record list \<Rightarrow> Stats \<Rightarrow> Counters \<Rightarrow>
   (Stats \<times> cons_error option) \<times> db \<times> Counters" where
  "applyAll x cx c ids ws i d [] st k = ((st, None), d, k)"
| "applyAll x cx c ids ws i d (rec # rs) st k =
     (case apply_movement x cx (cmode c) (ids i) (ws i) d rec of
        (Inl e, d') \<Rightarrow> ((st\<lparr>Failed := Failed st + 1\<rparr>, Some e), d', count c ''failed'' k)
      | (Inr True, d') \<Rightarrow> applyAll x cx c ids ws (Suc i) d' rs (st\<lparr>Applied := Applied st + 1\<rparr>) (count c ''applied'' k)
      | (Inr False, d') \<Rightarrow>
          applyAll x cx c ids ws (Suc i) d' rs (st\<lparr>Duplicates := Duplicates st + 1\<rparr>) (count c ''duplicate_suppressed'' k))"

definition noStats :: Stats where
  "noStats = \<lparr>Polled = 0, Applied = 0, Duplicates = 0, Failed = 0\<rparr>"

definition RunOnce ::
  "'b broker_ops \<Rightarrow> ext \<Rightarrow> cext \<Rightarrow> Consumer \<Rightarrow> (nat \<Rightarrow> uuid) \<Rightarrow> (nat \<Rightarrow> world) \<Rightarrow> db \<Rightarrow> 'b \<Rightarrow> Counters \<Rightarrow>
   (Stats \<times> cons_error option) \<times> db \<times> 'b \<times> Counters" where
  "RunOnce br x cx c ids ws d b k =
     attempt (poll br b (nat (oBatch (copts c))))
       (\<lambda>e b1. ((noStats, Some (ErrPoll e)), d, b1, k))
       (\<lambda>records b1.
         let st = noStats\<lparr>Polled := length records\<rparr>;
             ended = (\<lambda>st b k. ((st, None), d, b, k));
             body = (\<lambda>b2.
               let ((st', err), d', k') = applyAll x cx c ids ws 0 d records st k in
               case err of Some e \<Rightarrow> ((st', Some e), d', b2, k') | None \<Rightarrow>
               let publish = (\<lambda>b3. ((st', None), d', b3,
                     case lag br b3 of Inl _ \<Rightarrow> k' | Inr n \<Rightarrow>
                       if oMetrics (copts c) then k'\<lparr>consumerLag := Some (cmode c, n)\<rparr> else k')) in
               if cmode c = AtMostOnce then publish b2
               else attempt (commit br b2 records)
                 (\<lambda>e b3. if IsTransient e then ((st', None), d', b3, count c ''commit_deferred'' k')
                         else ((st', Some (ErrBrokerCommit (cmode c) e)), d', b3, k'))
                 (\<lambda>_ b3. publish b3))
         in if records = [] then ended st b1 k
            else if cmode c = AtMostOnce
            then attempt (commit br b1 records)
              (\<lambda>e b2. if IsTransient e then ended st b2 (count c ''commit_deferred'' k)
                      else ((st, Some (ErrBrokerCommit AtMostOnce e)), d, b2, k))
              (\<lambda>_ b2. body b2)
            else body b1)"

section \<open>The run loop and the suspense accounts\<close>

text \<open>
  \<^verbatim>\<open>Run\<close> over the turns of its loop, each with the identifiers and connections of its batch;
  when the list ends the context is cancelled. An error that is a cancellation or a closed
  broker ends the loop without an error.
\<close>

definition brokerCanceled :: "broker_error \<Rightarrow> bool" where
  "brokerCanceled e = (case e of
      ErrCtx \<Rightarrow> True | ErrTransient ts \<Rightarrow> TCanceled \<in> set ts | ErrKafka ts \<Rightarrow> TCanceled \<in> set ts | _ \<Rightarrow> False)"

definition isCanceled :: "cons_error \<Rightarrow> bool" where
  "isCanceled e = (case e of
      ErrPoll b \<Rightarrow> brokerCanceled b | ErrBrokerCommit _ b \<Rightarrow> brokerCanceled b
    | ErrConsBegin s \<Rightarrow> s = ErrConn ''context canceled'' | ErrClaimInbox s \<Rightarrow> s = ErrConn ''context canceled''
    | ErrConsPosting s \<Rightarrow> s = ErrConn ''context canceled'' | ErrConsEntries s \<Rightarrow> s = ErrConn ''context canceled''
    | ErrConsCommit s \<Rightarrow> s = ErrConn ''context canceled''
    | _ \<Rightarrow> False)"

definition isClosed :: "cons_error \<Rightarrow> bool" where
  "isClosed e = (case e of ErrPoll b \<Rightarrow> b = ErrClosed | ErrBrokerCommit _ b \<Rightarrow> b = ErrClosed | _ \<Rightarrow> False)"

fun cons_Run ::
  "'b broker_ops \<Rightarrow> ext \<Rightarrow> cext \<Rightarrow> Consumer \<Rightarrow> ((nat \<Rightarrow> uuid) \<times> (nat \<Rightarrow> world)) list \<Rightarrow> db \<Rightarrow> 'b \<Rightarrow> Counters \<Rightarrow>
   cons_error option \<times> db \<times> 'b \<times> Counters" where
  "cons_Run br x cx c [] d b k = (None, d, b, k)"
| "cons_Run br x cx c ((ids, ws) # turns) d b k =
     (let ((st, err), d', b', k') = RunOnce br x cx c ids ws d b k in
      case err of
        Some e \<Rightarrow> (if isCanceled e \<or> isClosed e then None else Some e, d', b', k')
      | None \<Rightarrow> cons_Run br x cx c turns d' b' k')"

fun ensureLoop :: "ext \<Rightarrow> BusinessDate \<Rightarrow> db \<Rightarrow> string list \<Rightarrow> (cons_error + unit) \<times> db" where
  "ensureLoop x opened d [] = (Inr (), d)"
| "ensureLoop x opened d (cur # cs) =
     attempt (InsertAccount d \<lparr>aId = SuspenseAccountFor x cur, aProductCode = ''SUSPENSE'', aCurrency = cur, aOpenedOn = opened\<rparr>)
       (\<lambda>e d'. if IsUniqueViolation e [] then ensureLoop x opened d' cs else (Inl (ErrSuspenseAccount cur e), d'))
       (\<lambda>_ d'. ensureLoop x opened d' cs)"

definition EnsureSuspenseAccounts :: "ext \<Rightarrow> db \<Rightarrow> BusinessDate \<Rightarrow> (cons_error + unit) \<times> db" where
  "EnsureSuspenseAccounts x d opened = ensureLoop x opened d [''USD'', ''EUR'', ''JPY'']"

text \<open>The in-memory broker as a consumer.\<close>

definition fakeOps :: "bool \<Rightarrow> Fake broker_ops" where
  "fakeOps ctxDone = \<lparr>poll = Poll ctxDone, commit = Commit, lag = (\<lambda>f. Inr (Lag f))\<rparr>"

section \<open>The effect of one movement\<close>

text \<open>The documented range of the decoded amount: a protobuf \<^verbatim>\<open>int64\<close>.\<close>

definition cext_ok :: "cext \<Rightarrow> bool" where
  "cext_ok cx \<longleftrightarrow> (\<forall>s ev. protoUnmarshal cx s = Some ev \<longrightarrow> in64 (mvMinor ev))"

text \<open>A movement written as the request whose legs it books.\<close>

definition movementRequest :: "ext \<Rightarrow> Movement \<Rightarrow> Request" where
  "movementRequest x v = \<lparr>qPrincipal = ''consumer'', qKey = [], qKind = kindOrTransfer (vKind v),
     qCurrency = currency (vAmount v), qBusinessDate = vBusinessDate v, qValueDate = vValueDate v,
     qPostedAt = vPostedAt v, qReverses = None,
     qEntries = [\<lparr>qAccount = vAccount v, qAmountMinor = minor (vAmount v)\<rparr>,
       \<lparr>qAccount = SuspenseAccountFor x (currency (vAmount v)), qAmountMinor = - minor (vAmount v)\<rparr>]\<rparr>"

definition booked :: "ext \<Rightarrow> Mode \<Rightarrow> uuid \<Rightarrow> Movement \<Rightarrow> Record \<Rightarrow> db \<Rightarrow> db" where
  "booked x m pid v rec d = d\<lparr>postings := postings d @ [storedPosting (movementRequest x v) pid],
     entries := entries d @ storedLegs (movementRequest x v) pid (seq_entry d) (qEntries (movementRequest x v)),
     seq_entry := seq_entry d + 2,
     inbox := inbox d @ (if dedups m then [\<lparr>mId = vMessage v, mTopic = kTopic rec, mPartition = kPartition rec,
       mOffset = kOffset rec\<rparr>] else [])\<rparr>"

lemma decode_amount:
  assumes "decodeMovement cx rec = Inr v" "cext_ok cx"
  shows "money_New (minor (vAmount v)) (currency (vAmount v)) = Inr (vAmount v)" "in64 (minor (vAmount v))"
  using assms by (auto simp: decodeMovement_def cext_ok_def money_New_Inr_iff split: option.splits if_splits sum.splits)

lemma decode_known:
  assumes "decodeMovement cx rec = Inr v" "cext_ok cx"
  shows "currency (vAmount v) \<in> set Known" "minor (vAmount v) \<noteq> MinInt64"
  using decode_amount(1) [OF assms] scaleOf_Known [of "currency (vAmount v)"] by (auto simp: money_New_Inr_iff)

lemma money_New_neg:
  assumes "money_New n c = Inr a" "neg64 n = - n" "- n \<noteq> MinInt64"
  shows "money_New (- n) c = Inr (Amount_Neg a)"
  using assms by (auto simp: money_New_def Amount_Neg_def split: option.splits if_splits)

lemma movement_envelope: "movementPosting pid v = envelope (movementRequest x v) pid"
  by (simp add: movementPosting_def envelope_def movementRequest_def)

lemma movement_built:
  assumes "decodeMovement cx rec = Inr v" "cext_ok cx"
  shows "buildEntries (movementRequest x v) pid (qEntries (movementRequest x v)) = Inr (movementEntries x pid v)"
proof -
  note amt = decode_amount [OF assms] decode_known [OF assms]
  have neg: "neg64 (minor (vAmount v)) = - minor (vAmount v)" "- minor (vAmount v) \<noteq> MinInt64"
    using amt(2,4) neg64_total [of "minor (vAmount v)"] by (auto simp: in64_iff MinInt64_def)
  have "money_New (- minor (vAmount v)) (currency (vAmount v)) = Inr (Amount_Neg (vAmount v))"
    using money_New_neg [OF amt(1) neg] .
  with amt(1) show ?thesis by (simp add: movementRequest_def movementEntries_def)
qed

text \<open>The transaction of a movement, by what it can do to the database.\<close>

lemma claim_cases:
  assumes "(if dedups m then inject w StClaim d (ClaimInboxMessage d msg tp pt off) else (Inr (), d)) = (r, d1)"
  obtains (claimed) "r = Inr ()" "dedups m \<longrightarrow> \<not> (\<exists>i \<in> set (inbox d). mId i = msg)"
      "d1 = d\<lparr>inbox := inbox d @ (if dedups m then [\<lparr>mId = msg, mTopic = tp, mPartition = pt, mOffset = off\<rparr>] else [])\<rparr>"
  | (duplicate) "r = Inl (PgError SQLStateUniqueViolation ConstraintInbox)" "d1 = d" "dedups m"
      "\<exists>i \<in> set (inbox d). mId i = msg"
  | (lost) s where "r = Inl (ErrConn s)" "d1 = d"
proof (cases "dedups m")
  case False
  with assms have "r = Inr ()" "d1 = d" by simp_all
  with False claimed show ?thesis by simp
next
  case d: True
  show ?thesis
  proof (cases "conn w StClaim")
    case (Some s)
    with assms d show ?thesis by (intro lost [of s]) (simp_all add: inject_def)
  next
    case None
    with assms d have C: "ClaimInboxMessage d msg tp pt off = (r, d1)" by (simp add: inject_def)
    show ?thesis
    proof (cases "\<exists>i \<in> set (inbox d). mId i = msg")
      case True
      with C d duplicate show ?thesis by (simp add: ClaimInboxMessage_def)
    next
      case False
      with C d claimed show ?thesis by (simp add: ClaimInboxMessage_def)
    qed
  qed
qed

lemma apply_cases:
  assumes "cext_ok cx" "apply_movement x cx m fresh w d rec = (res, d')"
  obtains (error) e where "res = Inl e" "unchanged d d'"
  | (duplicate) v where "decodeMovement cx rec = Inr v" "dedups m" "res = Inr False" "d' = d"
      "\<exists>i \<in> set (inbox d). mId i = vMessage v"
  | (applied) v where "decodeMovement cx rec = Inr v"
      "d' = booked x m (movementPostingID x m fresh (vMessage v)) v rec d"
      "res = Inr True \<or> (\<exists>e. res = Inl e \<and> ackLost w \<and> conn w StCommit \<noteq> None)"
      "\<not> has_posting d (movementPostingID x m fresh (vMessage v))"
      "dedups m \<longrightarrow> \<not> (\<exists>i \<in> set (inbox d). mId i = vMessage v)"
      "\<forall>e \<in> set (qEntries (movementRequest x v)). has_account d (qAccount e)"
proof (cases "decodeMovement cx rec")
  case (Inl e)
  with assms(2) show ?thesis by (intro error) (auto simp: apply_movement_def)
next
  case v: (Inr v)
  note built = movement_built [OF v assms(1)] and known = decode_known(1) [OF v assms(1)]
  show ?thesis
  proof (cases "conn w StBegin")
    case (Some s)
    with v assms(2) show ?thesis by (intro error) (auto simp: apply_movement_def)
  next
    case B: None
    let ?pid = "movementPostingID x m fresh (vMessage v)" and ?r = "movementRequest x v"
    let ?rows = "if dedups m then [\<lparr>mId = vMessage v, mTopic = kTopic rec, mPartition = kPartition rec, mOffset = kOffset rec\<rparr>] else []"
    note P = assms(2) [unfolded apply_movement_def v B option.case sum.case Let_def]
    obtain r1 d1 where 1: "(if dedups m then inject w StClaim d
        (ClaimInboxMessage d (vMessage v) (kTopic rec) (kPartition rec) (kOffset rec)) else (Inr (), d)) = (r1, d1)" by force
    from 1 show ?thesis
    proof (cases rule: claim_cases)
      case (duplicate)
      with P 1 v that(2) show ?thesis by (simp add: IsUniqueViolation_def)
    next
      case (lost s)
      with P 1 show ?thesis by (intro error) (auto simp: IsUniqueViolation_def)
    next
      case claimed
      note P1 = P [unfolded 1 claimed(1) attempt_simps]
      obtain r2 d2 where 2: "inject w StPosting d1 (InsertPosting d1 (movementPosting ?pid v)) = (r2, d2)" by force
      obtain r3 d3 where 3: "inject w StEntries d2 (InsertEntries d2 (movementEntries x ?pid v) []) = (r3, d3)" by force
      show ?thesis
      proof (cases "(\<exists>e. r2 = Inl e) \<or> (\<exists>e. r3 = Inl e)")
        case True
        with P1 2 3 show ?thesis by (cases r2; cases r3) (auto intro: error)
      next
        case False
        then obtain u ids where ok: "r2 = Inr u" "r3 = Inr ids" by (cases r2; cases r3) auto
        have "InsertPosting d1 (envelope ?r ?pid) = (Inr u, d2)"
          using 2 ok(1) by (simp add: inject_Inr movement_envelope [of _ _ x, symmetric])
        note post = InsertPosting_Inr [OF this, unfolded movementRequest_def, simplified, OF known, folded movementRequest_def]
        note legs = InsertEntries_legs [OF built 3 [unfolded ok inject_Inr, THEN conjunct2]]
        have eq: "d3 = booked x m ?pid v rec d"
          using post legs claimed(3) by (simp add: booked_def movementRequest_def)
        have acc: "\<forall>e \<in> set (qEntries ?r). has_account d (qAccount e)"
          using legs post claimed(3) by simp
        have fresh: "\<not> has_posting d ?pid" using post claimed(3) by simp
        obtain r4 d4 where 4: "commit_in w d d3 = (r4, d4)" by force
        note P4 = P1 [unfolded 2 3 ok attempt_simps 4]
        from 4 show ?thesis
        proof (cases rule: commit_in_cases)
          case committed
          with P4 that(3) [OF v] eq acc fresh claimed(2) show ?thesis by simp
        next
          case (lost e)
          then have "res = Inl (ErrConsCommit e)" "d' = d3" using P4 by simp_all
          with lost(3,4) show ?thesis by (intro that(3) [OF v]) (use eq acc fresh claimed(2) in simp_all)
        next
          case (rolledback e)
          with P4 show ?thesis by (intro error) auto
        qed
      qed
    qed
  qed
qed

section \<open>Every mode keeps the books\<close>

lemma booked_fields [simp]:
  "accounts (booked x m pid v rec d) = accounts d" "checkpoints (booked x m pid v rec d) = checkpoints d"
  "holds (booked x m pid v rec d) = holds d" "outbox (booked x m pid v rec d) = outbox d"
  "idempotency (booked x m pid v rec d) = idempotency d" "eod_runs (booked x m pid v rec d) = eod_runs d"
  "seq_outbox (booked x m pid v rec d) = seq_outbox d" "seq_entry (booked x m pid v rec d) = seq_entry d + 2"
  "entries (booked x m pid v rec d) =
     entries d @ storedLegs (movementRequest x v) pid (seq_entry d) (qEntries (movementRequest x v))"
  "postings (booked x m pid v rec d) = postings d @ [storedPosting (movementRequest x v) pid]"
  "inbox (booked x m pid v rec d) = inbox d @ (if dedups m then [\<lparr>mId = vMessage v, mTopic = kTopic rec,
     mPartition = kPartition rec, mOffset = kOffset rec\<rparr>] else [])"
  by (simp_all add: booked_def)

lemma booked_has:
  "has_posting (booked x m pid v rec d) i \<longleftrightarrow> has_posting d i \<or> i = pid"
  "has_account (booked x m pid v rec d) = has_account d"
  by (auto simp: has_posting_def has_account_def storedPosting_def envelope_def fun_eq_iff)

lemma booked_wf:
  assumes "db_wf d" "\<not> has_posting d pid" "dedups m \<longrightarrow> \<not> (\<exists>i \<in> set (inbox d). mId i = vMessage v)"
    and "\<forall>e \<in> set (qEntries (movementRequest x v)). has_account d (qAccount e)"
  shows "db_wf (booked x m pid v rec d)"
proof -
  let ?r = "movementRequest x v" and ?d = "booked x m pid v rec d"
  have "keys_ok ?d"
    using assms(1-3) by (auto simp: db_wf_def keys_ok_def storedPosting_def envelope_def has_posting_def)
  moreover have "seqs_ok ?d"
  proof -
    have len: "length (qEntries ?r) = 2" by (simp add: movementRequest_def)
    have "sorted_wrt (<) (map eId (entries ?d))"
      using assms(1) idsFrom_bounds [of _ "seq_entry d" "length (qEntries ?r)"]
      by (fastforce simp: db_wf_def seqs_ok_def sorted_wrt_append storedLegs_ids sorted_idsFrom)
    moreover have "\<forall>e \<in> set (entries ?d). 0 < eId e \<and> eId e < seq_entry ?d"
      using assms(1) storedLegs_bounds [of _ ?r pid "seq_entry d" "qEntries ?r"] len
      by (fastforce simp: db_wf_def seqs_ok_def)
    ultimately show ?thesis using assms(1) by (simp add: db_wf_def seqs_ok_def)
  qed
  moreover have "refs_ok ?d"
    unfolding refs_ok_def booked_has booked_fields
    using assms(1,4) storedLegs_facts(2) [of ?r pid "seq_entry d" "qEntries ?r"]
      storedLegs_accounts [of _ ?r pid "seq_entry d" "qEntries ?r"]
    by (fastforce simp: db_wf_def refs_ok_def)
  ultimately show ?thesis by (simp add: db_wf_def)
qed

lemma booked_zero_sum:
  assumes "db_wf d" "zero_sum d" "\<not> has_posting d pid"
  shows "zero_sum (booked x m pid v rec d)"
proof (rule commit_zero_sum [OF assms(2) booked_fields(9)])
  let ?r = "movementRequest x v"
  have two: "2 \<le> length (qEntries ?r)" "(\<Sum>e\<leftarrow>qEntries ?r. qAmountMinor e) = 0"
    by (simp_all add: movementRequest_def)
  have "tx_Commit d (booked x m pid v rec d) = (Inr (), booked x m pid v rec d)"
    by (rule posted_commits [OF assms(1,3) two]) simp
  then show "\<forall>e \<in> set (storedLegs ?r pid (seq_entry d) (qEntries ?r)).
      assert_posting_zero_sum (booked x m pid v rec d) e = None"
    by (auto simp: tx_Commit_def firstError_None split: option.splits)
qed

lemma booked_idem:
  assumes "db_wf d" "idem_complete x d" "\<not> has_posting d pid"
  shows "idem_complete x (booked x m pid v rec d)"
proof -
  have "PostingIDFor x (iPrincipal i) (iKey i) \<noteq> pid" if "i \<in> set (idempotency d)" for i
    using assms that by (auto simp: idem_complete_def db_wf_def refs_ok_def)
  moreover have "posting_rows (storedLegs r pid n es) i = []" if "i \<noteq> pid" for r n es i
    using that storedLegs_facts(2) [of r pid n es] by (auto simp: posting_rows_def filter_empty_conv)
  ultimately show ?thesis using assms(2) by (auto simp: idem_complete_def posting_rows_append)
qed

lemma booked_ok:
  assumes "ledger_ok x d" "\<not> has_posting d pid" "dedups m \<longrightarrow> \<not> (\<exists>i \<in> set (inbox d). mId i = vMessage v)"
    and "\<forall>e \<in> set (qEntries (movementRequest x v)). has_account d (qAccount e)"
  shows "ledger_ok x (booked x m pid v rec d)"
proof -
  have "(\<Sum>e\<leftarrow>qEntries (movementRequest x v). qAmountMinor e) = 0" by (simp add: movementRequest_def)
  then have "\<forall>c. currencySum (entries (booked x m pid v rec d)) c = 0"
    using assms(1) by (simp add: currencySum_append currencySum_legs ledger_ok_def)
  with assms booked_wf booked_zero_sum booked_idem show ?thesis by (simp add: ledger_ok_def)
qed

lemma apply_seqs: "seqs_le d (snd (apply_movement x cx m fresh w d rec))"
proof -
  have "seqs_le d (snd (ClaimInboxMessage d a b c e))" for a b c e
    by (simp add: ClaimInboxMessage_def seqs_le_def)
  then show ?thesis
    unfolding apply_movement_def Let_def
    by (auto intro!: seqs_le_attempt seqs_le_ops op_seqs seqs_le_commit_in split: option.split sum.split)
qed

lemma unchanged_ok:
  assumes "ledger_ok x d" "unchanged d d'" "seqs_le d d'"
  shows "ledger_ok x d'"
proof -
  have "db_wf d'" using assms by (auto simp: seqs_le_def ledger_ok_def intro: unchanged_seqs_wf)
  with assms show ?thesis by (blast intro: core_ok unchanged_core)
qed

lemma apply_ok:
  assumes "cext_ok cx" "ledger_ok x d" "apply_movement x cx m fresh w d rec = (res, d')"
  shows "ledger_ok x d'"
  using assms(1,3)
proof (cases rule: apply_cases)
  case (error e)
  with assms(2,3) apply_seqs [of d x cx m fresh w rec] show ?thesis by (auto intro: unchanged_ok)
next
  case (applied v)
  with assms(2) show ?thesis by (simp add: booked_ok)
qed (use assms(2) in simp)

text \<open>What every single movement keeps, the loop over the records keeps.\<close>

lemma applyAll_preserves:
  assumes keep: "\<And>fresh w d rec res d'. P d \<Longrightarrow> apply_movement x cx (cmode c) fresh w d rec = (res, d') \<Longrightarrow> P d'"
  shows "P d \<Longrightarrow> applyAll x cx c ids ws i d rs st k = (out, d', k') \<Longrightarrow> P d'"
proof (induction rs arbitrary: i d st k)
  case (Cons rec rs)
  obtain r1 d1 where 1: "apply_movement x cx (cmode c) (ids i) (ws i) d rec = (r1, d1)" by force
  note ok = keep [OF Cons.prems(1) 1]
  show ?case
  proof (cases r1)
    case (Inr b)
    with Cons.IH [OF ok] Cons.prems(2) 1 show ?thesis by (cases b) simp_all
  qed (use Cons.prems 1 ok in simp)
qed simp

section \<open>Exactly once: what a deduplicating consumer books\<close>

text \<open>The content of an entry, and the two legs of a movement.\<close>

definition entryContent :: "Entry \<Rightarrow> uuid \<times> uuid \<times> int" where
  "entryContent e = (ePosting e, eAccount e, minor (eAmount e))"

definition movementLegs :: "ext \<Rightarrow> uuid \<Rightarrow> Movement \<Rightarrow> (uuid \<times> uuid \<times> int) list" where
  "movementLegs x pid v = [(pid, vAccount v, minor (vAmount v)),
     (pid, SuspenseAccountFor x (currency (vAmount v)), - minor (vAmount v))]"

lemma booked_content:
  "map entryContent (entries (booked x m pid v rec d)) = map entryContent (entries d) @ movementLegs x pid v"
  by (simp add: movementRequest_def movementLegs_def entryContent_def)

text \<open>
  \<open>d'\<close> extends \<open>d\<close> by the effects of movements from \<open>L\<close> with pairwise different new message ids, one
  inbox row and one pair of legs for each, and by nothing else.
\<close>

definition books :: "ext \<Rightarrow> cext \<Rightarrow> Mode \<Rightarrow> Record set \<Rightarrow> db \<Rightarrow> db \<Rightarrow> bool" where
  "books x cx m L d d' \<longleftrightarrow> (\<exists>vs.
     map mId (inbox d') = map mId (inbox d) @ map vMessage vs \<and>
     distinct (map vMessage vs) \<and> set (map vMessage vs) \<inter> set (map mId (inbox d)) = {} \<and>
     map entryContent (entries d') = map entryContent (entries d) @
       concat (map (\<lambda>v. movementLegs x (movementPostingID x m 0 (vMessage v)) v) vs) \<and>
     (\<forall>v \<in> set vs. \<exists>rec \<in> L. decodeMovement cx rec = Inr v))"

lemma books_refl: "inbox d' = inbox d \<Longrightarrow> entries d' = entries d \<Longrightarrow> books x cx m L d d'"
  unfolding books_def by (intro exI [of _ "[]"]) simp

lemma books_trans:
  assumes "books x cx m L d d1" "books x cx m L d1 d2"
  shows "books x cx m L d d2"
proof -
  from assms(1) obtain vs where 1: "map mId (inbox d1) = map mId (inbox d) @ map vMessage vs"
    "distinct (map vMessage vs)" "set (map vMessage vs) \<inter> set (map mId (inbox d)) = {}"
    "map entryContent (entries d1) = map entryContent (entries d) @
       concat (map (\<lambda>v. movementLegs x (movementPostingID x m 0 (vMessage v)) v) vs)"
    "\<forall>v \<in> set vs. \<exists>rec \<in> L. decodeMovement cx rec = Inr v" unfolding books_def by blast
  from assms(2) obtain us where 2: "map mId (inbox d2) = map mId (inbox d1) @ map vMessage us"
    "distinct (map vMessage us)" "set (map vMessage us) \<inter> set (map mId (inbox d1)) = {}"
    "map entryContent (entries d2) = map entryContent (entries d1) @
       concat (map (\<lambda>v. movementLegs x (movementPostingID x m 0 (vMessage v)) v) us)"
    "\<forall>v \<in> set us. \<exists>rec \<in> L. decodeMovement cx rec = Inr v" unfolding books_def by blast
  have "set (map vMessage us) \<inter> (set (map mId (inbox d)) \<union> set (map vMessage vs)) = {}"
    using 2(3) unfolding 1(1) by simp
  with 1 2 show ?thesis unfolding books_def
    by (intro exI [of _ "vs @ us"]) (simp add: Int_Un_distrib Int_Un_distrib2 Int_commute ball_Un)
qed

lemma books_mono: "books x cx m L d d' \<Longrightarrow> L \<subseteq> L' \<Longrightarrow> books x cx m L' d d'"
  unfolding books_def by blast

lemma dedup_id: "dedups m \<Longrightarrow> movementPostingID x m fresh msg = movementPostingID x m 0 msg"
  by (auto simp: dedups_def movementPostingID_def mode_defs)

lemma tx_Rollback_tables:
  "inbox (tx_Rollback d c) = inbox d" "entries (tx_Rollback d c) = entries d"
  "accounts (tx_Rollback d c) = accounts d" "postings (tx_Rollback d c) = postings d"
  by (simp_all add: tx_Rollback_def)

lemma unchanged_tables:
  assumes "unchanged d d'"
  shows "inbox d' = inbox d" "entries d' = entries d" "accounts d' = accounts d" "postings d' = postings d"
proof -
  have "d' = tx_Rollback d d'" using assms by (simp add: unchanged_def)
  then show "inbox d' = inbox d" "entries d' = entries d" "accounts d' = accounts d" "postings d' = postings d"
    by (metis tx_Rollback_tables)+
qed

lemma apply_books:
  assumes "cext_ok cx" "dedups m" "apply_movement x cx m fresh w d rec = (res, d')"
  shows "books x cx m {rec} d d'"
  using assms(1,3)
proof (cases rule: apply_cases)
  case (error e)
  then show ?thesis by (intro books_refl unchanged_tables)
next
  case (duplicate v)
  then show ?thesis by (intro books_refl) simp_all
next
  case (applied v)
  note id = dedup_id [OF assms(2), of x fresh "vMessage v"]
  have "map mId (inbox d') = map mId (inbox d) @ map vMessage [v]"
    using applied(2) assms(2) by simp
  moreover have "set (map vMessage [v]) \<inter> set (map mId (inbox d)) = {}"
    using applied(5) assms(2) by auto
  moreover have "map entryContent (entries d') = map entryContent (entries d) @
      concat (map (\<lambda>v. movementLegs x (movementPostingID x m 0 (vMessage v)) v) [v])"
    unfolding applied(2) booked_content id by simp
  ultimately show ?thesis unfolding books_def using applied(1)
    by (intro exI [of _ "[v]"] conjI) auto
qed

lemma applyAll_books:
  assumes "cext_ok cx" "dedups (cmode c)"
  shows "applyAll x cx c ids ws i d rs st k = (out, d', k') \<Longrightarrow> books x cx (cmode c) (set rs) d d'"
proof (induction rs arbitrary: i d st k)
  case Nil
  then show ?case by (intro books_refl) simp_all
next
  case (Cons rec rs)
  obtain r1 d1 where 1: "apply_movement x cx (cmode c) (ids i) (ws i) d rec = (r1, d1)" by force
  have one: "books x cx (cmode c) (set (rec # rs)) d d1"
    using apply_books [OF assms 1] by (rule books_mono) simp
  show ?case
  proof (cases r1)
    case (Inl e)
    with Cons.prems 1 one show ?thesis by simp
  next
    case (Inr b)
    with Cons.prems 1 obtain st1 k1 where "applyAll x cx c ids ws (Suc i) d1 rs st1 k1 = (out, d', k')"
      by (cases b) auto
    from books_mono [OF Cons.IH [OF this]] have "books x cx (cmode c) (set (rec # rs)) d1 d'" by auto
    with one show ?thesis by (rule books_trans)
  qed
qed

section \<open>Batches and restarts\<close>

text \<open>What a batch can have done: nothing to the database, or the records of its poll.\<close>

lemma RunOnce_cases:
  assumes "RunOnce br x cx c ids ws d b k = ((st, err), d', b', k')"
  obtains (quiet) "d' = d"
  | (worked) records b1 st0 k0 out k1 where "poll br b (nat (oBatch (copts c))) = (Inr records, b1)"
      "applyAll x cx c ids ws 0 d records st0 k0 = (out, d', k1)"
proof (cases "d' = d")
  case False
  obtain r b1 where p: "poll br b (nat (oBatch (copts c))) = (r, b1)" by force
  note R = assms [unfolded RunOnce_def p Let_def]
  obtain records where r: "r = Inr records" using R False by (cases r) simp_all
  let ?st = "noStats\<lparr>Polled := length records\<rparr>"
  obtain st1 e1 d1 k1 where A: "applyAll x cx c ids ws 0 d records ?st k = ((st1, e1), d1, k1)" by (metis surj_pair)
  have "d' = d1"
  proof (cases "cmode c = AtMostOnce")
    case True
    obtain r2 b2 where "commit br b1 records = (r2, b2)" by force
    with R r A True False show ?thesis
      by (cases r2; cases e1) (auto split: if_splits)
  next
    case m: False
    obtain r2 b2 where "commit br b1 records = (r2, b2)" by force
    with R r A m False show ?thesis
      by (cases r2; cases e1) (auto split: if_splits)
  qed
  with p r A worked show ?thesis by blast
qed (rule quiet)

text \<open>A source of records: polling and committing do not change what has been produced.\<close>

locale record_source =
  fixes br :: "'b broker_ops"
    and durable :: "'b \<Rightarrow> Record set"
  assumes poll_durable: "poll br b n = (r, b') \<Longrightarrow> durable b' = durable b"
    and poll_records: "poll br b n = (Inr rs, b') \<Longrightarrow> set rs \<subseteq> durable b"
    and commit_durable: "commit br b rs = (res, b') \<Longrightarrow> durable b' = durable b"
begin

lemma RunOnce_durable:
  assumes "RunOnce br x cx c ids ws d b k = ((st, err), d', b', k')"
  shows "durable b' = durable b"
proof -
  obtain r b1 where p: "poll br b (nat (oBatch (copts c))) = (r, b1)" by force
  note R = assms [unfolded RunOnce_def p Let_def] and d1 = poll_durable [OF p]
  show ?thesis
  proof (cases r)
    case (Inl e)
    with R d1 show ?thesis by simp
  next
    case (Inr records)
    let ?st = "noStats\<lparr>Polled := length records\<rparr>"
    obtain st1 e1 d2 k1 where A: "applyAll x cx c ids ws 0 d records ?st k = ((st1, e1), d2, k1)" by (metis surj_pair)
    obtain r2 b2 where "commit br b1 records = (r2, b2)" by force
    with commit_durable have "durable b2 = durable b1" by blast
    moreover have "b' = b1 \<or> b' = b2"
      using R Inr A \<open>commit br b1 records = (r2, b2)\<close>
      by (cases r2; cases e1; cases "cmode c = AtMostOnce") (auto split: if_splits)
    ultimately show ?thesis using d1 by auto
  qed
qed

lemma RunOnce_books:
  assumes "cext_ok cx" "dedups (cmode c)" "RunOnce br x cx c ids ws d b k = ((st, err), d', b', k')"
  shows "books x cx (cmode c) (durable b) d d'"
  using assms(3)
proof (cases rule: RunOnce_cases)
  case quiet
  then show ?thesis by (intro books_refl) simp_all
next
  case (worked records b1 st0 k0 out k1)
  with applyAll_books [OF assms(1,2)] poll_records show ?thesis by (blast intro: books_mono)
qed

lemma Run_books:
  assumes "cext_ok cx" "dedups (cmode c)"
  shows "cons_Run br x cx c turns d b k = (err, d', b', k') \<Longrightarrow>
    books x cx (cmode c) (durable b) d d' \<and> durable b' = durable b"
proof (induction turns arbitrary: d b k)
  case Nil
  then show ?case using books_refl [of d d] by simp
next
  case (Cons turn turns)
  obtain ids ws where turn: "turn = (ids, ws)" by force
  obtain st e d1 b1 k1 where R: "RunOnce br x cx c ids ws d b k = ((st, e), d1, b1, k1)" by (metis surj_pair)
  note one = RunOnce_books [OF assms R] and dur = RunOnce_durable [OF R]
  show ?case
  proof (cases e)
    case (Some er)
    with Cons.prems turn R one dur show ?thesis by simp
  next
    case None
    with Cons.prems turn R have "cons_Run br x cx c turns d1 b1 k1 = (err, d', b', k')" by simp
    from Cons.IH [OF this] one dur show ?thesis by (auto intro: books_trans)
  qed
qed

end

definition produced_log :: "Fake \<Rightarrow> Record set" where
  "produced_log f = (\<Union>(t, rs) \<in> set (flog f). set rs)"

lemma topicLog_produced: "set (topicLog (flog f) t) \<subseteq> produced_log f"
proof (cases "map_of (flog f) t")
  case (Some rs)
  from map_of_SomeD [OF this] Some show ?thesis by (auto simp: topicLog_def produced_log_def)
qed (simp add: topicLog_def)

lemma pollTopic_log:
  assumes "pollTopic n f out t = Inr (out', f')"
  shows "flog f' = flog f" "set out' \<subseteq> set out \<union> produced_log f"
proof -
  show "flog f' = flog f" using assms by (auto simp: pollTopic_def Let_def split: if_splits)
  have got: "y \<in> produced_log f" if "y \<in> set (take a (drop b (topicLog (flog f) t)))" for y a b
    using that topicLog_produced [of f t] by (meson in_set_dropD in_set_takeD subset_iff)
  from assms show "set out' \<subseteq> set out \<union> produced_log f"
    by (auto simp: pollTopic_def Let_def split: if_splits dest: got)
qed

lemma pollTopics_log:
  "pollTopics n f out ts = (r, f') \<Longrightarrow>
     flog f' = flog f \<and> (\<forall>rs. r = Inr rs \<longrightarrow> set rs \<subseteq> set out \<union> produced_log f)"
proof (induction n f out ts rule: pollTopics.induct)
  case (2 n f out t ts)
  show ?case
  proof (cases "pollTopic n f out t")
    case (Inl e)
    with 2 show ?thesis by auto
  next
    case (Inr q)
    then obtain out1 f1 where q: "pollTopic n f out t = Inr (out1, f1)" by (cases q) auto
    note l = pollTopic_log [OF q]
    from q 2(2) have "pollTopics n f1 out1 ts = (r, f')" by simp
    from 2(1) [OF q refl this] l show ?thesis by (fastforce simp: produced_log_def)
  qed
qed auto

lemma Poll_log: "Poll ctx f n = (r, f') \<Longrightarrow> flog f' = flog f \<and> (\<forall>rs. r = Inr rs \<longrightarrow> set rs \<subseteq> produced_log f)"
proof -
  have re: "flog (redeliver f) = flog f" by (simp add: redeliver_def)
  assume P: "Poll ctx f n = (r, f')"
  show ?thesis
  proof (cases "closed f \<or> ctx")
    case True
    with P show ?thesis by (auto simp: Poll_def split: if_splits)
  next
    case False
    with P have "pollTopics n (redeliver f) [] (sort (map fst (flog (redeliver f)))) = (r, f')"
      by (auto simp: Poll_def Let_def)
    from pollTopics_log [OF this] re show ?thesis by (simp add: produced_log_def)
  qed
qed

interpretation fake_source: record_source "fakeOps ctxDone" produced_log for ctxDone
proof unfold_locales
  fix f f' n r assume "poll (fakeOps ctxDone) f n = (r, f')"
  then show "produced_log f' = produced_log f" using Poll_log by (fastforce simp: fakeOps_def produced_log_def)
next
  fix f f' n rs assume "poll (fakeOps ctxDone) f n = (Inr rs, f')"
  then show "set rs \<subseteq> produced_log f" using Poll_log by (fastforce simp: fakeOps_def)
next
  fix f f' rs r assume "commit (fakeOps ctxDone) f rs = (r, f')"
  then show "produced_log f' = produced_log f" by (simp add: fakeOps_def Commit_def)
qed

text \<open>A consumer restarted again and again, each time on a cursor put back somewhere.\<close>

fun restarts ::
  "ext \<Rightarrow> cext \<Rightarrow> Consumer \<Rightarrow> (string \<times> int \<times> ((nat \<Rightarrow> uuid) \<times> (nat \<Rightarrow> world)) list) list \<Rightarrow> db \<Rightarrow> Fake \<Rightarrow> db \<times> Fake" where
  "restarts x cx c [] d f = (d, f)"
| "restarts x cx c ((t, to, turns) # ss) d f =
     (let (err, d', f', k) = cons_Run (fakeOps False) x cx c turns d (Rewind f t to) \<lparr>movements = [], consumerLag = None\<rparr>
      in restarts x cx c ss d' f')"

lemma restarts_books:
  assumes "cext_ok cx" "dedups (cmode c)"
  shows "restarts x cx c ss d f = (d', f') \<Longrightarrow> books x cx (cmode c) (produced_log f) d d'"
proof (induction ss arbitrary: d f)
  case Nil
  then show ?case by (intro books_refl) simp_all
next
  case (Cons s ss)
  obtain t to turns where s: "s = (t, to, turns)" by (cases s)
  obtain err d1 f1 k1 where R: "cons_Run (fakeOps False) x cx c turns d (Rewind f t to)
      \<lparr>movements = [], consumerLag = None\<rparr> = (err, d1, f1, k1)" by (metis surj_pair)
  have re: "produced_log (Rewind f t to) = produced_log f" by (simp add: produced_log_def Rewind_def)
  from fake_source.Run_books [OF assms R] re
  have "books x cx (cmode c) (produced_log f) d d1" "produced_log f1 = produced_log f" by simp_all
  with Cons.IH [of d1 f1] Cons.prems s R show ?case by (auto intro: books_trans)
qed

section \<open>A movement that can be booked is booked\<close>

definition bookable :: "ext \<Rightarrow> db \<Rightarrow> Movement \<Rightarrow> bool" where
  "bookable x d v \<longleftrightarrow> has_account d (vAccount v) \<and> has_account d (SuspenseAccountFor x (currency (vAmount v)))"

lemma bookable_request: "bookable x d v \<longleftrightarrow> (\<forall>e \<in> set (qEntries (movementRequest x v)). has_account d (qAccount e))"
  by (simp add: bookable_def movementRequest_def)

lemma apply_succeeds:
  assumes "cext_ok cx" "decodeMovement cx rec = Inr v" "healthy w" "db_wf d" "bookable x d v"
    and "\<not> has_posting d (movementPostingID x m fresh (vMessage v))"
    and "dedups m \<Longrightarrow> \<not> (\<exists>i \<in> set (inbox d). mId i = vMessage v)"
  shows "apply_movement x cx m fresh w d rec =
    (Inr True, booked x m (movementPostingID x m fresh (vMessage v)) v rec d)"
proof -
  let ?pid = "movementPostingID x m fresh (vMessage v)" and ?r = "movementRequest x v"
  note built = movement_built [OF assms(2,1)] and known = decode_known(1) [OF assms(2,1)]
  have c: "conn w st = None" for st using assms(3) by (simp add: healthy_def)
  define d1 where "d1 = d\<lparr>inbox := inbox d @ (if dedups m then [\<lparr>mId = vMessage v, mTopic = kTopic rec,
    mPartition = kPartition rec, mOffset = kOffset rec\<rparr>] else [])\<rparr>"
  define d2 where "d2 = d1\<lparr>postings := postings d1 @ [storedPosting ?r ?pid]\<rparr>"
  have 1: "(if dedups m then inject w StClaim d (ClaimInboxMessage d (vMessage v) (kTopic rec) (kPartition rec) (kOffset rec))
      else (Inr (), d)) = (Inr (), d1)"
    using assms(7) c by (simp add: d1_def inject_def ClaimInboxMessage_def)
  have kind: "qKind ?r \<in> set kinds" and cur: "qCurrency ?r \<in> set Known" and rev: "qReverses ?r = None"
    using known by (simp_all add: movementRequest_def kindOrTransfer_def kinds_def)
  have ps: "has_posting d1 = has_posting d" "has_account d2 = has_account d" "has_posting d2 ?pid"
    by (simp_all add: d1_def d2_def has_posting_def has_account_def fun_eq_iff storedPosting_def envelope_def)
  have 2: "inject w StPosting d1 (InsertPosting d1 (movementPosting ?pid v)) = (Inr (), d2)"
    using assms(6) kind cur rev c ps(1)
    by (simp add: inject_def movement_envelope [of _ _ x] InsertPosting_def d2_def storedPosting_def envelope_def)
  obtain ids d3 where ins: "InsertEntries d2 (movementEntries x ?pid v) [] = (Inr ids, d3)"
    using InsertEntries_ok [OF built ps(3) _ cur] ps(2) assms(5) by (metis bookable_request)
  then have 3: "inject w StEntries d2 (InsertEntries d2 (movementEntries x ?pid v) []) = (Inr ids, d3)"
    using c by (simp add: inject_def)
  have eq: "d3 = booked x m ?pid v rec d"
    using InsertEntries_legs [OF built ins] by (simp add: booked_def movementRequest_def d1_def d2_def)
  have "tx_Commit d d3 = (Inr (), d3)"
    using posted_commits [OF assms(4,6), of "qEntries ?r" d3 ?r "seq_entry d"] eq
    by (simp add: movementRequest_def)
  then have 4: "commit_in w d d3 = (Inr (), d3)" using c by (simp add: commit_in_def)
  show ?thesis
    unfolding apply_movement_def assms(2) c sum.case option.case Let_def 1 2 3 attempt_simps using 4 eq by simp
qed

lemma apply_duplicate:
  assumes "decodeMovement cx rec = Inr v" "healthy w" "dedups m" "\<exists>i \<in> set (inbox d). mId i = vMessage v"
  shows "apply_movement x cx m fresh w d rec = (Inr False, d)"
proof -
  have c: "conn w st = None" for st using assms(2) by (simp add: healthy_def)
  show ?thesis using assms
    by (simp add: apply_movement_def c inject_def ClaimInboxMessage_def IsUniqueViolation_def)
qed

section \<open>Redelivery\<close>

text \<open>The same record delivered once for each identifier of a list.\<close>

fun redeliveries ::
  "ext \<Rightarrow> cext \<Rightarrow> Mode \<Rightarrow> world \<Rightarrow> Record \<Rightarrow> uuid list \<Rightarrow> db \<Rightarrow> (cons_error + bool) list \<times> db" where
  "redeliveries x cx m w rec [] d = ([], d)"
| "redeliveries x cx m w rec (f # fs) d =
     (let (r, d1) = apply_movement x cx m f w d rec; (rs, d2) = redeliveries x cx m w rec fs d1 in (r # rs, d2))"

lemma redeliveries_duplicate:
  assumes "decodeMovement cx rec = Inr v" "healthy w" "dedups m" "\<exists>i \<in> set (inbox d). mId i = vMessage v"
  shows "redeliveries x cx m w rec fs d = (replicate (length fs) (Inr False), d)"
  by (induction fs) (simp_all add: apply_duplicate [OF assms])

lemma redeliveries_B:
  assumes "cext_ok cx" "decodeMovement cx rec = Inr v" "healthy w" "ledger_ok x d" "bookable x d v"
    and "distinct fs" "\<forall>f \<in> set fs. \<not> has_posting d f"
  shows "fst (redeliveries x cx AtLeastOnce w rec fs d) = replicate (length fs) (Inr True) \<and>
    map entryContent (entries (snd (redeliveries x cx AtLeastOnce w rec fs d))) =
      map entryContent (entries d) @ concat (map (\<lambda>f. movementLegs x f v) fs)"
  using assms(4-7)
proof (induction fs arbitrary: d)
  case (Cons f fs)
  have id: "movementPostingID x AtLeastOnce f (vMessage v) = f" and nd: "\<not> dedups AtLeastOnce"
    by (simp_all add: movementPostingID_def dedups_def mode_defs)
  let ?d = "booked x AtLeastOnce f v rec d"
  have A: "apply_movement x cx AtLeastOnce f w d rec = (Inr True, ?d)"
    using apply_succeeds [OF assms(1-3) _ Cons.prems(2), of AtLeastOnce f] Cons.prems(1,4) id nd
    by (simp add: ledger_ok_def)
  have "ledger_ok x ?d" using Cons.prems nd by (intro booked_ok) (auto simp: bookable_request)
  moreover have "bookable x ?d v" using Cons.prems(2) by (simp add: bookable_def booked_has)
  moreover have "\<forall>g \<in> set fs. \<not> has_posting ?d g" using Cons.prems(3,4) by (auto simp: booked_has)
  ultimately show ?case
    using Cons.IH [of ?d] Cons.prems(3) A booked_content [of x AtLeastOnce f v rec d]
    by (auto simp: Let_def split: prod.split)
qed simp

section \<open>The crash window\<close>

text \<open>The first record of a batch meets a dead connection.\<close>

lemma applyAll_dead:
  assumes "decodeMovement cx rec = Inr v" "conn (ws i) StBegin = Some e"
  shows "applyAll x cx c ids ws i d (rec # rs) st k =
    ((st\<lparr>Failed := Failed st + 1\<rparr>, Some (ErrConsBegin (ErrConn e))), d, count c ''failed'' k)"
  using assms by (simp add: apply_movement_def)

section \<open>Sample data\<close>

definition sampleMovement :: MovementEvent where
  "sampleMovement = \<lparr>mvMessageId = ''m1'', mvAccountId = ''a'', mvMinor = 700, mvCurrency = ''USD'',
     mvBusinessDate = ''2028-01-03'', mvValueDate = ''2028-01-03'', mvPostedAt = ''2028-01-03T10:00:00Z'', mvKind = ''deposit''\<rparr>"

definition sampleCext :: cext where
  "sampleCext = \<lparr>protoUnmarshal = (\<lambda>s. if s = ''p'' then Some sampleMovement else None), uuidParse = (\<lambda>s. Some 1)\<rparr>"

definition sampleRecord :: Record where
  "sampleRecord = \<lparr>kTopic = ''t'', kKey = ''a'', kValue = ''p'', kPartition = 0, kOffset = 0\<rparr>"

definition sampleV :: Movement where
  "sampleV = \<lparr>vMessage = ''m1'', vAccount = 1, vAmount = \<lparr>minor = 700, currency = ''USD'', scale = 2\<rparr>,
     vBusinessDate = BusinessDate 2028 1 3, vValueDate = BusinessDate 2028 1 3, vPostedAt = bd_time (BusinessDate 2028 1 3) + 36000000000000, vKind = ''deposit''\<rparr>"

definition sampleConsumer :: "Mode \<Rightarrow> Consumer" where
  "sampleConsumer m = \<lparr>cmode = m, copts = \<lparr>oMode = m, oTopic = ''t'', oBatch = 10, oMetrics = False\<rparr>\<rparr>"

definition consExt :: ext where
  "consExt = sampleExt\<lparr>newSHA1 := (\<lambda>ns s. if s = ''suspense/USD'' then 2 else of_nat (length s))\<rparr>"

lemma sample_cext: "cext_ok sampleCext"
  by (simp add: cext_ok_def sampleCext_def sampleMovement_def in64_iff)

lemma sample_decode: "decodeMovement sampleCext sampleRecord = Inr sampleV"
  by code_simp

lemma sample_bookable: "bookable consExt sampleDB sampleV"
  using sample_accounts by (simp add: bookable_def consExt_def SuspenseAccountFor_def sampleV_def)

lemma sample_ledger_ok: "ledger_ok x sampleDB"
  by (rule steps_ok [OF sample_steps ledger_ok_empty])

section \<open>Properties\<close>

lemma Run_preserves:
  assumes keep: "\<And>fresh w d rec res d'. P d \<Longrightarrow> apply_movement x cx (cmode c) fresh w d rec = (res, d') \<Longrightarrow> P d'"
  shows "P d \<Longrightarrow> cons_Run br x cx c turns d b k = (err, d', b', k') \<Longrightarrow> P d'"
proof (induction turns arbitrary: d b k)
  case (Cons turn turns)
  obtain ids ws where turn: "turn = (ids, ws)" by force
  obtain st e d1 b1 k1 where R: "RunOnce br x cx c ids ws d b k = ((st, e), d1, b1, k1)" by (metis surj_pair)
  from R have ok: "P d1"
  proof (cases rule: RunOnce_cases)
    case (worked records b1 st0 k0 out k1)
    show ?thesis using keep Cons.prems(1) worked(2) by (rule applyAll_preserves)
  qed (use Cons.prems(1) in simp)
  show ?case
  proof (cases e)
    case (Some er)
    with Cons.prems turn R ok show ?thesis by simp
  next
    case None
    with Cons.prems turn R have "cons_Run br x cx c turns d1 b1 k1 = (err, d', b', k')" by simp
    with Cons.IH [OF ok] show ?thesis .
  qed
qed simp

lemma Run_ok:
  assumes "cext_ok cx" "ledger_ok x d" "cons_Run br x cx c turns d b k = (err, d', b', k')"
  shows "ledger_ok x d'"
  using apply_ok [OF assms(1)] assms(2,3) by (rule Run_preserves)

text \<open>
  Every mode keeps the books: over any broker and whatever fails, after a run of the consumer
  every posting still has at least two legs that sum to zero, every currency sums to zero,
  and keys and references are intact.
\<close>

theorem consumer_keeps_books:
  assumes "cext_ok cx" "ledger_ok x d" "cons_Run br x cx c turns d b k = (err, d', b', k')"
  shows "zero_sum d' \<and> (\<forall>cur. currencySum (entries d') cur = 0) \<and> db_wf d'"
  using Run_ok [OF assms] by (simp add: ledger_ok_def)

theorem consumer_keeps_books_witness:
  "\<exists>err d' b' k'. cons_Run (fakeOps False) consExt sampleCext (sampleConsumer AtLeastOnce) [(\<lambda>i. 9, \<lambda>i. sampleWorld)]
      sampleDB (NewFake\<lparr>flog := [(''t'', [sampleRecord])]\<rparr>) \<lparr>movements = [], consumerLag = None\<rparr> = (err, d', b', k') \<and> zero_sum d'"
proof -
  obtain err d' b' k' where R: "cons_Run (fakeOps False) consExt sampleCext (sampleConsumer AtLeastOnce) [(\<lambda>i. 9, \<lambda>i. sampleWorld)]
      sampleDB (NewFake\<lparr>flog := [(''t'', [sampleRecord])]\<rparr>) \<lparr>movements = [], consumerLag = None\<rparr> = (err, d', b', k')" by (metis surj_pair)
  from R consumer_keeps_books [OF sample_cext sample_ledger_ok R] show ?thesis by blast
qed

text \<open>
  Modes C and D book every message at most once: however often the consumer is restarted on
  a rewound cursor, with any failures of connection and commit in between, what it adds to
  the ledger is one pair of legs and one inbox row for each of a list of movements with
  pairwise different message ids, none of them booked before, all decoded from produced records.
\<close>

theorem consumer_books_once:
  assumes "cext_ok cx" "cmode c = InboxDedup \<or> cmode c = Transactional" "restarts x cx c ss d f = (d', f')"
  shows "\<exists>vs. map mId (inbox d') = map mId (inbox d) @ map vMessage vs \<and>
    distinct (map vMessage vs) \<and> set (map vMessage vs) \<inter> set (map mId (inbox d)) = {} \<and>
    map entryContent (entries d') = map entryContent (entries d) @
      concat (map (\<lambda>v. movementLegs x (movementPostingID x (cmode c) 0 (vMessage v)) v) vs) \<and>
    (\<forall>v \<in> set vs. \<exists>rec \<in> produced_log f. decodeMovement cx rec = Inr v)"
proof -
  have "dedups (cmode c)" using assms(2) by (auto simp: dedups_def)
  from restarts_books [OF assms(1) this assms(3)] show ?thesis by (simp add: books_def)
qed

theorem consumer_books_once_witness:
  "\<exists>d' f' (vs :: Movement list). restarts consExt sampleCext (sampleConsumer InboxDedup)
      [(''t'', 0, [(\<lambda>i. 9, \<lambda>i. lostAck)]), (''t'', 0, [(\<lambda>i. 9, \<lambda>i. sampleWorld)])] sampleDB
      (NewFake\<lparr>flog := [(''t'', [sampleRecord])]\<rparr>) = (d', f') \<and> distinct (map vMessage vs) \<and>
    map mId (inbox d') = map mId (inbox sampleDB) @ map vMessage vs"
proof -
  let ?ss = "[(''t'', 0, [(\<lambda>i. 9, \<lambda>i. lostAck)]), (''t'', 0, [(\<lambda>i. 9, \<lambda>i. sampleWorld)])]"
  obtain d' f' where R: "restarts consExt sampleCext (sampleConsumer InboxDedup) ?ss sampleDB
      (NewFake\<lparr>flog := [(''t'', [sampleRecord])]\<rparr>) = (d', f')" by force
  have "cmode (sampleConsumer InboxDedup) = InboxDedup \<or> cmode (sampleConsumer InboxDedup) = Transactional"
    by (simp add: sampleConsumer_def)
  from consumer_books_once [OF sample_cext this R] obtain vs :: "Movement list" where
    "map mId (inbox d') = map mId (inbox sampleDB) @ map vMessage vs" "distinct (map vMessage vs)" by blast
  with R show ?thesis by blast
qed

text \<open>
  C19. The finding the four modes are built to show: a record delivered \<open>n\<close> times over a working
  connection is booked \<open>n\<close> times in mode B, under \<open>n\<close> different postings, and exactly once in
  mode C, where every delivery after the first is reported as a duplicate.
\<close>

theorem redelivery_duplicates_in_B_not_C:
  assumes "cext_ok cx" "decodeMovement cx rec = Inr v" "healthy w" "ledger_ok x d" "bookable x d v"
    and "distinct (f # fs)" "\<forall>g \<in> set (f # fs). \<not> has_posting d g"
    and "\<not> has_posting d (movementPostingID x InboxDedup f (vMessage v))" "\<forall>i \<in> set (inbox d). mId i \<noteq> vMessage v"
  shows "map entryContent (entries (snd (redeliveries x cx AtLeastOnce w rec (f # fs) d))) =
      map entryContent (entries d) @ concat (map (\<lambda>g. movementLegs x g v) (f # fs)) \<and>
    fst (redeliveries x cx InboxDedup w rec (f # fs) d) = Inr True # replicate (length fs) (Inr False) \<and>
    map entryContent (entries (snd (redeliveries x cx InboxDedup w rec (f # fs) d))) =
      map entryContent (entries d) @ movementLegs x (movementPostingID x InboxDedup f (vMessage v)) v"
proof -
  let ?pid = "movementPostingID x InboxDedup f (vMessage v)"
  let ?d = "booked x InboxDedup ?pid v rec d"
  have dd: "dedups InboxDedup" by (simp add: dedups_def)
  have A: "apply_movement x cx InboxDedup f w d rec = (Inr True, ?d)"
    using apply_succeeds [OF assms(1-3) _ assms(5,8)] assms(4,9) by (auto simp: ledger_ok_def)
  have "\<exists>i \<in> set (inbox ?d). mId i = vMessage v" using dd by simp
  from redeliveries_duplicate [OF assms(2,3) dd this, of x fs]
  have "redeliveries x cx InboxDedup w rec (f # fs) d = (Inr True # replicate (length fs) (Inr False), ?d)"
    by (simp add: A)
  then show ?thesis
    using redeliveries_B [OF assms(1-7)] by (simp add: booked_content del: booked_fields)
qed

theorem redelivery_duplicates_in_B_not_C_witness:
  "length (entries (snd (redeliveries consExt sampleCext AtLeastOnce sampleWorld sampleRecord [7, 8, 9] sampleDB))) =
     length (entries sampleDB) + 6 \<and>
   length (entries (snd (redeliveries consExt sampleCext InboxDedup sampleWorld sampleRecord [7, 8, 9] sampleDB))) =
     length (entries sampleDB) + 2"
proof -
  have ib: "inbox sampleDB = []"
    by (simp add: sampleDB_def run_tx_def InsertAccount_def sampleAccount_def char3_def has_account_def
      emptyDB_def tx_Commit_def)
  have "distinct (7 # [8, 9 :: uuid])" by simp
  from redelivery_duplicates_in_B_not_C [OF sample_cext sample_decode sample_healthy sample_ledger_ok sample_bookable this]
  have "map entryContent (entries (snd (redeliveries consExt sampleCext AtLeastOnce sampleWorld sampleRecord [7, 8, 9] sampleDB))) =
      map entryContent (entries sampleDB) @ concat (map (\<lambda>g. movementLegs consExt g sampleV) [7, 8, 9])"
    "map entryContent (entries (snd (redeliveries consExt sampleCext InboxDedup sampleWorld sampleRecord [7, 8, 9] sampleDB))) =
      map entryContent (entries sampleDB) @ movementLegs consExt (movementPostingID consExt InboxDedup 7 (vMessage sampleV)) sampleV"
    using sample_fresh(1) ib by auto
  from this [THEN arg_cong [where f = length]] show ?thesis by (simp add: movementLegs_def)
qed

text \<open>
  The crash window of the four modes: when the database is gone as the first record of a
  batch is applied, nothing is booked and \<^verbatim>\<open>RunOnce\<close> returns the error; but in mode A the
  offsets of the whole batch have been committed by then, so it is lost, while in the other
  modes the broker is left where the poll put it, with nothing committed.
\<close>

theorem crash_window:
  assumes "poll br b (nat (oBatch (copts c))) = (Inr (rec # rs), b1)" "commit br b1 (rec # rs) = (Inr (), b2)"
    and "decodeMovement cx rec = Inr v" "conn (ws 0) StBegin = Some e"
  shows "\<exists>k'. RunOnce br x cx c ids ws d b k =
    ((\<lparr>Polled = Suc (length rs), Applied = 0, Duplicates = 0, Failed = 1\<rparr>, Some (ErrConsBegin (ErrConn e))), d,
     if cmode c = AtMostOnce then b2 else b1, k')"
  using assms(1,2) by (simp add: RunOnce_def Let_def applyAll_dead [where ws = ws and i = 0, OF assms(3,4)] noStats_def del: applyAll.simps)

theorem crash_window_witness:
  "\<exists>k'. RunOnce \<lparr>poll = (\<lambda>n k. (Inr [sampleRecord], n)), commit = (\<lambda>n rs. (Inr (), n + length rs)), lag = (\<lambda>n. Inr 0)\<rparr>
      consExt sampleCext (sampleConsumer AtMostOnce) (\<lambda>i. 9) (\<lambda>i. sampleWorld\<lparr>conn := (\<lambda>s. Some ''reset'')\<rparr>)
      sampleDB 0 \<lparr>movements = [], consumerLag = None\<rparr> =
    ((\<lparr>Polled = 1, Applied = 0, Duplicates = 0, Failed = 1\<rparr>, Some (ErrConsBegin (ErrConn ''reset''))), sampleDB, 1, k')"
proof -
  let ?br = "\<lparr>poll = (\<lambda>n k. (Inr [sampleRecord], n)), commit = (\<lambda>n rs. (Inr (), n + length rs)), lag = (\<lambda>n :: nat. Inr 0)\<rparr>"
  have "poll ?br 0 (nat (oBatch (copts (sampleConsumer AtMostOnce)))) = (Inr [sampleRecord], 0)"
    "commit ?br 0 [sampleRecord] = (Inr (), 1)" by simp_all
  from crash_window [OF this sample_decode, of "\<lambda>i. sampleWorld\<lparr>conn := (\<lambda>s. Some ''reset'')\<rparr>" "''reset''"]
  show ?thesis by (simp add: sampleConsumer_def)
qed

end
