(* ===== verification/Obs.thy ===== *)
theory Obs
  imports Ledger
begin

text \<open>
  The package \<^verbatim>\<open>internal/ledger/obs\<close>: the collectors the ledger registers, the invariant check and
  the checker that publishes it. A gauge is the value last set; instants and durations are
  nanoseconds, the bounds of the latency buckets microseconds; \<open>fault\<close> is the connection error a query meets, if any.
\<close>

section \<open>Collectors\<close>

datatype collector =
    CounterVec string "string list"
  | Histogram string "int list"
  | Gauge string
  | GaugeVec string "string list"
  | HistogramVec string "string list"

fun metricName :: "collector \<Rightarrow> string" where
  "metricName (CounterVec n ls) = n"
| "metricName (Histogram n bs) = n"
| "metricName (Gauge n) = n"
| "metricName (GaugeVec n ls) = n"
| "metricName (HistogramVec n ls) = n"

definition ledgerCollectors :: "collector list" where
  "ledgerCollectors =
    [CounterVec ''shadowbook_postings_total'' [''kind'', ''result''],
     Histogram ''shadowbook_posting_duration_seconds''
       [1000, 2500, 5000, 10000, 25000, 50000, 100000, 250000, 500000, 1000000],
     Gauge ''shadowbook_ledger_invariant_ok'',
     Gauge ''shadowbook_ledger_invariant_last_check_seconds'',
     Gauge ''shadowbook_outbox_depth'',
     GaugeVec ''shadowbook_consumer_lag'' [''mode''],
     CounterVec ''shadowbook_movements_total'' [''mode'', ''result''],
     HistogramVec ''shadowbook_eod_duration_seconds'' [''phase'']]"

record Metrics =
  PostingsTotal :: "(string \<times> string) list"
  PostingDuration :: "int list"
  InvariantOK :: int
  InvariantAge :: int
  OutboxDepthGauge :: int

definition zeroMetrics :: Metrics where
  "zeroMetrics = \<lparr>PostingsTotal = [], PostingDuration = [], InvariantOK = 0, InvariantAge = 0, OutboxDepthGauge = 0\<rparr>"

text \<open>\<^verbatim>\<open>reg.MustRegister\<close> panics on a name that is already registered.\<close>

fun mustRegister :: "string list \<Rightarrow> collector list \<Rightarrow> string + string list" where
  "mustRegister reg [] = Inr reg"
| "mustRegister reg (c # cs) =
     (if metricName c \<in> set reg then Inl (metricName c) else mustRegister (reg @ [metricName c]) cs)"

definition NewMetrics :: "string list \<Rightarrow> string + Metrics \<times> string list" where
  "NewMetrics reg = (case mustRegister reg ledgerCollectors of
      Inl n \<Rightarrow> Inl n
    | Inr reg' \<Rightarrow> Inr (zeroMetrics, reg'))"

section \<open>The check\<close>

record InvariantResult =
  iOK :: bool
  iDrift :: "string \<rightharpoonup> int"
  iAt :: int
  iElapsed :: int

definition noResult :: InvariantResult where
  "noResult = \<lparr>iOK = False, iDrift = Map.empty, iAt = 0, iElapsed = 0\<rparr>"

definition InvariantResult_Err :: "InvariantResult \<Rightarrow> (string \<rightharpoonup> int) option" where
  "InvariantResult_Err r = (if iOK r then None else Some (iDrift r))"

text \<open>The loop over the drift map, whose keys are the currencies that occur.\<close>

fun allZero :: "(string \<rightharpoonup> int) \<Rightarrow> string list \<Rightarrow> bool" where
  "allZero drift [] = True"
| "allZero drift (c # cs) = (case drift c of
      Some v \<Rightarrow> if v \<noteq> 0 then False else allZero drift cs
    | None \<Rightarrow> allZero drift cs)"

definition CheckInvariant :: "string option \<Rightarrow> db \<Rightarrow> int \<Rightarrow> int \<Rightarrow> store_error + InvariantResult" where
  "CheckInvariant fault d start finish =
     (case fault of Some m \<Rightarrow> Inl (ErrConn m) | None \<Rightarrow>
      case GlobalInvariant d of Inl e \<Rightarrow> Inl e | Inr drift \<Rightarrow>
      Inr \<lparr>iOK = allZero drift (map (\<lambda>e. currency (eAmount e)) (entries d)), iDrift = drift,
           iAt = start, iElapsed = finish - start\<rparr>)"

section \<open>The checker\<close>

record Checker =
  interval :: int
  lastResult :: InvariantResult

definition NewChecker :: "int \<Rightarrow> Checker" where
  "NewChecker iv = \<lparr>interval = (if iv \<le> 0 then 500000000 else iv), lastResult = noResult\<rparr>"

definition Last :: "Checker \<Rightarrow> InvariantResult" where
  "Last c = lastResult c"

text \<open>One evaluation: \<open>fault\<close> is for the invariant query, \<open>fault2\<close> for the outbox depth.\<close>

definition once ::
  "string option \<Rightarrow> string option \<Rightarrow> db \<Rightarrow> int \<Rightarrow> int \<Rightarrow> Checker \<Rightarrow> Metrics \<Rightarrow> Checker \<times> Metrics" where
  "once fault fault2 d start finish c m =
     (case CheckInvariant fault d start finish of
        Inl e \<Rightarrow> (c, m\<lparr>InvariantOK := 0\<rparr>)
      | Inr res \<Rightarrow>
          let c' = c\<lparr>lastResult := res\<rparr>;
              m1 = m\<lparr>InvariantOK := (if iOK res then 1 else 0)\<rparr>;
              m2 = m1\<lparr>InvariantAge := iElapsed res\<rparr>;
              m3 = (case fault2 of Some _ \<Rightarrow> m2 | None \<Rightarrow>
                     (case OutboxDepth d of Inl _ \<Rightarrow> m2 | Inr n \<Rightarrow> m2\<lparr>OutboxDepthGauge := int n\<rparr>))
          in (c', m3))"

text \<open>
  \<^verbatim>\<open>Run\<close>: one evaluation at the start and one for each tick until the context is cancelled; every
  evaluation sees the database and the faults of its moment.
\<close>

record moment =
  mFault :: "string option"
  mFault2 :: "string option"
  mDb :: db
  mStart :: int
  mFinish :: int

definition once_at :: "moment \<Rightarrow> Checker \<times> Metrics \<Rightarrow> Checker \<times> Metrics" where
  "once_at t cm = once (mFault t) (mFault2 t) (mDb t) (mStart t) (mFinish t) (fst cm) (snd cm)"

definition checker_Run :: "moment \<Rightarrow> moment list \<Rightarrow> Checker \<times> Metrics \<Rightarrow> Checker \<times> Metrics" where
  "checker_Run first ticks cm = foldl (\<lambda>cm t. once_at t cm) (once_at first cm) ticks"

section \<open>Lemmas\<close>

lemma mustRegister_fresh:
  "distinct (reg @ map metricName cs) \<Longrightarrow> mustRegister reg cs = Inr (reg @ map metricName cs)"
  by (induction reg cs rule: mustRegister.induct) auto

text \<open>A fresh registry takes the collectors; registering them twice on one registry panics.\<close>

lemma NewMetrics_fresh:
  "NewMetrics [] = Inr (zeroMetrics, map metricName ledgerCollectors)"
  "NewMetrics (map metricName ledgerCollectors) = Inl ''shadowbook_postings_total''"
proof -
  have "distinct (map metricName ledgerCollectors)" by (simp add: ledgerCollectors_def)
  with mustRegister_fresh [of "[]" ledgerCollectors] show "NewMetrics [] = Inr (zeroMetrics, map metricName ledgerCollectors)"
    by (simp add: NewMetrics_def)
  have "mustRegister reg ledgerCollectors = Inl ''shadowbook_postings_total''" if "''shadowbook_postings_total'' \<in> set reg" for reg
    using that by (simp add: ledgerCollectors_def)
  moreover have "''shadowbook_postings_total'' \<in> set (map metricName ledgerCollectors)" by (simp add: ledgerCollectors_def)
  ultimately show "NewMetrics (map metricName ledgerCollectors) = Inl ''shadowbook_postings_total''"
    unfolding NewMetrics_def by simp
qed

lemma allZero_iff: "allZero drift cs \<longleftrightarrow> (\<forall>c \<in> set cs. \<forall>v. drift c = Some v \<longrightarrow> v = 0)"
  by (induction cs) (auto split: option.split)

lemma scanSums_value:
  "scanSums es cs out = Inr m \<Longrightarrow> (\<forall>c \<in> set cs. m c = Some (currencySum es c)) \<and> (\<forall>c. c \<notin> set cs \<longrightarrow> m c = out c)"
proof (induction es cs out rule: scanSums.induct)
  case (2 es c cs out)
  from 2(2) obtain v where v: "scan64 (currencySum es c) = Inr v" "scanSums es cs (out(c \<mapsto> v)) = Inr m"
    by (cases "scan64 (currencySum es c)") simp_all
  from v(1) have val: "v = currencySum es c" by (simp add: scan64_def split: if_splits)
  note IH = 2(1) [OF v]
  from IH have "m c = Some v" by (cases "c \<in> set cs") (simp_all add: val)
  moreover from IH have "\<forall>b. b \<notin> set (c # cs) \<longrightarrow> m b = out b" by simp
  ultimately show ?case using IH val by simp
qed simp

lemma CheckInvariant_ok:
  assumes "CheckInvariant fault d start finish = Inr res"
  shows "iOK res \<longleftrightarrow> (\<forall>c. currencySum (entries d) c = 0)"
proof -
  let ?cs = "map (\<lambda>e. currency (eAmount e)) (entries d)"
  from assms obtain m where m: "GlobalInvariant d = Inr m" "iOK res = allZero m ?cs"
    by (auto simp: CheckInvariant_def split: option.splits sum.splits)
  have vals: "\<forall>c \<in> set ?cs. m c = Some (currencySum (entries d) c)"
    using scanSums_value [OF m(1) [unfolded GlobalInvariant_def]] by simp
  have none: "currencySum (entries d) c = 0" if "c \<notin> set ?cs" for c
  proof -
    have "filter (\<lambda>e. currency (eAmount e) = c) (entries d) = []" using that by (auto simp: filter_empty_conv)
    then show ?thesis by (simp add: currencySum_def)
  qed
  show ?thesis unfolding m(2) allZero_iff using vals none by (metis option.inject)
qed

lemma once_gauge:
  "InvariantOK (snd (once fault fault2 d start finish c m)) =
     (if fault = None \<and> (\<exists>m. GlobalInvariant d = Inr m) \<and> (\<forall>c. currencySum (entries d) c = 0) then 1 else 0)"
proof (cases "CheckInvariant fault d start finish")
  case (Inl e)
  then have "\<not> (fault = None \<and> (\<exists>m. GlobalInvariant d = Inr m))"
    by (auto simp: CheckInvariant_def split: option.splits sum.splits)
  with Inl show ?thesis by (auto simp: once_def)
next
  case (Inr res)
  then have "fault = None \<and> (\<exists>m. GlobalInvariant d = Inr m)"
    by (auto simp: CheckInvariant_def split: option.splits sum.splits)
  with Inr CheckInvariant_ok [OF Inr] show ?thesis
    by (simp add: once_def Let_def split: option.split sum.split)
qed

section \<open>Properties\<close>

lemma foldl_last: "foldl (\<lambda>cm t. once_at t cm) s (ts @ [t]) = once_at t (foldl (\<lambda>cm t. once_at t cm) s ts)"
  by simp

text \<open>
  The gauge never lies at the moment it is set: after a run of the checker that ended with the
  evaluation \<open>t\<close>, the gauge is 1 exactly if that evaluation reached the database and every
  currency summed to zero there, and 0 otherwise, failed queries included; on a state of the
  ledger a query that returns always sets it to 1.
\<close>

theorem checker_gauge_exact:
  "InvariantOK (snd (checker_Run first (ticks @ [t]) cm)) =
     (if mFault t = None \<and> (\<exists>m. GlobalInvariant (mDb t) = Inr m) \<and> (\<forall>c. currencySum (entries (mDb t)) c = 0)
      then 1 else 0) \<and>
   (ledger_ok x (mDb t) \<and> mFault t = None \<longrightarrow> InvariantOK (snd (checker_Run first (ticks @ [t]) cm)) = 1)"
proof -
  have g: "InvariantOK (snd (checker_Run first (ticks @ [t]) cm)) =
     (if mFault t = None \<and> (\<exists>m. GlobalInvariant (mDb t) = Inr m) \<and> (\<forall>c. currencySum (entries (mDb t)) c = 0)
      then 1 else 0)"
    unfolding checker_Run_def foldl_last by (simp add: once_at_def once_gauge)
  have "\<exists>m. GlobalInvariant (mDb t) = Inr m" if "ledger_ok x (mDb t)"
    using that scanSums_zero [of "entries (mDb t)"] unfolding ledger_ok_def GlobalInvariant_def by blast
  with g show ?thesis by (auto simp: ledger_ok_def)
qed

theorem checker_gauge_exact_witness:
  "InvariantOK (snd (checker_Run \<lparr>mFault = Some ''reset'', mFault2 = None, mDb = sampleDB, mStart = 0, mFinish = 1\<rparr>
     ([] @ [\<lparr>mFault = None, mFault2 = None, mDb = sampleDB, mStart = 2, mFinish = 3\<rparr>]) (NewChecker 0, zeroMetrics))) = 1"
proof -
  have "ledger_ok sampleExt sampleDB" by (rule steps_ok [OF sample_steps ledger_ok_empty])
  with checker_gauge_exact [of "\<lparr>mFault = Some ''reset'', mFault2 = None, mDb = sampleDB, mStart = 0, mFinish = 1\<rparr>"
    "[]" "\<lparr>mFault = None, mFault2 = None, mDb = sampleDB, mStart = 2, mFinish = 3\<rparr>" "(NewChecker 0, zeroMetrics)" sampleExt]
  show ?thesis by simp
qed

text \<open>
  A failed evaluation leaves the last result, and with it what \<^verbatim>\<open>/readyz\<close> reports, as it was, while
  the gauge drops to 0; the age gauge holds the duration of the query, not its age.
\<close>

lemma once_failed: "once (Some e) fault2 d start finish c m = (c, m\<lparr>InvariantOK := 0\<rparr>)"
  by (simp add: once_def CheckInvariant_def)

lemma once_age: "GlobalInvariant d = Inr drift \<Longrightarrow>
    InvariantAge (snd (once None fault2 d start finish c m)) = finish - start"
  by (simp add: once_def CheckInvariant_def Let_def split: option.split sum.split)

end
