(* ===== verification/Httpapi.thy ===== *)
theory Httpapi
  imports Balance Obs Timeformat
begin

text \<open>
  The package \<^verbatim>\<open>internal/ledger/httpapi\<close>: the error taxonomy, the decoding of request bodies and
  the handlers, each as a function from the server, the database and a request to a response
  and the new server and database.

  A request carries its headers and query values (the empty string when absent) and its body as
  the JSON value it denotes, \<open>None\<close> for text that is no JSON. \<^verbatim>\<open>uuid.Parse\<close> is a parameter. The clock is
  read at the instants given as arguments. The message of an error answer is kept as the error
  it renders.
\<close>

section \<open>Errors\<close>

datatype api_error =
    EInvalidBody
  | EPosting post_error
  | EMoney money_error
  | EBalance bal_error
  | EStore store_error

text \<open>The sentinels \<^verbatim>\<open>classify\<close> asks for, and which of them an error wraps.\<close>

datatype sentinel =
    IsInvalidBody | IsMissingKey | IsUnknownKind | IsUnknownCurrency | IsBodyMismatch | IsNotBalanced
  | IsPostingCurrencyMismatch | IsMoneyCurrencyMismatch | IsInsufficientAvailable | IsNotFound

fun money_wraps :: "money_error \<Rightarrow> sentinel \<Rightarrow> bool" where
  "money_wraps (ErrUnknownCurrency c) s \<longleftrightarrow> s = IsUnknownCurrency"
| "money_wraps (ErrCurrencyMismatch a b) s \<longleftrightarrow> s = IsMoneyCurrencyMismatch"
| "money_wraps e s \<longleftrightarrow> False"

fun store_wraps :: "store_error \<Rightarrow> sentinel \<Rightarrow> bool" where
  "store_wraps (ErrNotFound w) s \<longleftrightarrow> s = IsNotFound"
| "store_wraps (ErrEntryMoney i e) s \<longleftrightarrow> money_wraps e s"
| "store_wraps e s \<longleftrightarrow> False"

fun post_wraps :: "post_error \<Rightarrow> sentinel \<Rightarrow> bool" where
  "post_wraps ErrMissingIdempotencyKey s \<longleftrightarrow> s = IsMissingKey"
| "post_wraps (ErrUnknownKind k) s \<longleftrightarrow> s = IsUnknownKind"
| "post_wraps (ErrTooFewEntries n) s \<longleftrightarrow> s = IsNotBalanced"
| "post_wraps (ErrNotBalanced n) s \<longleftrightarrow> s = IsNotBalanced"
| "post_wraps (ErrNotBalancedAtCommit e) s \<longleftrightarrow> s = IsNotBalanced \<or> store_wraps e s"
| "post_wraps (ErrEntryAmount i e) s \<longleftrightarrow> money_wraps e s"
| "post_wraps (ErrPostCurrencyMismatch e) s \<longleftrightarrow> s = IsPostingCurrencyMismatch \<or> money_wraps e s"
| "post_wraps ErrIdempotencyBodyMismatch s \<longleftrightarrow> s = IsBodyMismatch"
| "post_wraps (ErrPostStore e) s \<longleftrightarrow> store_wraps e s"
| "post_wraps (ErrPostMoney e) s \<longleftrightarrow> money_wraps e s"
| "post_wraps e s \<longleftrightarrow> False"

fun bal_wraps :: "bal_error \<Rightarrow> sentinel \<Rightarrow> bool" where
  "bal_wraps (ErrBalStore e) s \<longleftrightarrow> store_wraps e s"
| "bal_wraps (ErrBalMoney e) s \<longleftrightarrow> money_wraps e s"
| "bal_wraps (ErrInsufficientAvailable a r) s \<longleftrightarrow> s = IsInsufficientAvailable"
| "bal_wraps e s \<longleftrightarrow> False"

fun errorsIs :: "api_error \<Rightarrow> sentinel \<Rightarrow> bool" where
  "errorsIs EInvalidBody s \<longleftrightarrow> s = IsInvalidBody"
| "errorsIs (EPosting e) s \<longleftrightarrow> post_wraps e s"
| "errorsIs (EMoney e) s \<longleftrightarrow> money_wraps e s"
| "errorsIs (EBalance e) s \<longleftrightarrow> bal_wraps e s"
| "errorsIs (EStore e) s \<longleftrightarrow> store_wraps e s"

text \<open>The database error in the chain, for \<^verbatim>\<open>errors.As\<close>.\<close>

fun storeErr :: "api_error \<Rightarrow> store_error option" where
  "storeErr (EPosting (ErrNotBalancedAtCommit e)) = Some e"
| "storeErr (EPosting (ErrPostStore e)) = Some e"
| "storeErr (EBalance (ErrBalStore e)) = Some e"
| "storeErr (EStore e) = Some e"
| "storeErr e = None"

datatype code =
    CodeInvalidRequest | CodeMissingIdempotencyKey | CodeUnknownPrincipal | CodeAccountNotFound
  | CodeIdempotencyBodyMismatch | CodeHoldAlreadyReleased | CodeEODAlreadyRun | CodeEntriesNotBalanced
  | CodeCurrencyMismatch | CodeInsufficientAvailable | CodeInternal

definition classify :: "api_error \<Rightarrow> code \<times> nat" where
  "classify err =
     (if errorsIs err IsInvalidBody then (CodeInvalidRequest, 400)
      else if errorsIs err IsMissingKey then (CodeMissingIdempotencyKey, 400)
      else if errorsIs err IsUnknownKind \<or> errorsIs err IsUnknownCurrency then (CodeInvalidRequest, 400)
      else if errorsIs err IsBodyMismatch then (CodeIdempotencyBodyMismatch, 409)
      else if errorsIs err IsNotBalanced then (CodeEntriesNotBalanced, 422)
      else if errorsIs err IsPostingCurrencyMismatch \<or> errorsIs err IsMoneyCurrencyMismatch
      then (CodeCurrencyMismatch, 422)
      else if errorsIs err IsInsufficientAvailable then (CodeInsufficientAvailable, 422)
      else if errorsIs err IsNotFound then (CodeAccountNotFound, 404)
      else case storeErr err of
        Some e \<Rightarrow>
          (if IsUniqueViolation e ConstraintEODRun then (CodeEODAlreadyRun, 409)
           else if IsInvariantViolation e then (CodeEntriesNotBalanced, 422)
           else (CodeInternal, 500))
      | None \<Rightarrow> (CodeInternal, 500))"

section \<open>Requests and responses\<close>

datatype json = JNull | JBool bool | JInt int | JFloat | JString string | JArray "json list"
  | JObject "(string \<times> json) list"

record http_request =
  hPrincipal :: string
  hIdempotencyKey :: string
  hPath :: string
  hAsOf :: string
  hNow :: string
  hReleaseKind :: string
  hBusinessDate :: string
  hBody :: "json option"

record entryOutput =
  outEntryID :: int
  outAccountID :: string
  outAmountMinor :: int

record postingResponseBody =
  rsPostingID :: string
  rsBusinessDate :: string
  rsEntries :: "entryOutput list"

record holdResponseBody =
  rhHoldID :: string
  rhAccountID :: string
  rhAmountMinor :: int
  rhPlacedAt :: string
  rhExpiresAt :: string

record balanceResponseBody =
  rbAccountID :: string
  rbCurrency :: string
  rbScale :: nat
  rbAsOf :: string
  rbLedgerMinor :: int
  rbAvailableMinor :: int
  rbPendingMinor :: int

datatype message = InternalError | PrincipalError string | ErrorText api_error

record errorBody =
  ebCode :: code
  ebMessage :: message
  ebRequestID :: string

datatype payload =
    RError errorBody
  | RPosting postingResponseBody
  | RHold holdResponseBody
  | RReleased string string
  | RBalances balanceResponseBody
  | REntries string string "entryOutput list" string
  | RStatus string "bool option"
  | RText string

record response =
  status :: nat
  body :: payload

record Server =
  principals :: "string list"
  reqCounter :: nat
  checker :: "Checker option"
  metrics :: Metrics

definition NewServer :: "string list \<Rightarrow> Checker option \<Rightarrow> Metrics \<Rightarrow> Server" where
  "NewServer ps ch m = \<lparr>principals = (if ps = [] then [''sim''] else ps), reqCounter = 0, checker = ch, metrics = m\<rparr>"

definition nextRequestID :: "Server \<Rightarrow> string \<times> Server" where
  "nextRequestID s = (''req-'' @ decimal (reqCounter s + 1), s\<lparr>reqCounter := reqCounter s + 1\<rparr>)"

definition writeErr :: "string \<Rightarrow> api_error \<Rightarrow> response" where
  "writeErr reqID err =
     (let (c, st) = classify err in
      \<lparr>status = st, body = RError \<lparr>ebCode = c, ebMessage = (if st \<ge> 500 then InternalError else ErrorText err),
        ebRequestID = reqID\<rparr>\<rparr>)"

definition principal_of :: "Server \<Rightarrow> http_request \<Rightarrow> string option" where
  "principal_of s r = (if hPrincipal r = [] \<or> hPrincipal r \<notin> set (principals s) then None else Some (hPrincipal r))"

definition forbidden :: "string \<Rightarrow> http_request \<Rightarrow> response" where
  "forbidden reqID r = \<lparr>status = 403, body = RError \<lparr>ebCode = CodeUnknownPrincipal,
     ebMessage = PrincipalError (hPrincipal r), ebRequestID = reqID\<rparr>\<rparr>"

section \<open>Decoding bodies\<close>

text \<open>
  The rules of \<^verbatim>\<open>encoding/json\<close> the bodies use: a field is matched by its name up to the case of
  letters, a later field overrides an earlier one, \<^verbatim>\<open>null\<close> leaves the field alone, a number for an
  \<^verbatim>\<open>int64\<close> must be an integer literal in range. Any violation is an error of the whole body.
\<close>

definition lowerChar :: "char \<Rightarrow> char" where
  "lowerChar c = (let n = (of_char c :: nat) in if 65 \<le> n \<and> n \<le> 90 then char_of (n + 32) else c)"

definition sameField :: "string \<Rightarrow> string \<Rightarrow> bool" where
  "sameField a b \<longleftrightarrow> map lowerChar a = map lowerChar b"

definition asString :: "string \<Rightarrow> json \<Rightarrow> string option" where
  "asString old j = (case j of JNull \<Rightarrow> Some old | JString s \<Rightarrow> Some s | _ \<Rightarrow> None)"

definition asInt64 :: "int \<Rightarrow> json \<Rightarrow> int option" where
  "asInt64 old j = (case j of JNull \<Rightarrow> Some old | JInt n \<Rightarrow> if in64 n then Some n else None | _ \<Rightarrow> None)"

definition entryField ::
  "(string \<Rightarrow> uuid option) \<Rightarrow> string \<times> json \<Rightarrow> EntryRequest \<Rightarrow> EntryRequest option" where
  "entryField parse f e =
     (if sameField (fst f) ''account_id'' then
        (case snd f of JNull \<Rightarrow> Some e
         | JString s \<Rightarrow> map_option (\<lambda>u. e\<lparr>qAccount := u\<rparr>) (parse s)
         | _ \<Rightarrow> None)
      else if sameField (fst f) ''amount_minor''
      then map_option (\<lambda>n. e\<lparr>qAmountMinor := n\<rparr>) (asInt64 (qAmountMinor e) (snd f))
      else None)"

fun foldFields :: "('f \<Rightarrow> 'a \<Rightarrow> 'a option) \<Rightarrow> 'f list \<Rightarrow> 'a \<Rightarrow> 'a option" where
  "foldFields g [] a = Some a"
| "foldFields g (f # fs) a = (case g f a of None \<Rightarrow> None | Some a' \<Rightarrow> foldFields g fs a')"

definition asEntry :: "(string \<Rightarrow> uuid option) \<Rightarrow> EntryRequest \<Rightarrow> json \<Rightarrow> EntryRequest option" where
  "asEntry parse old j =
     (case j of JNull \<Rightarrow> Some old
      | JObject fs \<Rightarrow> foldFields (entryField parse) fs old
      | _ \<Rightarrow> None)"

definition zeroEntry :: EntryRequest where
  "zeroEntry = \<lparr>qAccount = 0, qAmountMinor = 0\<rparr>"

text \<open>The elements of a repeated array start from those of the earlier one.\<close>

fun asEntries :: "(string \<Rightarrow> uuid option) \<Rightarrow> EntryRequest list \<Rightarrow> json list \<Rightarrow> EntryRequest list option" where
  "asEntries parse olds [] = Some []"
| "asEntries parse olds (j # js) =
     (case asEntry parse (case olds of [] \<Rightarrow> zeroEntry | old # _ \<Rightarrow> old) j of None \<Rightarrow> None | Some e \<Rightarrow>
      map_option (\<lambda>es. e # es) (asEntries parse (tl olds) js))"

record postingRequestBody =
  bKind :: string
  bCur :: string
  bBusinessDate :: string
  bValueDate :: string
  bPostedAt :: string
  bReverses :: "string option"
  bEntries :: "EntryRequest list"

definition postingField ::
  "(string \<Rightarrow> uuid option) \<Rightarrow> string \<times> json \<Rightarrow> postingRequestBody \<Rightarrow> postingRequestBody option" where
  "postingField parse f b =
     (let is = sameField (fst f); j = snd f in
      if is ''kind'' then map_option (\<lambda>s. b\<lparr>bKind := s\<rparr>) (asString (bKind b) j)
      else if is ''currency'' then map_option (\<lambda>s. b\<lparr>bCur := s\<rparr>) (asString (bCur b) j)
      else if is ''business_date'' then map_option (\<lambda>s. b\<lparr>bBusinessDate := s\<rparr>) (asString (bBusinessDate b) j)
      else if is ''value_date'' then map_option (\<lambda>s. b\<lparr>bValueDate := s\<rparr>) (asString (bValueDate b) j)
      else if is ''posted_at'' then map_option (\<lambda>s. b\<lparr>bPostedAt := s\<rparr>) (asString (bPostedAt b) j)
      else if is ''reverses_posting_id'' then
        (case j of JNull \<Rightarrow> Some (b\<lparr>bReverses := None\<rparr>)
         | JString s \<Rightarrow> Some (b\<lparr>bReverses := Some s\<rparr>) | _ \<Rightarrow> None)
      else if is ''entries'' then
        (case j of JNull \<Rightarrow> Some (b\<lparr>bEntries := []\<rparr>)
         | JArray js \<Rightarrow> map_option (\<lambda>es. b\<lparr>bEntries := es\<rparr>) (asEntries parse (bEntries b) js) | _ \<Rightarrow> None)
      else None)"

definition emptyPostingBody :: postingRequestBody where
  "emptyPostingBody = \<lparr>bKind = [], bCur = [], bBusinessDate = [], bValueDate = [], bPostedAt = [],
     bReverses = None, bEntries = []\<rparr>"

definition decodePosting :: "(string \<Rightarrow> uuid option) \<Rightarrow> json option \<Rightarrow> postingRequestBody option" where
  "decodePosting parse j =
     (case j of Some JNull \<Rightarrow> Some emptyPostingBody
      | Some (JObject fs) \<Rightarrow> foldFields (postingField parse) fs emptyPostingBody
      | _ \<Rightarrow> None)"

record holdRequestBody =
  hbAmountMinor :: int
  hbCurrency :: string
  hbPlacedAt :: string
  hbAsOf :: string

text \<open>The hold body is decoded without \<^verbatim>\<open>DisallowUnknownFields\<close>: an unknown field is skipped.\<close>

definition holdField :: "string \<times> json \<Rightarrow> holdRequestBody \<Rightarrow> holdRequestBody option" where
  "holdField f b =
     (let is = sameField (fst f); j = snd f in
      if is ''amount_minor'' then map_option (\<lambda>n. b\<lparr>hbAmountMinor := n\<rparr>) (asInt64 (hbAmountMinor b) j)
      else if is ''currency'' then map_option (\<lambda>s. b\<lparr>hbCurrency := s\<rparr>) (asString (hbCurrency b) j)
      else if is ''placed_at'' then map_option (\<lambda>s. b\<lparr>hbPlacedAt := s\<rparr>) (asString (hbPlacedAt b) j)
      else if is ''as_of'' then map_option (\<lambda>s. b\<lparr>hbAsOf := s\<rparr>) (asString (hbAsOf b) j)
      else Some b)"

definition emptyHoldBody :: holdRequestBody where
  "emptyHoldBody = \<lparr>hbAmountMinor = 0, hbCurrency = [], hbPlacedAt = [], hbAsOf = []\<rparr>"

definition decodeHold :: "json option \<Rightarrow> holdRequestBody option" where
  "decodeHold j =
     (case j of Some JNull \<Rightarrow> Some emptyHoldBody
      | Some (JObject fs) \<Rightarrow> foldFields holdField fs emptyHoldBody
      | _ \<Rightarrow> None)"

section \<open>Postings\<close>

definition toPostingRequest ::
  "(string \<Rightarrow> uuid option) \<Rightarrow> string \<Rightarrow> string \<Rightarrow> postingRequestBody \<Rightarrow> api_error + Request" where
  "toPostingRequest parse prin idemKey b =
     (case Parse (bBusinessDate b) of Inl _ \<Rightarrow> Inl EInvalidBody | Inr bd \<Rightarrow>
      case Parse (bValueDate b) of Inl _ \<Rightarrow> Inl EInvalidBody | Inr vd \<Rightarrow>
      case time_Parse_RFC3339Nano (bPostedAt b) of None \<Rightarrow> Inl EInvalidBody | Some at \<Rightarrow>
      let req = \<lparr>qPrincipal = prin, qKey = idemKey, qKind = bKind b, qCurrency = bCur b, qBusinessDate = bd,
            qValueDate = vd, qPostedAt = at, qReverses = None, qEntries = bEntries b\<rparr> in
      case bReverses b of
        None \<Rightarrow> Inr req
      | Some s \<Rightarrow> if s = [] then Inr req
          else (case parse s of None \<Rightarrow> Inl EInvalidBody | Some u \<Rightarrow> Inr (req\<lparr>qReverses := Some u\<rparr>)))"

definition postingOutput :: "Request \<Rightarrow> Result \<Rightarrow> postingResponseBody" where
  "postingOutput req res = \<lparr>rsPostingID = uuid_String (resPosting res),
     rsBusinessDate = BusinessDate_String (qBusinessDate req),
     rsEntries = map (\<lambda>(i, e). \<lparr>outEntryID = (if i < length (resEntryIDs res) then resEntryIDs res ! i else 0),
         outAccountID = uuid_String (qAccount e), outAmountMinor = qAmountMinor e\<rparr>) (enumerate 0 (qEntries req))\<rparr>"

definition countPosting :: "Server \<Rightarrow> string \<Rightarrow> string \<Rightarrow> Server" where
  "countPosting s kind result =
     s\<lparr>metrics := (metrics s)\<lparr>PostingsTotal := PostingsTotal (metrics s) @ [(kind, result)]\<rparr>\<rparr>"

definition handlePostPosting ::
  "ext \<Rightarrow> (string \<Rightarrow> uuid option) \<Rightarrow> world \<Rightarrow> int \<Rightarrow> int \<Rightarrow> Server \<Rightarrow> db \<Rightarrow> http_request \<Rightarrow> response \<times> Server \<times> db" where
  "handlePostPosting x parse w start finish s0 d r =
     (let (reqID, s) = nextRequestID s0 in
      case principal_of s r of None \<Rightarrow> (forbidden reqID r, s, d) | Some p \<Rightarrow>
      case decodePosting parse (hBody r) of None \<Rightarrow> (writeErr reqID EInvalidBody, s, d) | Some b \<Rightarrow>
      case toPostingRequest parse p (hIdempotencyKey r) b of Inl e \<Rightarrow> (writeErr reqID e, s, d) | Inr req \<Rightarrow>
      attempt (Post x w d req)
        (\<lambda>e d'. (writeErr reqID (EPosting e), countPosting s (qKind req) ''error'', d'))
        (\<lambda>res d'.
          let (result, st) = (if Replayed res then (''replayed'', 200) else (''created'', 201));
              s1 = countPosting s (qKind req) result;
              s2 = s1\<lparr>metrics := (metrics s1)\<lparr>PostingDuration := PostingDuration (metrics s1) @ [finish - start]\<rparr>\<rparr>
          in (\<lparr>status = st, body = RPosting (postingOutput req res)\<rparr>, s2, d')))"

section \<open>Holds\<close>

definition handlePlaceHold ::
  "(string \<Rightarrow> uuid option) \<Rightarrow> uuid \<Rightarrow> Server \<Rightarrow> db \<Rightarrow> http_request \<Rightarrow> response \<times> Server \<times> db" where
  "handlePlaceHold parse new s0 d r =
     (let (reqID, s) = nextRequestID s0; bad = (writeErr reqID EInvalidBody, s, d) in
      case principal_of s r of None \<Rightarrow> (forbidden reqID r, s, d) | Some p \<Rightarrow>
      case parse (hPath r) of None \<Rightarrow> bad | Some acct \<Rightarrow>
      case decodeHold (hBody r) of None \<Rightarrow> bad | Some b \<Rightarrow>
      case money_New (hbAmountMinor b) (hbCurrency b) of Inl e \<Rightarrow> (writeErr reqID (EMoney e), s, d) | Inr amt \<Rightarrow>
      case time_Parse_RFC3339Nano (hbPlacedAt b) of None \<Rightarrow> bad | Some placedAt \<Rightarrow>
      case Parse (hbAsOf b) of Inl _ \<Rightarrow> bad | Inr asOf \<Rightarrow>
      attempt (PlaceHold d new acct amt placedAt asOf)
        (\<lambda>e d'. (writeErr reqID (EBalance e), s, d'))
        (\<lambda>h d'. (\<lparr>status = 201, body = RHold \<lparr>rhHoldID = uuid_String (hId h), rhAccountID = uuid_String acct,
           rhAmountMinor = minor (hAmount h), rhPlacedAt = RFC3339Nano (hPlacedAt h),
           rhExpiresAt = RFC3339Nano (hExpiresAt h)\<rparr>\<rparr>, s, d')))"

definition handleReleaseHold ::
  "(string \<Rightarrow> uuid option) \<Rightarrow> int \<Rightarrow> Server \<Rightarrow> db \<Rightarrow> http_request \<Rightarrow> response \<times> Server \<times> db" where
  "handleReleaseHold parse now s0 d r =
     (let (reqID, s) = nextRequestID s0 in
      case principal_of s r of None \<Rightarrow> (forbidden reqID r, s, d) | Some p \<Rightarrow>
      case parse (hPath r) of None \<Rightarrow> (writeErr reqID EInvalidBody, s, d) | Some h \<Rightarrow>
      let kind = (if hReleaseKind r = [] then ''cancelled'' else hReleaseKind r) in
      attempt (ReleaseHold d h now kind)
        (\<lambda>e d'. if errorsIs (EBalance e) IsNotFound
                then (\<lparr>status = 409, body = RError \<lparr>ebCode = CodeHoldAlreadyReleased,
                   ebMessage = ErrorText (EBalance e), ebRequestID = reqID\<rparr>\<rparr>, s, d')
                else (writeErr reqID (EBalance e), s, d'))
        (\<lambda>_ d'. (\<lparr>status = 200, body = RReleased (uuid_String h) kind\<rparr>, s, d')))"

section \<open>Reads\<close>

definition handleBalances ::
  "(string \<Rightarrow> uuid option) \<Rightarrow> int \<Rightarrow> Server \<Rightarrow> db \<Rightarrow> http_request \<Rightarrow> response \<times> Server" where
  "handleBalances parse clock s0 d r =
     (let (reqID, s) = nextRequestID s0; bad = (writeErr reqID EInvalidBody, s) in
      case parse (hPath r) of None \<Rightarrow> bad | Some acct \<Rightarrow>
      if hAsOf r = [] then bad else
      case Parse (hAsOf r) of Inl _ \<Rightarrow> bad | Inr asOf \<Rightarrow>
      case (if hNow r \<noteq> [] then time_Parse_RFC3339Nano (hNow r) else Some clock) of None \<Rightarrow> bad | Some now \<Rightarrow>
      case At d acct asOf now of Inl e \<Rightarrow> (writeErr reqID (EBalance e), s) | Inr b \<Rightarrow>
      (\<lparr>status = 200, body = RBalances \<lparr>rbAccountID = uuid_String (bAccount b), rbCurrency = bCurrency b,
         rbScale = bScale b, rbAsOf = BusinessDate_String (bAsOf b), rbLedgerMinor = bLedger b,
         rbAvailableMinor = bAvailable b, rbPendingMinor = bPending b\<rparr>\<rparr>, s))"

definition handleEntries ::
  "(string \<Rightarrow> uuid option) \<Rightarrow> Server \<Rightarrow> db \<Rightarrow> http_request \<Rightarrow> response \<times> Server" where
  "handleEntries parse s0 d r =
     (let (reqID, s) = nextRequestID s0 in
      case parse (hPath r) of None \<Rightarrow> (writeErr reqID EInvalidBody, s) | Some acct \<Rightarrow>
      case Parse (hBusinessDate r) of Inl _ \<Rightarrow> (writeErr reqID EInvalidBody, s) | Inr bd \<Rightarrow>
      case EntriesForAccountDay d acct bd of Inl e \<Rightarrow> (writeErr reqID (EStore e), s) | Inr es \<Rightarrow>
      let out = map (\<lambda>e. \<lparr>outEntryID = eId e, outAccountID = uuid_String (eAccount e),
            outAmountMinor = minor (eAmount e)\<rparr>) es in
      (\<lparr>status = 200, body = REntries (uuid_String acct) (BusinessDate_String bd) out (decimal (length out))\<rparr>, s))"

definition handleHealthz :: response where
  "handleHealthz = \<lparr>status = 200, body = RStatus ''ok'' None\<rparr>"

text \<open>\<open>ping\<close> is the error of the database ping, if any.\<close>

definition handleReadyz :: "string option \<Rightarrow> Server \<Rightarrow> response" where
  "handleReadyz ping s =
     (case ping of Some _ \<Rightarrow> \<lparr>status = 503, body = RStatus ''db unreachable'' None\<rparr>
      | None \<Rightarrow> \<lparr>status = 200, body = RStatus ''ready''
          (case checker s of None \<Rightarrow> None | Some c \<Rightarrow> Some (iOK (Last c)))\<rparr>)"

section \<open>Routing\<close>

text \<open>
  The patterns of the mux, over the segments of the path. A \<^verbatim>\<open>GET\<close> pattern also serves \<^verbatim>\<open>HEAD\<close>; a path
  no pattern has is 404, a path another method has is 405.
\<close>

datatype route = PostPostings | PostHolds string | DeleteHold string | GetBalances string | GetEntries string
  | GetHealthz | GetReadyz | GetMetrics

definition routesOf :: "string list \<Rightarrow> (string \<times> route) list" where
  "routesOf segs =
     (case segs of
        [a] \<Rightarrow>
          (if a = ''healthz'' then [(''GET'', GetHealthz)] else if a = ''readyz'' then [(''GET'', GetReadyz)]
           else if a = ''metrics'' then [(''GET'', GetMetrics)] else [])
      | [v, a] \<Rightarrow> (if v = ''v1'' \<and> a = ''postings'' then [(''POST'', PostPostings)] else [])
      | [v, a, i] \<Rightarrow> (if v = ''v1'' \<and> a = ''holds'' then [(''DELETE'', DeleteHold i)] else [])
      | [v, a, i, b] \<Rightarrow>
          (if v = ''v1'' \<and> a = ''accounts'' then
             (if b = ''holds'' then [(''POST'', PostHolds i)]
              else if b = ''balances'' then [(''GET'', GetBalances i)]
              else if b = ''entries'' then [(''GET'', GetEntries i)] else [])
           else [])
      | _ \<Rightarrow> [])"

definition serves :: "string \<Rightarrow> string \<Rightarrow> bool" where
  "serves pattern m \<longleftrightarrow> m = pattern \<or> pattern = ''GET'' \<and> m = ''HEAD''"

text \<open>\<open>pings\<close> is the error of a database ping, \<open>page\<close> the rendered metrics, \<open>hasRegistry\<close> whether there are any.\<close>

definition Handler ::
  "ext \<Rightarrow> (string \<Rightarrow> uuid option) \<Rightarrow> world \<Rightarrow> uuid \<Rightarrow> int \<Rightarrow> int \<Rightarrow> string option \<Rightarrow> bool \<Rightarrow> string \<Rightarrow>
   Server \<Rightarrow> db \<Rightarrow> string \<Rightarrow> string list \<Rightarrow> http_request \<Rightarrow> response \<times> Server \<times> db" where
  "Handler x parse w new start finish pings hasRegistry page s d m segs r =
     (case routesOf segs of [] \<Rightarrow> (\<lparr>status = 404, body = RText ''404 page not found''\<rparr>, s, d) | (pattern, route) # _ \<Rightarrow>
      if route = GetMetrics \<and> \<not> hasRegistry then (\<lparr>status = 404, body = RText ''404 page not found''\<rparr>, s, d)
      else if \<not> serves pattern m then (\<lparr>status = 405, body = RText ''Method Not Allowed''\<rparr>, s, d)
      else case route of
        PostPostings \<Rightarrow> handlePostPosting x parse w start finish s d r
      | PostHolds i \<Rightarrow> handlePlaceHold parse new s d (r\<lparr>hPath := i\<rparr>)
      | DeleteHold i \<Rightarrow> handleReleaseHold parse start s d (r\<lparr>hPath := i\<rparr>)
      | GetBalances i \<Rightarrow> (let (resp, s') = handleBalances parse start s d (r\<lparr>hPath := i\<rparr>) in (resp, s', d))
      | GetEntries i \<Rightarrow> (let (resp, s') = handleEntries parse s d (r\<lparr>hPath := i\<rparr>) in (resp, s', d))
      | GetHealthz \<Rightarrow> (handleHealthz, s, d)
      | GetReadyz \<Rightarrow> (handleReadyz pings s, s, d)
      | GetMetrics \<Rightarrow> (\<lparr>status = 200, body = RText page\<rparr>, s, d))"

section \<open>Lemmas\<close>

lemma classify_status: "snd (classify e) \<in> {400, 404, 409, 422, 500}"
  by (simp add: classify_def split: option.split)

lemma writeErr_status: "status (writeErr q e) = snd (classify e)"
  by (simp add: writeErr_def split: prod.split)

lemma classify_conn: "classify (EPosting (ErrPostStore (ErrConn m))) = (CodeInternal, 500)"
  by (simp add: classify_def IsUniqueViolation_def IsInvariantViolation_def)

text \<open>An error of \<^verbatim>\<open>Post\<close> that left rows behind is the connection's, from the commit.\<close>

definition silent :: "db \<Rightarrow> (post_error + Result) \<times> db \<Rightarrow> bool" where
  "silent d r \<longleftrightarrow> (\<forall>e. fst r = Inl e \<longrightarrow> unchanged d (snd r) \<or> (\<exists>m. e = ErrPostStore (ErrConn m)))"

lemma silent_leaves:
  "silent d (q, tx_Rollback d s)" "silent d (Inr a, s)" "silent d (q, d)"
  by (simp_all add: silent_def)

lemma silent_attempt:
  assumes "\<And>e s. m = (Inl e, s) \<Longrightarrow> silent d (f e s)" "\<And>a s. m = (Inr a, s) \<Longrightarrow> silent d (g a s)"
  shows "silent d (attempt m f g)"
  using assms by (cases m; cases "fst m") auto

lemma silent_option:
  "(m = None \<Longrightarrow> silent d a) \<Longrightarrow> (\<And>y. m = Some y \<Longrightarrow> silent d (b y)) \<Longrightarrow>
   silent d (case m of None \<Rightarrow> a | Some y \<Rightarrow> b y)"
  by (cases m) auto

lemma silent_sum:
  "(\<And>e. m = Inl e \<Longrightarrow> silent d (a e)) \<Longrightarrow> (\<And>y. m = Inr y \<Longrightarrow> silent d (b y)) \<Longrightarrow>
   silent d (case m of Inl e \<Rightarrow> a e | Inr y \<Rightarrow> b y)"
  by (cases m) auto

lemma silent_if: "silent d a \<Longrightarrow> silent d b \<Longrightarrow> silent d (if c then a else b)"
  by simp

lemma commit_silent:
  "commit_in w d s = (Inl e, d6) \<Longrightarrow>
    silent d (Inl (if IsInvariantViolation e then ErrNotBalancedAtCommit e else ErrPostStore e), d6)"
  by (auto simp: silent_def commit_in_def tx_Commit_def IsInvariantViolation_def split: option.splits if_splits)

lemma Post_silent: "silent d (Post x w d r)"
  unfolding Post_def Let_def
  by (intro silent_option silent_attempt silent_sum silent_if silent_leaves) (erule commit_silent)

lemma Post_error_kept:
  "Post x w d r = (Inl e, d') \<Longrightarrow> \<not> unchanged d d' \<Longrightarrow> \<exists>m. e = ErrPostStore (ErrConn m)"
  using Post_silent [of d x w r] by (simp add: silent_def)

text \<open>Decoded amounts are in range.\<close>

lemma foldFields_inv:
  assumes "\<And>f a b. P a \<Longrightarrow> g f a = Some b \<Longrightarrow> P b"
  shows "P a \<Longrightarrow> foldFields g fs a = Some b \<Longrightarrow> P b"
  using assms by (induction g fs a rule: foldFields.induct) (auto split: option.splits)

lemma entryField_int64: "in64 (qAmountMinor e) \<Longrightarrow> entryField parse f e = Some e' \<Longrightarrow> in64 (qAmountMinor e')"
  by (auto simp: entryField_def asInt64_def split: if_splits json.splits)

lemma asEntry_int64: "in64 (qAmountMinor e) \<Longrightarrow> asEntry parse e j = Some e' \<Longrightarrow> in64 (qAmountMinor e')"
  unfolding asEntry_def
  by (cases j) (auto elim: foldFields_inv [where P = "\<lambda>e. in64 (qAmountMinor e)", rotated 2] dest: entryField_int64)

lemma asEntries_int64:
  "\<forall>e \<in> set olds. in64 (qAmountMinor e) \<Longrightarrow> asEntries parse olds js = Some es \<Longrightarrow> \<forall>e \<in> set es. in64 (qAmountMinor e)"
proof (induction parse olds js arbitrary: es rule: asEntries.induct)
  case (2 parse olds j js)
  let ?old = "case olds of [] \<Rightarrow> zeroEntry | old # _ \<Rightarrow> old"
  from 2(3) obtain e rest where e: "asEntry parse ?old j = Some e" "asEntries parse (tl olds) js = Some rest" "es = e # rest"
    by (auto split: option.splits)
  have "in64 (qAmountMinor ?old)" using 2(2) by (cases olds) (simp_all add: zeroEntry_def in64_iff)
  with e(1) have "in64 (qAmountMinor e)" by (blast dest: asEntry_int64)
  moreover have "\<forall>e \<in> set (tl olds). in64 (qAmountMinor e)" using 2(2) by (cases olds) simp_all
  ultimately show ?case using 2(1) [OF e(1) _ e(2)] e(3) by simp
qed simp

lemma decodePosting_int64:
  assumes "decodePosting parse j = Some b"
  shows "\<forall>e \<in> set (bEntries b). in64 (qAmountMinor e)"
proof -
  let ?P = "\<lambda>b. \<forall>e \<in> set (bEntries b). in64 (qAmountMinor e)"
  have step: "?P b'" if "?P b" "postingField parse f b = Some b'" for f b b'
    using that by (auto simp: postingField_def Let_def dest: asEntries_int64 split: if_splits json.splits)
  have z: "?P emptyPostingBody" by (simp add: emptyPostingBody_def)
  show ?thesis
  proof (cases "j = Some JNull")
    case True
    with assms z show ?thesis by (simp add: decodePosting_def)
  next
    case False
    with assms obtain fs where fs: "foldFields (postingField parse) fs emptyPostingBody = Some b"
      by (cases j; cases "the j") (simp_all add: decodePosting_def)
    show ?thesis by (rule foldFields_inv [where P = ?P, OF _ z fs]) (rule step)
  qed
qed

lemma toPostingRequest_fields:
  assumes "toPostingRequest parse p k b = Inr req"
  shows "qPrincipal req = p \<and> qKey req = k \<and> qEntries req = bEntries b"
  using assms by (auto simp: toPostingRequest_def Let_def split: sum.splits option.splits if_splits)

text \<open>A posting request either stops before the service or is one call of \<^verbatim>\<open>Post\<close>.\<close>

lemma handlePost_cases:
  assumes "handlePostPosting x parse w t0 t1 s d r = (resp, s', d')"
  obtains (rejected) "d' = d" "status resp \<in> {400, 403}"
  | (failed) req e where "request_int64 req" "Post x w d req = (Inl e, d')"
      "resp = writeErr (fst (nextRequestID s)) (EPosting e)"
  | (served) req res where "request_int64 req" "Post x w d req = (Inr res, d')"
      "hPrincipal r = qPrincipal req" "hIdempotencyKey r = qKey req"
      "resp = \<lparr>status = (if Replayed res then 200 else 201), body = RPosting (postingOutput req res)\<rparr>"
      "principal_of (snd (nextRequestID s)) r = Some (qPrincipal req)"
      "\<exists>b. decodePosting parse (hBody r) = Some b \<and> toPostingRequest parse (qPrincipal req) (qKey req) b = Inr req"
proof -
  obtain q s1 where n: "nextRequestID s = (q, s1)" by force
  note H = assms [unfolded handlePostPosting_def n Let_def prod.case]
  have bad: "snd (classify EInvalidBody) = 400" by (simp add: classify_def)
  show thesis
  proof (cases "principal_of s1 r")
    case None
    with H have "resp = forbidden q r" "d' = d" by simp_all
    then show thesis by (intro rejected) (simp_all add: forbidden_def)
  next
    case p: (Some p)
    show thesis
    proof (cases "decodePosting parse (hBody r)")
      case None
      with H p have "resp = writeErr q EInvalidBody" "d' = d" by simp_all
      then show thesis by (intro rejected) (simp_all add: writeErr_status bad)
    next
      case b: (Some b)
      show thesis
      proof (cases "toPostingRequest parse p (hIdempotencyKey r) b")
        case (Inl e)
        then have "e = EInvalidBody"
          by (auto simp: toPostingRequest_def Let_def split: sum.splits option.splits if_splits)
        with H p b Inl have "resp = writeErr q EInvalidBody" "d' = d" by simp_all
        then show thesis by (intro rejected) (simp_all add: writeErr_status bad)
      next
        case (Inr req)
        have f: "qPrincipal req = p" "qKey req = hIdempotencyKey r" "request_int64 req"
          using toPostingRequest_fields [OF Inr] decodePosting_int64 [OF b] by (simp_all add: request_int64_def)
        have "hPrincipal r = p" using p by (simp add: principal_of_def split: if_splits)
        obtain res d1 where P: "Post x w d req = (res, d1)" by force
        note H1 = H [unfolded p b Inr option.case sum.case P]
        show thesis
        proof (cases res)
          case (Inl e)
          with H1 have "resp = writeErr q (EPosting e)" "d' = d1" by simp_all
          with failed [OF f(3), of e] P Inl n show thesis by simp
        next
          case (Inr a)
          with H1 have "resp = \<lparr>status = (if Replayed a then 200 else 201), body = RPosting (postingOutput req a)\<rparr>" "d' = d1"
            by (cases "Replayed a"; simp)+
          with served [OF f(3), of a] P Inr n p b \<open>hPrincipal r = p\<close> f \<open>toPostingRequest _ _ _ _ = Inr req\<close>
          show thesis by simp
        qed
      qed
    qed
  qed
qed

section \<open>Properties\<close>

text \<open>The sample request of the ledger as it comes over HTTP.\<close>

definition sampleParse :: "string \<Rightarrow> uuid option" where
  "sampleParse s = (if s = ''a1'' then Some 1 else if s = ''a2'' then Some 2 else None)"

definition sampleBody :: json where
  "sampleBody = JObject [(''kind'', JString ''transfer''), (''Currency'', JString ''USD''),
     (''business_date'', JString ''2028-01-03''), (''value_date'', JString ''2028-01-03''),
     (''posted_at'', JString ''0001-01-01T00:00:00Z''),
     (''entries'', JArray [JObject [(''account_id'', JString ''a1''), (''amount_minor'', JInt 500)],
       JObject [(''account_id'', JString ''a2''), (''amount_minor'', JInt (- 500))]])]"

definition sampleHttp :: http_request where
  "sampleHttp = \<lparr>hPrincipal = ''teller'', hIdempotencyKey = ''k1'', hPath = [], hAsOf = [], hNow = [],
     hReleaseKind = [], hBusinessDate = [], hBody = Some sampleBody\<rparr>"

definition sampleServer :: Server where
  "sampleServer = NewServer [''teller''] None zeroMetrics"

lemma sample_decoded:
  "\<exists>b. decodePosting sampleParse (hBody sampleHttp) = Some b \<and>
     toPostingRequest sampleParse ''teller'' ''k1'' b = Inr sampleRequest"
proof -
  have "(case decodePosting sampleParse (hBody sampleHttp) of None \<Rightarrow> False
      | Some b \<Rightarrow> toPostingRequest sampleParse ''teller'' ''k1'' b = Inr sampleRequest)" by code_simp
  then show ?thesis by (auto split: option.splits)
qed

lemma sample_http:
  assumes "Post x w d sampleRequest = (Inr res, d')" "principals s = [''teller'']"
  shows "\<exists>s'. handlePostPosting x sampleParse w t0 t1 s d sampleHttp =
    (\<lparr>status = (if Replayed res then 200 else 201), body = RPosting (postingOutput sampleRequest res)\<rparr>, s', d')"
proof -
  obtain b where b: "decodePosting sampleParse (hBody sampleHttp) = Some b"
    "toPostingRequest sampleParse ''teller'' ''k1'' b = Inr sampleRequest" using sample_decoded by blast
  have p: "principal_of (s\<lparr>reqCounter := Suc (reqCounter s)\<rparr>) sampleHttp = Some ''teller''" "hIdempotencyKey sampleHttp = ''k1''"
    using assms(2) by (simp_all add: principal_of_def sampleHttp_def)
  show ?thesis using b p assms(1)
    by (simp add: handlePostPosting_def nextRequestID_def Let_def split_beta)
qed



lemma handlePost_principals:
  assumes "handlePostPosting x parse w t0 t1 s d r = (resp, s', d')"
  shows "principals s' = principals s"
proof -
  have "principals (fst (snd (handlePostPosting x parse w t0 t1 s d r))) = principals s"
    by (simp add: handlePostPosting_def nextRequestID_def Let_def split_beta attempt_def countPosting_def
        split: option.split sum.split)
  with assms show ?thesis by simp
qed

lemma postingOutput_replay:
  "postingOutput req (res\<lparr>resBusinessDate := bd, Replayed := b\<rparr>) = postingOutput req res"
  by (auto simp: postingOutput_def)



end
