(* ===== verification/Delivery.thy ===== *)
theory Delivery
  imports Consumer
begin

text \<open>
  The movement consumer over a consumer group: sessions that end and start again, offsets that
  are committed or not. The locale \<open>group_source\<close> is what the delivery modes rely on, stated with
  three sets of records: all the records of the topics (\<open>durable\<close>), those the session's position has
  passed (\<open>below\<close>) and those whose offset the group has committed (\<open>settled\<close>). The locale \<open>kgo_group\<close> states the
  documented behaviour of the franz-go client in the same terms, and the two Kafka consumers of
  \<^verbatim>\<open>internal/broker/kafka.go\<close> are group sources over every such client.
\<close>

section \<open>What a record left in the database\<close>

text \<open>
  A record is accounted for when its message is in the inbox, in the modes that have one, and
  when the two legs of its movement are booked, in the others.
\<close>

definition accounted :: "ext \<Rightarrow> cext \<Rightarrow> Mode \<Rightarrow> db \<Rightarrow> Record \<Rightarrow> bool" where
  "accounted x cx m d rec = (case decodeMovement cx rec of Inl _ \<Rightarrow> False | Inr v \<Rightarrow>
     if dedups m then vMessage v \<in> mId ` set (inbox d)
     else \<exists>pid. set (movementLegs x pid v) \<subseteq> entryContent ` set (entries d))"

lemma accounted_iff: "accounted x cx m d rec \<longleftrightarrow> (\<exists>v. decodeMovement cx rec = Inr v \<and>
    (if dedups m then vMessage v \<in> mId ` set (inbox d)
     else \<exists>pid. set (movementLegs x pid v) \<subseteq> entryContent ` set (entries d)))"
  by (cases "decodeMovement cx rec") (simp_all add: accounted_def)

definition grows :: "db \<Rightarrow> db \<Rightarrow> bool" where
  "grows d d' \<longleftrightarrow> mId ` set (inbox d) \<subseteq> mId ` set (inbox d') \<and>
     entryContent ` set (entries d) \<subseteq> entryContent ` set (entries d')"

lemma grows_refl [simp, intro]: "grows d d"
  by (simp add: grows_def)

lemma grows_trans:
  assumes "grows d d1" "grows d1 d2"
  shows "grows d d2"
proof -
  note 1 = assms(1) [unfolded grows_def] and 2 = assms(2) [unfolded grows_def]
  show ?thesis unfolding grows_def
    using subset_trans [OF conjunct1 [OF 1] conjunct1 [OF 2]] subset_trans [OF conjunct2 [OF 1] conjunct2 [OF 2]]
    by (rule conjI)
qed

lemma accounted_grows: "accounted x cx m d rec \<Longrightarrow> grows d d' \<Longrightarrow> accounted x cx m d' rec"
  by (fastforce simp: accounted_def grows_def split: sum.splits if_splits)

lemma booked_grows: "grows d (booked x m pid v rec d)"
  using booked_content [of x m pid v rec d, THEN arg_cong [where f = set]] by (auto simp: grows_def)

lemma booked_accounted:
  assumes "decodeMovement cx rec = Inr v"
  shows "accounted x cx m (booked x m pid v rec d) rec"
proof (cases "dedups m")
  case True
  with assms show ?thesis by (simp add: accounted_def)
next
  case False
  have "set (movementLegs x pid v) \<subseteq> entryContent ` set (entries (booked x m pid v rec d))"
    using booked_content [of x m pid v rec d, THEN arg_cong [where f = set]] by (simp only: set_map set_append Un_upper2)
  with assms False show ?thesis by (auto simp: accounted_def)
qed

lemma apply_accounts:
  assumes "cext_ok cx" "apply_movement x cx m fresh w d rec = (res, d')"
  shows "grows d d' \<and> ((\<exists>b. res = Inr b) \<longrightarrow> accounted x cx m d' rec)"
  using assms
proof (cases rule: apply_cases)
  case (error e)
  with unchanged_tables [of d d'] show ?thesis by (simp add: grows_def)
next
  case (duplicate v)
  then have "vMessage v \<in> mId ` set (inbox d)" by (metis image_eqI)
  with duplicate show ?thesis by (simp add: accounted_def)
next
  case (applied v)
  then show ?thesis by (simp add: booked_grows booked_accounted)
qed

lemma applyAll_accounts:
  assumes "cext_ok cx"
  shows "applyAll x cx c ids ws i d rs st k = ((st', err), d', k') \<Longrightarrow>
    grows d d' \<and> (err = None \<longrightarrow> (\<forall>rec \<in> set rs. accounted x cx (cmode c) d' rec))"
proof (induction rs arbitrary: i d st k)
  case (Cons rec rs)
  obtain r1 d1 where 1: "apply_movement x cx (cmode c) (ids i) (ws i) d rec = (r1, d1)" by force
  note one = apply_accounts [OF assms 1]
  show ?case
  proof (cases r1)
    case (Inl e)
    with Cons.prems 1 one show ?thesis by auto
  next
    case (Inr b)
    with Cons.prems 1 obtain st1 k1 where "applyAll x cx c ids ws (Suc i) d1 rs st1 k1 = ((st', err), d', k')"
      by (cases b) auto
    from Cons.IH [OF this] one Inr show ?thesis by (auto intro: grows_trans accounted_grows)
  qed
qed simp

section \<open>What a batch does to the broker\<close>

text \<open>The outcomes of \<^verbatim>\<open>RunOnce\<close> in a mode that commits after applying.\<close>

lemma RunOnce_after:
  assumes "RunOnce br x cx c ids ws d b k = ((st, err), d', b', k')" "cmode c \<noteq> AtMostOnce"
  obtains (poll_failed) e where "poll br b (nat (oBatch (copts c))) = (Inl e, b')" "d' = d" "err = Some (ErrPoll e)"
  | (idle) "poll br b (nat (oBatch (copts c))) = (Inr [], b')" "d' = d" "err = None"
  | (failed) records st0 st1 e k1 where "poll br b (nat (oBatch (copts c))) = (Inr records, b')"
      "applyAll x cx c ids ws 0 d records st0 k = ((st1, Some e), d', k1)" "err = Some e"
  | (finished) records b1 st0 st1 k1 r2 where "poll br b (nat (oBatch (copts c))) = (Inr records, b1)"
      "applyAll x cx c ids ws 0 d records st0 k = ((st1, None), d', k1)" "commit br b1 records = (r2, b')"
      "err = None \<or> (\<exists>e. r2 = Inl e \<and> err = Some (ErrBrokerCommit (cmode c) e))"
proof -
  obtain r b1 where p: "poll br b (nat (oBatch (copts c))) = (r, b1)" by force
  note R = assms(1) [unfolded RunOnce_def p Let_def]
  show thesis
  proof (cases r)
    case (Inl e)
    with R p poll_failed show thesis by simp
  next
    case r: (Inr records)
    show thesis
    proof (cases "records = []")
      case True
      with R p r idle show thesis by simp
    next
      case False
      let ?st = "noStats\<lparr>Polled := length records\<rparr>"
      obtain st1 e1 d1 k1 where A: "applyAll x cx c ids ws 0 d records ?st k = ((st1, e1), d1, k1)" by (metis surj_pair)
      obtain r2 b2 where C: "commit br b1 records = (r2, b2)" by force
      note R' = R [unfolded r attempt_simps A C prod.case, simplified False assms(2) if_False]
      show thesis
      proof (cases e1)
        case (Some e)
        with R' have "d' = d1" "b' = b1" "err = Some e" by simp_all
        with p r A Some show thesis by (intro failed) simp_all
      next
        case None
        with R' have "d' = d1" "b' = b2" "err = None \<or> (\<exists>e. r2 = Inl e \<and> err = Some (ErrBrokerCommit (cmode c) e))"
          by (cases r2; auto split: if_splits)+
        with p r A C None show thesis by (intro finished) simp_all
      qed
    qed
  qed
qed

section \<open>The contract of a consumer group\<close>

text \<open>
  Between two offsets committed the position may be put back to what is committed (a rebalance),
  a commit that failed may have reached the broker, and a poll that failed may have moved the
  position. What a commit settles is only what the position has passed.
\<close>

locale group_source = record_source br durable
  for br :: "'b broker_ops" and durable :: "'b \<Rightarrow> Record set" +
  fixes below :: "'b \<Rightarrow> Record set"
    and settled :: "'b \<Rightarrow> Record set"
  assumes poll_settled: "poll br b n = (r, b') \<Longrightarrow> settled b' = settled b"
    and poll_below: "poll br b n = (Inr rs, b') \<Longrightarrow> set rs \<subseteq> below b' \<and> below b' \<subseteq> below b \<union> settled b \<union> set rs"
    and commit_settled: "commit br b rs = (res, b') \<Longrightarrow> set rs \<subseteq> below b \<Longrightarrow>
      settled b \<subseteq> settled b' \<and> settled b' \<subseteq> settled b \<union> below b \<and> below b' \<subseteq> below b \<union> settled b"
begin

text \<open>One batch of a mode that applies before it commits.\<close>

lemma RunOnce_settles:
  assumes "cext_ok cx" "cmode c \<noteq> AtMostOnce" "RunOnce br x cx c ids ws d b k = ((st, err), d', b', k')"
    and "\<forall>rec \<in> settled b \<union> below b. accounted x cx (cmode c) d rec"
  shows "grows d d' \<and> (\<forall>rec \<in> settled b'. accounted x cx (cmode c) d' rec) \<and>
    (err = None \<longrightarrow> (\<forall>rec \<in> settled b' \<union> below b'. accounted x cx (cmode c) d' rec))"
  using assms(3,2)
proof (cases rule: RunOnce_after)
  case (poll_failed e)
  with assms(4) poll_settled [of b] show ?thesis by auto
next
  case idle
  with assms(4) poll_settled [of b] poll_below [of b] show ?thesis by fastforce
next
  case (failed records st0 st1 e k1)
  from applyAll_accounts [OF assms(1) failed(2)] have "grows d d'" by blast
  with failed assms(4) poll_settled [of b] show ?thesis by (auto intro: accounted_grows)
next
  case (finished records b1 st0 st1 k1 r2)
  note applied = applyAll_accounts [OF assms(1) finished(2)]
  note p = poll_settled [OF finished(1)] poll_below [OF finished(1)]
  note c = commit_settled [OF finished(3) conjunct1 [OF p(2)]]
  have "\<forall>rec \<in> settled b1 \<union> below b1. accounted x cx (cmode c) d' rec"
    using p applied assms(4) by (blast intro: accounted_grows)
  with c applied show ?thesis by blast
qed

lemma Run_settles:
  assumes "cext_ok cx" "cmode c \<noteq> AtMostOnce"
  shows "cons_Run br x cx c turns d b k = (err, d', b', k') \<Longrightarrow>
    \<forall>rec \<in> settled b \<union> below b. accounted x cx (cmode c) d rec \<Longrightarrow>
    grows d d' \<and> (\<forall>rec \<in> settled b'. accounted x cx (cmode c) d' rec)"
proof (induction turns arbitrary: d b k)
  case (Cons turn turns)
  obtain ids ws where turn: "turn = (ids, ws)" by force
  obtain st e d1 b1 k1 where R: "RunOnce br x cx c ids ws d b k = ((st, e), d1, b1, k1)" by (metis surj_pair)
  note one = RunOnce_settles [OF assms R Cons.prems(2)]
  show ?case
  proof (cases e)
    case (Some er)
    with Cons.prems turn R one show ?thesis by simp
  next
    case None
    with Cons.prems turn R have "cons_Run br x cx c turns d1 b1 k1 = (err, d', b', k')" by simp
    from Cons.IH [OF this] one None show ?thesis by (blast intro: grows_trans)
  qed
qed simp

end

text \<open>
  The history of a group: sessions of one mode, each starting at the committed offsets, on the
  database the one before left. \<open>history \<dots> S d'\<close> says that \<open>S\<close> is committed and \<open>d'\<close> the database now.
\<close>

inductive history ::
  "'b broker_ops \<Rightarrow> ('b \<Rightarrow> Record set) \<Rightarrow> ('b \<Rightarrow> Record set) \<Rightarrow> ('b \<Rightarrow> Record set) \<Rightarrow> ext \<Rightarrow> cext \<Rightarrow> Mode \<Rightarrow>
   Record set \<Rightarrow> db \<Rightarrow> Record set \<Rightarrow> db \<Rightarrow> bool"
  for br durable below settled x cx m L d0 where
  fresh: "history br durable below settled x cx m L d0 {} d0"
| session: "history br durable below settled x cx m L d0 S d \<Longrightarrow> durable b = L \<Longrightarrow> settled b = S \<Longrightarrow> below b \<subseteq> S \<Longrightarrow>
    cmode c = m \<Longrightarrow> cons_Run br x cx c turns d b k = (err, d', b', k') \<Longrightarrow>
    history br durable below settled x cx m L d0 (settled b') d'"

context group_source
begin

text \<open>At least once: nothing is committed that is not accounted for.\<close>

lemma at_least_once:
  assumes "cext_ok cx" "m \<noteq> AtMostOnce"
  shows "history br durable below settled x cx m L d0 S d \<Longrightarrow> \<forall>rec \<in> S. accounted x cx m d rec"
proof (induction rule: history.induct)
  case (session S d b c turns k err d' b' k')
  from session.hyps(3,4) session.IH have "\<forall>rec \<in> settled b \<union> below b. accounted x cx m d rec" by blast
  with Run_settles [OF assms(1) _ session.hyps(6)] session.hyps(5) assms(2) show ?case by blast
qed simp

text \<open>A deduplicating mode books every message once, over all the sessions.\<close>

lemma history_books:
  assumes "cext_ok cx" "dedups m"
  shows "history br durable below settled x cx m L d0 S d \<Longrightarrow> books x cx m L d0 d"
proof (induction rule: history.induct)
  case fresh
  show ?case by (intro books_refl) simp_all
next
  case (session S d b c turns k err d' b' k')
  with Run_books [OF assms(1), of c x turns d b k err d' b' k'] assms(2) show ?case
    by (auto intro: books_trans)
qed

end

section \<open>At most once: mode A\<close>

text \<open>\<open>d'\<close> extends \<open>d\<close> by the legs of movements of pairwise different records of \<open>T\<close>, and by no other entry.\<close>

definition took :: "ext \<Rightarrow> cext \<Rightarrow> Record set \<Rightarrow> db \<Rightarrow> db \<Rightarrow> bool" where
  "took x cx T d d' \<longleftrightarrow> (\<exists>bs.
     map entryContent (entries d') = map entryContent (entries d) @ concat (map (\<lambda>(rec, pid, v). movementLegs x pid v) bs) \<and>
     distinct (map fst bs) \<and> fst ` set bs \<subseteq> T \<and> (\<forall>(rec, pid, v) \<in> set bs. decodeMovement cx rec = Inr v))"

lemma took_same: "entries d' = entries d \<Longrightarrow> took x cx T d d'"
  unfolding took_def by (intro exI [of _ "[]"]) simp

lemma took_mono: "took x cx T d d' \<Longrightarrow> T \<subseteq> T' \<Longrightarrow> took x cx T' d d'"
  unfolding took_def by blast

lemma took_one: "decodeMovement cx rec = Inr v \<Longrightarrow> took x cx {rec} d (booked x m pid v rec d)"
  unfolding took_def booked_content by (intro exI [of _ "[(rec, pid, v)]"]) simp

lemma took_trans:
  assumes "took x cx T d d1" "took x cx T' d1 d2" "T \<inter> T' = {}"
  shows "took x cx (T \<union> T') d d2"
proof -
  from assms(1) obtain bs where 1: "map entryContent (entries d1) =
      map entryContent (entries d) @ concat (map (\<lambda>(rec, pid, v). movementLegs x pid v) bs)"
    "distinct (map fst bs)" "fst ` set bs \<subseteq> T" "\<forall>(rec, pid, v) \<in> set bs. decodeMovement cx rec = Inr v"
    unfolding took_def by blast
  from assms(2) obtain cs where 2: "map entryContent (entries d2) =
      map entryContent (entries d1) @ concat (map (\<lambda>(rec, pid, v). movementLegs x pid v) cs)"
    "distinct (map fst cs)" "fst ` set cs \<subseteq> T'" "\<forall>(rec, pid, v) \<in> set cs. decodeMovement cx rec = Inr v"
    unfolding took_def by blast
  have "fst ` set bs \<inter> fst ` set cs = {}" using 1(3) 2(3) assms(3) by blast
  moreover have "fst ` set (bs @ cs) \<subseteq> T \<union> T'" using 1(3) 2(3) by auto
  moreover have "\<forall>(rec, pid, v) \<in> set (bs @ cs). decodeMovement cx rec = Inr v" using 1(4) 2(4) by auto
  moreover have "map entryContent (entries d2) = map entryContent (entries d) @
      concat (map (\<lambda>(rec, pid, v). movementLegs x pid v) (bs @ cs))" using 1(1) 2(1) by simp
  ultimately show ?thesis using 1(2) 2(2) unfolding took_def by (intro exI [of _ "bs @ cs"]) simp
qed

lemma apply_took:
  assumes "cext_ok cx" "apply_movement x cx m fresh w d rec = (res, d')"
  shows "took x cx {rec} d d'"
  using assms
proof (cases rule: apply_cases)
  case (error e)
  then show ?thesis by (intro took_same unchanged_tables)
next
  case (duplicate v)
  then show ?thesis by (intro took_same) simp
next
  case (applied v)
  then show ?thesis by (simp add: took_one)
qed

lemma applyAll_took:
  assumes "cext_ok cx"
  shows "applyAll x cx c ids ws i d rs st k = (out, d', k') \<Longrightarrow> distinct rs \<Longrightarrow> took x cx (set rs) d d'"
proof (induction rs arbitrary: i d st k)
  case Nil
  then show ?case by (intro took_same) simp
next
  case (Cons rec rs)
  obtain r1 d1 where 1: "apply_movement x cx (cmode c) (ids i) (ws i) d rec = (r1, d1)" by force
  note one = apply_took [OF assms 1]
  show ?case
  proof (cases r1)
    case (Inl e)
    with Cons.prems 1 one show ?thesis by (auto intro: took_mono)
  next
    case (Inr b)
    with Cons.prems 1 obtain st1 k1 where "applyAll x cx c ids ws (Suc i) d1 rs st1 k1 = (out, d', k')"
      by (cases b) auto
    from Cons.IH [OF this] Cons.prems(2) have "took x cx (set rs) d1 d'" by simp
    from took_trans [OF one this] Cons.prems(2) show ?thesis by simp
  qed
qed

text \<open>The outcomes of \<^verbatim>\<open>RunOnce\<close> in mode A: what it books was committed before.\<close>

lemma RunOnce_before:
  assumes "RunOnce br x cx c ids ws d b k = ((st, err), d', b', k')" "cmode c = AtMostOnce"
  obtains (unread) r where "poll br b (nat (oBatch (copts c))) = (r, b')" "d' = d"
  | (dropped) records b1 e where "poll br b (nat (oBatch (copts c))) = (Inr records, b1)"
      "commit br b1 records = (Inl e, b')" "d' = d"
  | (taken) records b1 st0 k0 out k1 where "poll br b (nat (oBatch (copts c))) = (Inr records, b1)"
      "commit br b1 records = (Inr (), b')" "applyAll x cx c ids ws 0 d records st0 k0 = (out, d', k1)"
proof -
  obtain r b1 where p: "poll br b (nat (oBatch (copts c))) = (r, b1)" by force
  note R = assms(1) [unfolded RunOnce_def p Let_def]
  show thesis
  proof (cases "r = Inr [] \<or> (\<exists>e. r = Inl e)")
    case True
    with R p unread show thesis by auto
  next
    case False
    then obtain records where r: "r = Inr records" "records \<noteq> []" by (cases r) auto
    let ?st = "noStats\<lparr>Polled := length records\<rparr>"
    obtain st1 e1 d1 k1 where A: "applyAll x cx c ids ws 0 d records ?st k = ((st1, e1), d1, k1)" by (metis surj_pair)
    obtain r2 b2 where C: "commit br b1 records = (r2, b2)" by force
    note R' = R [unfolded r(1) attempt_simps A C prod.case, simplified r(2) assms(2) if_False]
    show thesis
    proof (cases r2)
      case (Inl e)
      with R' have "d' = d" "b' = b2" by (auto split: if_splits)
      with p r C Inl show thesis by (intro dropped) simp_all
    next
      case (Inr u)
      with R' have "d' = d1" "b' = b2" by (auto split: option.splits)
      with p r A C Inr show thesis by (intro taken) simp_all
    qed
  qed
qed

text \<open>
  A group that delivers no record at or below a committed offset, no record twice in one poll,
  and whose successful commits are durable.
\<close>

locale committing_group = group_source br durable below settled
  for br :: "'b broker_ops" and durable below settled :: "'b \<Rightarrow> Record set" +
  assumes poll_new: "poll br b n = (Inr rs, b') \<Longrightarrow> distinct rs \<and> set rs \<inter> settled b = {}"
    and commit_all: "commit br b rs = (Inr (), b') \<Longrightarrow> set rs \<subseteq> below b \<Longrightarrow> set rs \<subseteq> settled b'"
begin

lemma RunOnce_takes:
  assumes "cext_ok cx" "cmode c = AtMostOnce" "RunOnce br x cx c ids ws d b k = ((st, err), d', b', k')"
  shows "settled b \<subseteq> settled b' \<and> took x cx (settled b' - settled b) d d'"
  using assms(3,2)
proof (cases rule: RunOnce_before)
  case (unread r)
  with poll_settled [of b] show ?thesis by (simp add: took_same)
next
  case (dropped records b1 e)
  from commit_settled [OF dropped(2)] poll_below [OF dropped(1)] poll_settled [OF dropped(1)] dropped(3)
  show ?thesis by (auto intro: took_same)
next
  case (taken records b1 st0 k0 out k1)
  note p = poll_settled [OF taken(1)] conjunct1 [OF poll_below [OF taken(1)]] poll_new [OF taken(1)]
  have "took x cx (set records) d d'" using applyAll_took [OF assms(1) taken(3)] p by blast
  moreover have "set records \<subseteq> settled b' - settled b" using commit_all [OF taken(2) p(2)] p(3) by blast
  ultimately show ?thesis using commit_settled [OF taken(2) p(2)] p(1) by (blast intro: took_mono)
qed

lemma Run_takes:
  assumes "cext_ok cx" "cmode c = AtMostOnce"
  shows "cons_Run br x cx c turns d b k = (err, d', b', k') \<Longrightarrow>
    settled b \<subseteq> settled b' \<and> took x cx (settled b' - settled b) d d'"
proof (induction turns arbitrary: d b k)
  case Nil
  then show ?case by (auto intro: took_same)
next
  case (Cons turn turns)
  obtain ids ws where turn: "turn = (ids, ws)" by force
  obtain st e d1 b1 k1 where R: "RunOnce br x cx c ids ws d b k = ((st, e), d1, b1, k1)" by (metis surj_pair)
  note one = RunOnce_takes [OF assms R]
  show ?case
  proof (cases e)
    case (Some er)
    with Cons.prems turn R one show ?thesis by simp
  next
    case None
    with Cons.prems turn R have "cons_Run br x cx c turns d1 b1 k1 = (err, d', b', k')" by simp
    note rest = Cons.IH [OF this]
    from one rest have "took x cx ((settled b1 - settled b) \<union> (settled b' - settled b1)) d d'"
      by (blast intro: took_trans)
    with one rest show ?thesis by (blast intro: took_mono)
  qed
qed

lemma at_most_once:
  assumes "cext_ok cx"
  shows "history br durable below settled x cx AtMostOnce L d0 S d \<Longrightarrow> took x cx S d0 d"
proof (induction rule: history.induct)
  case fresh
  show ?case by (simp add: took_same)
next
  case (session S d b c turns k err d' b' k')
  from Run_takes [OF assms session.hyps(5,6)] session.hyps(3) have
    new: "S \<subseteq> settled b'" "took x cx (settled b' - S) d d'" by simp_all
  from took_trans [OF session.IH new(2)] have "took x cx (S \<union> (settled b' - S)) d0 d'" by blast
  with new(1) show ?case by (blast intro: took_mono)
qed

end

section \<open>The franz-go client\<close>

text \<open>
  What the documentation of franz-go promises with auto-commit disabled: a poll moves no committed
  offset, returns records of the subscribed topics in offset order from the position, which is
  never behind a committed offset; a commit of fetched records settles at most what the position
  has passed, and all of those records when it reports success; ending a transaction without
  committing settles nothing.
\<close>

locale kgo_group =
  fixes g :: "'k kgo"
    and durable below settled :: "'k \<Rightarrow> Record set"
  assumes fetch: "pollRecords g k n = ((errs, rs), k') \<Longrightarrow> durable k' = durable k \<and> settled k' = settled k \<and>
      set rs \<subseteq> durable k \<and> set rs \<subseteq> below k' \<and> below k' \<subseteq> below k \<union> settled k \<union> set rs \<and>
      distinct rs \<and> set rs \<inter> settled k = {}"
    and commit_offsets: "commitRecords g k (offsetsOf rs) = (e, k') \<Longrightarrow> durable k' = durable k \<and>
      (set rs \<subseteq> below k \<longrightarrow> settled k \<subseteq> settled k' \<and> settled k' \<subseteq> settled k \<union> below k \<and>
        below k' \<subseteq> below k \<union> settled k \<and> (e = None \<longrightarrow> set rs \<subseteq> settled k'))"
    and begin_txn: "sessBegin g k = (e, k') \<Longrightarrow> durable k' = durable k \<and> settled k' = settled k \<and>
      below k' \<subseteq> below k \<union> settled k"
    and end_txn: "sessEnd g k tr = (res, k') \<Longrightarrow> durable k' = durable k \<and> settled k \<subseteq> settled k' \<and>
      settled k' \<subseteq> settled k \<union> below k \<and> below k' \<subseteq> below k \<union> settled k \<and> (\<not> tr \<longrightarrow> settled k' = settled k)"

lemma KafkaPoll_client:
  assumes "KafkaPoll g ctxDone c n = (r, c')"
  obtains errs rs where "pollRecords g (kcl c) n = ((errs, rs), kcl c')" "r = Inr rs \<or> (\<exists>e. r = Inl e)"
proof -
  obtain errs rs k' where p: "pollRecords g (kcl c) n = ((errs, rs), k')" by (metis surj_pair)
  obtain i stop where s: "scanFetchErrors errs (dataLoss c) = (i, stop)" by force
  have "kcl c' = k'" "r = Inr rs \<or> (\<exists>e. r = Inl e)"
    using assms by (auto simp: KafkaPoll_def p s Let_def split: if_splits option.splits)
  with p that show thesis by simp
qed

lemma KafkaCommit_client:
  assumes "KafkaCommit g c rs = (r, c')"
  obtains (nothing) "rs = []" "c' = c" "r = Inr ()"
  | (sent) e where "commitRecords g (kcl c) (offsetsOf rs) = (e, kcl c')" "r = Inr () \<longleftrightarrow> e = None"
proof (cases "rs = []")
  case False
  obtain e k' where "commitRecords g (kcl c) (offsetsOf rs) = (e, k')" by force
  with assms False sent show ?thesis by (cases e) (auto simp: KafkaCommit_def)
qed (use assms nothing in \<open>simp add: KafkaCommit_def\<close>)

context kgo_group
begin

lemma plain_poll:
  assumes "KafkaPoll g ctxDone c n = (r, c')"
  shows "durable (kcl c') = durable (kcl c) \<and> settled (kcl c') = settled (kcl c) \<and>
    (\<forall>rs. r = Inr rs \<longrightarrow> set rs \<subseteq> durable (kcl c) \<and> set rs \<subseteq> below (kcl c') \<and>
      below (kcl c') \<subseteq> below (kcl c) \<union> settled (kcl c) \<union> set rs \<and> distinct rs \<and> set rs \<inter> settled (kcl c) = {})"
proof -
  from assms obtain errs rs where "pollRecords g (kcl c) n = ((errs, rs), kcl c')" "r = Inr rs \<or> (\<exists>e. r = Inl e)"
    by (rule KafkaPoll_client)
  with fetch [OF this(1)] show ?thesis by auto
qed

lemma plain_commit:
  assumes "KafkaCommit g c rs = (r, c')"
  shows "durable (kcl c') = durable (kcl c) \<and> (set rs \<subseteq> below (kcl c) \<longrightarrow>
    settled (kcl c) \<subseteq> settled (kcl c') \<and> settled (kcl c') \<subseteq> settled (kcl c) \<union> below (kcl c) \<and>
    below (kcl c') \<subseteq> below (kcl c) \<union> settled (kcl c) \<and> (r = Inr () \<longrightarrow> set rs \<subseteq> settled (kcl c')))"
  using assms
proof (cases rule: KafkaCommit_client)
  case (sent e)
  with commit_offsets [OF sent(1)] show ?thesis by simp
qed simp

text \<open>The transactional session: \<open>TxnPollOpen\<close> may end an empty transaction, \<open>TxnPoll\<close> may begin one.\<close>

lemma endTxn_client:
  assumes "endTxn g c tr = (res, c')"
  shows "sessEnd g (sess c) tr = (res, sess c')"
  using assms by (auto simp: endTxn_def split: prod.splits)

lemma open_poll:
  assumes "TxnPollOpen g ctxDone c n = (r, c')"
  shows "durable (sess c') = durable (sess c) \<and> settled (sess c') = settled (sess c) \<and>
    (\<forall>rs. r = Inr rs \<longrightarrow> set rs \<subseteq> durable (sess c) \<and> set rs \<subseteq> below (sess c') \<and>
      below (sess c') \<subseteq> below (sess c) \<union> settled (sess c) \<union> set rs)"
proof -
  obtain errs rs k' where p: "pollRecords g (sess c) n = ((errs, rs), k')" by (metis surj_pair)
  note f = fetch [OF p]
  obtain i stop where s: "scanFetchErrors errs (tDataLoss c) = (i, stop)" by force
  note T = assms [unfolded TxnPollOpen_def p Let_def, simplified] s
  let ?c2 = "c\<lparr>sess := k', tDataLoss := i\<rparr>"
  obtain res c3 where E: "endTxn g ?c2 False = (res, c3)" by (metis surj_pair)
  note e = end_txn [OF endTxn_client [OF E]]
  show ?thesis
  proof (cases "\<not> ctxDone \<and> stop = None \<and> rs = []")
    case True
    with T E have "r = Inr []" "c' = c3" by simp_all
    with f e True show ?thesis by auto
  next
    case False
    with T have "sess c' = k'" "r = Inr rs \<or> (\<exists>e. r = Inl e)" by (auto split: if_splits option.splits)
    with f show ?thesis by auto
  qed
qed

lemma txn_poll:
  assumes "TxnPoll g ctxDone c n = (r, c')"
  shows "durable (sess c') = durable (sess c) \<and> settled (sess c') = settled (sess c) \<and>
    (\<forall>rs. r = Inr rs \<longrightarrow> set rs \<subseteq> durable (sess c) \<and> set rs \<subseteq> below (sess c') \<and>
      below (sess c') \<subseteq> below (sess c) \<union> settled (sess c) \<union> set rs)"
proof (cases "inTxn c")
  case True
  with assms open_poll show ?thesis by (simp add: TxnPoll_def)
next
  case False
  obtain e k' where b: "sessBegin g (sess c) = (e, k')" by force
  note begun = begin_txn [OF b]
  show ?thesis
  proof (cases e)
    case None
    with assms False b have "TxnPollOpen g ctxDone (c\<lparr>sess := k', inTxn := True\<rparr>) n = (r, c')"
      by (simp add: TxnPoll_def)
    from open_poll [OF this] begun show ?thesis by simp blast
  next
    case (Some er)
    with assms False b begun show ?thesis by (auto simp: TxnPoll_def)
  qed
qed

lemma txn_commit:
  assumes "TxnCommit g c rs = (r, c')"
  shows "durable (sess c') = durable (sess c) \<and> settled (sess c) \<subseteq> settled (sess c') \<and>
    settled (sess c') \<subseteq> settled (sess c) \<union> below (sess c) \<and> below (sess c') \<subseteq> below (sess c) \<union> settled (sess c)"
proof (cases "inTxn c")
  case True
  obtain ok e c1 where E: "endTxn g c True = ((ok, e), c1)" by (metis surj_pair)
  from assms True E have "sess c' = sess c1" by (auto simp: TxnCommit_def split: option.splits if_splits)
  with end_txn [OF endTxn_client [OF E]] show ?thesis by simp
qed (use assms in \<open>auto simp: TxnCommit_def\<close>)

end

sublocale kgo_group \<subseteq> plain: committing_group "kafkaOps g ctxDone"
    "\<lambda>c. durable (kcl c)" "\<lambda>c. below (kcl c)" "\<lambda>c. settled (kcl c)"
  for ctxDone
  by unfold_locales (simp_all add: kafkaOps_def, (blast dest: plain_poll plain_commit)+)

sublocale kgo_group \<subseteq> txn: group_source "txnOps g ctxDone"
    "\<lambda>c. durable (sess c)" "\<lambda>c. below (sess c)" "\<lambda>c. settled (sess c)"
  for ctxDone
  by unfold_locales (simp_all add: txnOps_def, (blast dest: txn_poll txn_commit)+)

context kgo_group
begin

lemmas plain_at_least_once = plain.at_least_once
lemmas plain_at_most_once = plain.at_most_once
lemmas plain_history_books = plain.history_books
lemmas txn_at_least_once = txn.at_least_once
lemmas txn_history_books = txn.history_books

end

section \<open>A client in memory\<close>

text \<open>
  One partition holding one record; the state is the position and the committed offset, and the
  transactional session rewinds to the committed offset when it aborts.
\<close>

definition memLog :: "Record list" where
  "memLog = [sampleRecord]"

definition memKgo :: "(nat \<times> nat) kgo" where
  "memKgo = \<lparr>newClient = (\<lambda>opts. Inr (0, 0)), createTopic = (\<lambda>k t p r. (None, None)), topicExists = (\<lambda>e. False),
     produceSync = (\<lambda>k rs. (map (\<lambda>r. None) rs, k)),
     pollRecords = (\<lambda>(p, c) n. (([], take n (drop (max p c) memLog)), (max p c + n, c))),
     commitRecords = (\<lambda>(p, c) os. (None, (p, if os = [] then c else max p c))),
     admLag = (\<lambda>k grp. Inr []), sessBegin = (\<lambda>k. (None, k)),
     sessEnd = (\<lambda>(p, c) tr. if tr then ((True, None), (p, max p c)) else ((False, None), (c, c))),
     closeClient = (\<lambda>k. k)\<rparr>"

definition memDurable :: "nat \<times> nat \<Rightarrow> Record set" where
  "memDurable k = {sampleRecord}"

definition memBelow :: "nat \<times> nat \<Rightarrow> Record set" where
  "memBelow k = set (take (fst k) memLog)"

definition memSettled :: "nat \<times> nat \<Rightarrow> Record set" where
  "memSettled k = set (take (snd k) memLog)"

lemmas mem_sets = memDurable_def memBelow_def memSettled_def

lemma memLog_take: "set (take n memLog) = (if n = 0 then {} else {sampleRecord})"
  by (cases n) (simp_all add: memLog_def)

lemma memLog_window: "take n (drop i memLog) = (if n = 0 \<or> i \<noteq> 0 then [] else [sampleRecord])"
  by (cases n; cases i) (simp_all add: memLog_def)

interpretation mem: kgo_group memKgo memDurable memBelow memSettled
proof unfold_locales
  fix k k' :: "nat \<times> nat" and n and errs :: "(string \<times> int \<times> etag list) list" and rs
  obtain a c where k: "k = (a, c)" by force
  assume "pollRecords memKgo k n = ((errs, rs), k')"
  then have "rs = take n (drop (max a c) memLog)" "k' = (max a c + n, c)" by (simp_all add: memKgo_def k)
  then show "memDurable k' = memDurable k \<and> memSettled k' = memSettled k \<and> set rs \<subseteq> memDurable k \<and>
      set rs \<subseteq> memBelow k' \<and> memBelow k' \<subseteq> memBelow k \<union> memSettled k \<union> set rs \<and> distinct rs \<and> set rs \<inter> memSettled k = {}"
    by (simp add: k mem_sets memLog_take memLog_window)
next
  fix k k' :: "nat \<times> nat" and rs e
  obtain a c where k: "k = (a, c)" by force
  assume "commitRecords memKgo k (offsetsOf rs) = (e, k')"
  then have "k' = (a, if rs = [] then c else max a c)" by (simp add: memKgo_def k offsetsOf_def)
  then show "memDurable k' = memDurable k \<and> (set rs \<subseteq> memBelow k \<longrightarrow> memSettled k \<subseteq> memSettled k' \<and>
      memSettled k' \<subseteq> memSettled k \<union> memBelow k \<and> memBelow k' \<subseteq> memBelow k \<union> memSettled k \<and>
      (e = None \<longrightarrow> set rs \<subseteq> memSettled k'))"
    by (simp add: k mem_sets memLog_take max_def)
next
  fix k k' :: "nat \<times> nat" and tr res
  obtain a c where k: "k = (a, c)" by force
  assume "sessEnd memKgo k tr = (res, k')"
  then have "k' = (if tr then (a, max a c) else (c, c))" by (simp add: memKgo_def k split: if_splits)
  then show "memDurable k' = memDurable k \<and> memSettled k \<subseteq> memSettled k' \<and> memSettled k' \<subseteq> memSettled k \<union> memBelow k \<and>
      memBelow k' \<subseteq> memBelow k \<union> memSettled k \<and> (\<not> tr \<longrightarrow> memSettled k' = memSettled k)"
    by (simp add: k mem_sets memLog_take max_def)
qed (simp add: memKgo_def)

text \<open>A session of one batch that books the record and commits it.\<close>

lemma sample_unbooked:
  "\<not> has_posting sampleDB (movementPostingID consExt m 9 (vMessage sampleV))" "inbox sampleDB = []"
  using sample_fresh(1) by (simp_all add: sampleDB_def run_tx_def InsertAccount_def sampleAccount_def char3_def
    has_account_def emptyDB_def tx_Commit_def)

lemma sample_apply:
  "apply_movement consExt sampleCext m 9 sampleWorld sampleDB sampleRecord =
     (Inr True, booked consExt m (movementPostingID consExt m 9 (vMessage sampleV)) sampleV sampleRecord sampleDB)"
  using sample_ledger_ok [of consExt] sample_unbooked
  by (intro apply_succeeds [OF sample_cext sample_decode sample_healthy _ sample_bookable]) (simp_all add: ledger_ok_def)

abbreviation sampleTurns :: "((nat \<Rightarrow> uuid) \<times> (nat \<Rightarrow> world)) list" where
  "sampleTurns \<equiv> [(\<lambda>i. 9, \<lambda>i. sampleWorld)]"

definition memConsumer :: "(nat \<times> nat) KafkaConsumer" where
  "memConsumer = \<lparr>kcl = (0, 0), kgroup = ''g'', ktimeout = DefaultPollTimeout, dataLoss = 0\<rparr>"

definition memSession :: "(nat \<times> nat) KafkaTransactionalConsumer" where
  "memSession = \<lparr>sess = (0, 0), tgroup = ''g'', ttimeout = DefaultPollTimeout, inTxn = False, aborted = 0, tDataLoss = 0\<rparr>"

lemma sample_session:
  "\<exists>b' k'. cons_Run (kafkaOps memKgo False) consExt sampleCext (sampleConsumer m) sampleTurns sampleDB memConsumer
      \<lparr>movements = [], consumerLag = None\<rparr> =
     (None, booked consExt m (movementPostingID consExt m 9 (vMessage sampleV)) sampleV sampleRecord sampleDB, b', k') \<and>
     kcl b' = (10, 10)"
  by (simp add: RunOnce_def kafkaOps_def KafkaPoll_def KafkaCommit_def memKgo_def memConsumer_def memLog_def
      sampleConsumer_def sample_apply offsetsOf_def Let_def split: sum.split)

lemma sample_txn_session:
  "\<exists>b' k'. cons_Run (txnOps memKgo False) consExt sampleCext (sampleConsumer Transactional) sampleTurns sampleDB memSession
      \<lparr>movements = [], consumerLag = None\<rparr> =
     (None, booked consExt Transactional (movementPostingID consExt Transactional 9 (vMessage sampleV)) sampleV sampleRecord sampleDB, b', k') \<and>
     sess b' = (10, 10)"
  by (simp add: RunOnce_def txnOps_def TxnPoll_def TxnPollOpen_def TxnCommit_def endTxn_def memKgo_def memSession_def memLog_def
      sampleConsumer_def sample_apply mode_defs Let_def split: sum.split)

lemma sample_history:
  "\<exists>d. history (kafkaOps memKgo False) (\<lambda>c. memDurable (kcl c)) (\<lambda>c. memBelow (kcl c)) (\<lambda>c. memSettled (kcl c))
     consExt sampleCext m {sampleRecord} sampleDB {sampleRecord} d"
proof -
  obtain b' k' where R: "cons_Run (kafkaOps memKgo False) consExt sampleCext (sampleConsumer m) sampleTurns sampleDB memConsumer
      \<lparr>movements = [], consumerLag = None\<rparr> =
     (None, booked consExt m (movementPostingID consExt m 9 (vMessage sampleV)) sampleV sampleRecord sampleDB, b', k')"
    "kcl b' = (10, 10)" using sample_session by blast
  from history.session [OF history.fresh _ _ _ _ R(1), of "\<lambda>c. memDurable (kcl c)" "{sampleRecord}"
      "\<lambda>c. memSettled (kcl c)" "\<lambda>c. memBelow (kcl c)" m] R(2)
  show ?thesis by (auto simp: mem_sets memConsumer_def memLog_def sampleConsumer_def)
qed

lemma sample_txn_history:
  "\<exists>d. history (txnOps memKgo False) (\<lambda>c. memDurable (sess c)) (\<lambda>c. memBelow (sess c)) (\<lambda>c. memSettled (sess c))
     consExt sampleCext Transactional {sampleRecord} sampleDB {sampleRecord} d"
proof -
  obtain b' k' where R: "cons_Run (txnOps memKgo False) consExt sampleCext (sampleConsumer Transactional) sampleTurns sampleDB memSession
      \<lparr>movements = [], consumerLag = None\<rparr> =
     (None, booked consExt Transactional (movementPostingID consExt Transactional 9 (vMessage sampleV)) sampleV sampleRecord sampleDB, b', k')"
    "sess b' = (10, 10)" using sample_txn_session by blast
  from history.session [OF history.fresh _ _ _ _ R(1), of "\<lambda>c. memDurable (sess c)" "{sampleRecord}"
      "\<lambda>c. memSettled (sess c)" "\<lambda>c. memBelow (sess c)" Transactional] R(2)
  show ?thesis by (auto simp: mem_sets memSession_def memLog_def sampleConsumer_def)
qed

section \<open>Properties\<close>

text \<open>
  C4. At least once, mode B on the plain Kafka consumer: over any sequence of sessions, with
  rebalances, failed commits and failed applies in between, every record whose offset the group
  has committed was decoded and both legs of its movement are in the ledger. A record that
  cannot be decoded is therefore never passed: the group stays in front of it.
\<close>

theorem kafka_at_least_once:
  assumes "kgo_group g durable below comm" "cext_ok cx"
    and "history (kafkaOps g ctxDone) (\<lambda>c. durable (kcl c)) (\<lambda>c. below (kcl c)) (\<lambda>c. comm (kcl c))
      x cx AtLeastOnce L d0 S d"
  shows "\<forall>rec \<in> S. \<exists>v pid. decodeMovement cx rec = Inr v \<and>
    set (movementLegs x pid v) \<subseteq> entryContent ` set (entries d)"
proof -
  have "\<forall>rec \<in> S. accounted x cx AtLeastOnce d rec"
    using kgo_group.plain_at_least_once [OF assms(1,2) _ assms(3)] by (simp add: mode_defs)
  then show ?thesis by (simp add: accounted_iff dedups_def mode_defs)
qed

theorem kafka_at_least_once_witness:
  "\<exists>d. history (kafkaOps memKgo False) (\<lambda>c. memDurable (kcl c)) (\<lambda>c. memBelow (kcl c)) (\<lambda>c. memSettled (kcl c))
      consExt sampleCext AtLeastOnce {sampleRecord} sampleDB {sampleRecord} d \<and>
    (\<exists>pid. set (movementLegs consExt pid sampleV) \<subseteq> entryContent ` set (entries d))"
proof -
  obtain d where H: "history (kafkaOps memKgo False) (\<lambda>c. memDurable (kcl c)) (\<lambda>c. memBelow (kcl c)) (\<lambda>c. memSettled (kcl c))
      consExt sampleCext AtLeastOnce {sampleRecord} sampleDB {sampleRecord} d" using sample_history by blast
  from kafka_at_least_once [OF mem.kgo_group_axioms sample_cext H] sample_decode H show ?thesis by auto
qed

text \<open>
  C5. At most once, mode A on the plain Kafka consumer: over any sequence of sessions, what was added
  to the ledger is one pair of legs for each of a list of pairwise different records, and every
  one of them is a record whose offset the group has committed.
\<close>

theorem kafka_at_most_once:
  assumes "kgo_group g durable below comm" "cext_ok cx"
    and "history (kafkaOps g ctxDone) (\<lambda>c. durable (kcl c)) (\<lambda>c. below (kcl c)) (\<lambda>c. comm (kcl c))
      x cx AtMostOnce L d0 S d"
  shows "\<exists>bs. map entryContent (entries d) =
      map entryContent (entries d0) @ concat (map (\<lambda>(rec, pid, v). movementLegs x pid v) bs) \<and>
    distinct (map fst bs) \<and> fst ` set bs \<subseteq> S \<and> (\<forall>(rec, pid, v) \<in> set bs. decodeMovement cx rec = Inr v)"
  using kgo_group.plain_at_most_once [OF assms] by (simp add: took_def)

theorem kafka_at_most_once_witness:
  "\<exists>d. history (kafkaOps memKgo False) (\<lambda>c. memDurable (kcl c)) (\<lambda>c. memBelow (kcl c)) (\<lambda>c. memSettled (kcl c))
      consExt sampleCext AtMostOnce {sampleRecord} sampleDB {sampleRecord} d \<and>
    (\<exists>bs :: (Record \<times> uuid \<times> Movement) list. distinct (map fst bs) \<and> fst ` set bs \<subseteq> {sampleRecord} \<and>
      length (entries d) = length (entries sampleDB) + length (concat (map (\<lambda>(rec, pid, v). movementLegs consExt pid v) bs)))"
proof -
  obtain d where H: "history (kafkaOps memKgo False) (\<lambda>c. memDurable (kcl c)) (\<lambda>c. memBelow (kcl c)) (\<lambda>c. memSettled (kcl c))
      consExt sampleCext AtMostOnce {sampleRecord} sampleDB {sampleRecord} d" using sample_history by blast
  from kafka_at_most_once [OF mem.kgo_group_axioms sample_cext H] obtain bs where
    bs: "map entryContent (entries d) = map entryContent (entries sampleDB) @
      concat (map (\<lambda>(rec, pid, v). movementLegs consExt pid v) bs)"
    "distinct (map fst bs)" "fst ` set bs \<subseteq> {sampleRecord}" by blast
  from bs(1) [THEN arg_cong [where f = length]] bs(2,3) H show ?thesis
    by (intro exI [of _ d] conjI exI [of _ bs]) simp_all
qed

text \<open>
  C2. Exactly once, mode C on the plain Kafka consumer and mode D on the transactional one: over any
  sequence of sessions the ledger gained one pair of legs and one inbox row for each of a list of
  movements with pairwise different, new message ids, and the message of every record whose
  offset the group has committed is among them or was booked before.
\<close>

theorem kafka_exactly_once:
  assumes "kgo_group g durable below comm" "cext_ok cx"
    and "m = InboxDedup \<and> history (kafkaOps g ctxDone) (\<lambda>c. durable (kcl c)) (\<lambda>c. below (kcl c)) (\<lambda>c. comm (kcl c))
        x cx m L d0 S d \<or>
      m = Transactional \<and> history (txnOps g ctxDone) (\<lambda>c. durable (sess c)) (\<lambda>c. below (sess c)) (\<lambda>c. comm (sess c))
        x cx m L d0 S d"
  shows "\<exists>vs. map mId (inbox d) = map mId (inbox d0) @ map vMessage vs \<and>
    distinct (map vMessage vs) \<and> set (map vMessage vs) \<inter> set (map mId (inbox d0)) = {} \<and>
    map entryContent (entries d) = map entryContent (entries d0) @
      concat (map (\<lambda>v. movementLegs x (movementPostingID x m 0 (vMessage v)) v) vs) \<and>
    (\<forall>v \<in> set vs. \<exists>rec \<in> L. decodeMovement cx rec = Inr v) \<and>
    (\<forall>rec \<in> S. \<exists>v. decodeMovement cx rec = Inr v \<and> vMessage v \<in> mId ` set (inbox d0) \<union> vMessage ` set vs)"
proof -
  have m: "dedups m" "m \<noteq> AtMostOnce" using assms(3) by (auto simp: dedups_def mode_defs)
  have "books x cx m L d0 d"
    using assms(3) kgo_group.plain_history_books [OF assms(1,2) m(1)] kgo_group.txn_history_books [OF assms(1,2) m(1)] by blast
  moreover have "\<forall>rec \<in> S. accounted x cx m d rec"
    using assms(3) kgo_group.plain_at_least_once [OF assms(1,2) m(2)] kgo_group.txn_at_least_once [OF assms(1,2) m(2)] by blast
  ultimately obtain vs where vs: "map mId (inbox d) = map mId (inbox d0) @ map vMessage vs"
    "distinct (map vMessage vs)" "set (map vMessage vs) \<inter> set (map mId (inbox d0)) = {}"
    "map entryContent (entries d) = map entryContent (entries d0) @
      concat (map (\<lambda>v. movementLegs x (movementPostingID x m 0 (vMessage v)) v) vs)"
    "\<forall>v \<in> set vs. \<exists>rec \<in> L. decodeMovement cx rec = Inr v"
    and acc: "\<forall>rec \<in> S. accounted x cx m d rec" by (auto simp: books_def)
  have "mId ` set (inbox d) = mId ` set (inbox d0) \<union> vMessage ` set vs"
    using vs(1) [THEN arg_cong [where f = set]] by simp
  with acc m(1) have "\<forall>rec \<in> S. \<exists>v. decodeMovement cx rec = Inr v \<and> vMessage v \<in> mId ` set (inbox d0) \<union> vMessage ` set vs"
    by (simp add: accounted_iff)
  with vs show ?thesis by blast
qed

theorem kafka_exactly_once_witness:
  "\<exists>d (vs :: Movement list). history (txnOps memKgo False) (\<lambda>c. memDurable (sess c)) (\<lambda>c. memBelow (sess c)) (\<lambda>c. memSettled (sess c))
      consExt sampleCext Transactional {sampleRecord} sampleDB {sampleRecord} d \<and>
    distinct (map vMessage vs) \<and> map mId (inbox d) = map vMessage vs \<and> ''m1'' \<in> vMessage ` set vs"
proof -
  obtain d where H: "history (txnOps memKgo False) (\<lambda>c. memDurable (sess c)) (\<lambda>c. memBelow (sess c)) (\<lambda>c. memSettled (sess c))
      consExt sampleCext Transactional {sampleRecord} sampleDB {sampleRecord} d" using sample_txn_history by blast
  from kafka_exactly_once [OF mem.kgo_group_axioms sample_cext disjI2 [OF conjI [OF refl H]]] obtain vs :: "Movement list" where
    vs: "map mId (inbox d) = map mId (inbox sampleDB) @ map vMessage vs" "distinct (map vMessage vs)"
    "\<forall>rec \<in> {sampleRecord}. \<exists>v. decodeMovement sampleCext rec = Inr v \<and>
      vMessage v \<in> mId ` set (inbox sampleDB) \<union> vMessage ` set vs" by blast
  from vs sample_decode have "vMessage sampleV \<in> vMessage ` set vs" by (simp add: sample_unbooked(2))
  moreover have "vMessage sampleV = ''m1''" by (simp add: sampleV_def)
  ultimately show ?thesis using H vs(1,2) by (intro exI [of _ d] exI [of _ vs]) (simp add: sample_unbooked(2))
qed

text \<open>
  A transaction that cannot begin stops the consumer: \<^verbatim>\<open>Poll\<close> marks the error as transient, which callers
  must not treat as fatal, but \<^verbatim>\<open>RunOnce\<close> returns every error of \<^verbatim>\<open>Poll\<close> without asking, and \<^verbatim>\<open>Run\<close> ends
  with it unless it is a cancellation; nothing is booked or committed.
\<close>

theorem begin_failure_stops_run:
  assumes "\<not> inTxn b" "sessBegin g (sess b) = (Some e, s)" "TCanceled \<notin> set e"
  shows "cons_Run (txnOps g ctxDone) x cx c (turn # turns) d b k = (Some (ErrPoll (ErrTransient e)), d, b\<lparr>sess := s\<rparr>, k) \<and>
    IsTransient (ErrTransient e)"
proof -
  obtain ids ws where turn: "turn = (ids, ws)" by force
  have "poll (txnOps g ctxDone) b (nat (oBatch (copts c))) = (Inl (ErrTransient e), b\<lparr>sess := s\<rparr>)"
    using assms by (simp add: txnOps_def TxnPoll_def)
  then have "RunOnce (txnOps g ctxDone) x cx c ids ws d b k =
      ((noStats, Some (ErrPoll (ErrTransient e))), d, b\<lparr>sess := s\<rparr>, k)" by (simp add: RunOnce_def)
  then show ?thesis
    using assms(3) by (simp add: turn isCanceled_def isClosed_def brokerCanceled_def IsTransient_def)
qed

theorem begin_failure_stops_run_witness:
  "fst (cons_Run (txnOps (memKgo\<lparr>sessBegin := (\<lambda>k. (Some [TNet], k))\<rparr>) False) consExt sampleCext (sampleConsumer Transactional)
     sampleTurns sampleDB memSession \<lparr>movements = [], consumerLag = None\<rparr>) = Some (ErrPoll (ErrTransient [TNet]))"
proof -
  have "\<not> inTxn memSession" "sessBegin (memKgo\<lparr>sessBegin := (\<lambda>k. (Some [TNet], k))\<rparr>) (sess memSession) = (Some [TNet], sess memSession)"
    "TCanceled \<notin> set [TNet]" by (simp_all add: memSession_def)
  note run = begin_failure_stops_run [OF this, THEN conjunct1]
  show ?thesis by (simp only: run fst_conv)
qed

end
