(* ===== verification/Floats.thy ===== *)
theory Floats
  imports Complex_Main Prelude "HOL-Library.Log_Nat"
begin

text \<open>
  Go's \<^verbatim>\<open>float64\<close>: the rationals with 53 significant binary digits, and every operation rounded to the
  nearest of them, ties to even. The exponent is not bounded, so there are no infinities and no
  subnormal numbers; the values of the program are products and quotients of \<^verbatim>\<open>int64\<close> values and stay
  far from either. The conversion to \<^verbatim>\<open>int64\<close> truncates; out of range it gives what amd64 gives.
\<close>

named_theorems float_simps \<open>rounding of exactly representable values\<close>

section \<open>Rounding to the nearest integer, ties to even\<close>

definition rne :: "rat \<Rightarrow> int" where
  "rne x = (let n = \<lfloor>x\<rfloor>; d = x - of_int n in if d < 1 / 2 \<or> d = 1 / 2 \<and> even n then n else n + 1)"

lemma rne_of_int [simp, float_simps]: "rne (of_int n) = n"
  by (simp add: rne_def Let_def)

lemma rne_bounds: "\<lfloor>x\<rfloor> \<le> rne x" "rne x \<le> \<lfloor>x\<rfloor> + 1"
  by (simp_all add: rne_def Let_def)

lemma rne_mono:
  assumes "x \<le> y"
  shows "rne x \<le> rne y"
proof (cases "\<lfloor>x\<rfloor> = \<lfloor>y\<rfloor>")
  case True
  with assms show ?thesis by (auto simp: rne_def Let_def)
next
  case False
  with assms floor_mono [OF assms] have "\<lfloor>x\<rfloor> + 1 \<le> \<lfloor>y\<rfloor>" by simp
  with rne_bounds [of x] rne_bounds [of y] show ?thesis by linarith
qed

section \<open>The binary exponent\<close>

definition expo :: "rat \<Rightarrow> int" where
  "expo x = (let (p, q) = quotient_of x;
                 e = int (floorlog 2 (nat p)) - int (floorlog 2 (nat q)) in
     if x < 2 powi e then e - 1 else e)"

lemma floorlog_powi:
  assumes "0 < n"
  shows "2 powi (int (floorlog 2 n) - 1) \<le> (of_nat n :: rat)" "(of_nat n :: rat) < 2 powi int (floorlog 2 n)"
proof -
  have f: "0 < floorlog 2 n" using assms by (simp add: floorlog_def)
  have "2 ^ (floorlog 2 n - 1) \<le> n" "n < 2 ^ floorlog 2 n" using floorlog_bounds [of n 2] assms by simp_all
  then have "(of_nat (2 ^ (floorlog 2 n - 1)) :: rat) \<le> of_nat n" "(of_nat n :: rat) < of_nat (2 ^ floorlog 2 n)"
    by (simp_all only: of_nat_le_iff of_nat_less_iff)
  moreover have "2 powi (int (floorlog 2 n) - 1) = (2 :: rat) ^ (floorlog 2 n - 1)"
    using f by (simp add: power_int_def nat_diff_distrib)
  ultimately show "2 powi (int (floorlog 2 n) - 1) \<le> (of_nat n :: rat)" "(of_nat n :: rat) < 2 powi int (floorlog 2 n)"
    by simp_all
qed

lemma powi_add: "(2 :: rat) powi a * 2 powi b = 2 powi (a + b)"
  by (simp add: power_int_add)

lemma powi_mono: "a \<le> b \<Longrightarrow> (2 :: rat) powi a \<le> 2 powi b"
  by (rule power_int_increasing) simp_all

lemma powi_less_exp: "(2 :: rat) powi a < 2 powi b \<Longrightarrow> a < b"
  using powi_mono [of b a] by linarith

lemma expo_bounds:
  assumes "0 < x"
  shows "2 powi expo x \<le> x" "x < 2 powi (expo x + 1)"
proof -
  obtain p q where pq: "quotient_of x = (p, q)" by force
  have q: "0 < q" using quotient_of_denom_pos [OF pq] .
  have x: "x = of_int p / of_int q" using quotient_of_div [OF pq] .
  with assms q have p: "0 < p" by (simp add: zero_less_divide_iff)
  define fp fq where f: "fp = int (floorlog 2 (nat p))" "fq = int (floorlog 2 (nat q))"
  have P: "2 powi (fp - 1) \<le> (of_int p :: rat)" "(of_int p :: rat) < 2 powi fp"
    using floorlog_powi [of "nat p"] p by (simp_all add: f)
  have Q: "2 powi (fq - 1) \<le> (of_int q :: rat)" "(of_int q :: rat) < 2 powi fq"
    using floorlog_powi [of "nat q"] q by (simp_all add: f)
  have "2 powi (fp - fq - 1) * of_int q \<le> 2 powi (fp - fq - 1) * (2 powi fq :: rat)"
    using Q(2) by (intro mult_left_mono) simp_all
  also have "\<dots> = 2 powi (fp - 1)" by (simp add: powi_add)
  also have "\<dots> \<le> of_int p" by (rule P(1))
  finally have lo: "2 powi (fp - fq - 1) \<le> x" using q by (simp add: x field_simps)
  have "of_int p < (2 :: rat) powi fp" by (rule P(2))
  also have "\<dots> = 2 powi (fp - fq + 1) * 2 powi (fq - 1)" by (simp add: powi_add)
  also have "\<dots> \<le> 2 powi (fp - fq + 1) * of_int q" using Q(1) by (intro mult_left_mono) simp_all
  finally have hi: "x < 2 powi (fp - fq + 1)" using q by (simp add: x field_simps)
  show "2 powi expo x \<le> x" "x < 2 powi (expo x + 1)"
    using lo hi by (auto simp: expo_def pq Let_def simp flip: f)
qed

lemma expo_unique:
  assumes "0 < x" "2 powi e \<le> x" "x < 2 powi (e + 1)"
  shows "expo x = e"
proof -
  have "(2 :: rat) powi expo x < 2 powi (e + 1)" "(2 :: rat) powi e < 2 powi (expo x + 1)"
    using expo_bounds [OF assms(1)] assms by (meson le_less_trans)+
  then have "expo x < e + 1" "e < expo x + 1" by (auto dest: powi_less_exp)
  then show ?thesis by simp
qed

lemma expo_mono:
  assumes "0 < x" "x \<le> y"
  shows "expo x \<le> expo y"
proof -
  have "(2 :: rat) powi expo x < 2 powi (expo y + 1)"
    using expo_bounds(1) [OF assms(1)] expo_bounds(2) [of y] assms by simp
  then show ?thesis by (auto dest: powi_less_exp)
qed

section \<open>Rounding to 53 bits\<close>

definition f64pos :: "rat \<Rightarrow> rat" where
  "f64pos x = (let u = 2 powi (expo x - 52) in of_int (rne (x / u)) * u)"

definition f64 :: "rat \<Rightarrow> rat" where
  "f64 x = (if x = 0 then 0 else if x < 0 then - f64pos (- x) else f64pos x)"

definition fdiv :: "rat \<Rightarrow> rat \<Rightarrow> rat" where
  "fdiv x y = f64 (x / y)"

definition fmul :: "rat \<Rightarrow> rat \<Rightarrow> rat" where
  "fmul x y = f64 (x * y)"

definition fadd :: "rat \<Rightarrow> rat \<Rightarrow> rat" where
  "fadd x y = f64 (x + y)"

definition fromInt64 :: "int \<Rightarrow> rat" where
  "fromInt64 n = f64 (of_int n)"

definition toInt64 :: "rat \<Rightarrow> int" where
  "toInt64 x = (let n = (if x < 0 then - \<lfloor>- x\<rfloor> else \<lfloor>x\<rfloor>) in if in64 n then n else MinInt64)"

lemma f64pos_binade:
  assumes "0 < x"
  shows "2 powi expo x \<le> f64pos x" "f64pos x \<le> 2 powi (expo x + 1)"
proof -
  define u where u: "u = (2 :: rat) powi (expo x - 52)"
  have pos: "0 < u" by (simp add: u)
  have "of_int (2 ^ 52) * u = 2 powi expo x" "of_int (2 ^ 53) * u = 2 powi (expo x + 1)"
    using powi_add [of 52 "expo x - 52"] powi_add [of 53 "expo x - 52"] by (simp_all add: u add.commute)
  with expo_bounds [OF assms] have "of_int (2 ^ 52) \<le> x / u" "x / u \<le> of_int (2 ^ 53)"
    using pos by (simp_all add: pos_le_divide_eq pos_divide_le_eq)
  then have "2 ^ 52 \<le> rne (x / u)" "rne (x / u) \<le> 2 ^ 53" using rne_mono rne_of_int by metis+
  then have "of_int (2 ^ 52) * u \<le> of_int (rne (x / u)) * u" "of_int (rne (x / u)) * u \<le> of_int (2 ^ 53) * u"
    using pos by (simp_all only: of_int_le_iff mult_le_cancel_right_pos)
  with \<open>of_int (2 ^ 52) * u = 2 powi expo x\<close> \<open>of_int (2 ^ 53) * u = 2 powi (expo x + 1)\<close>
  show "2 powi expo x \<le> f64pos x" "f64pos x \<le> 2 powi (expo x + 1)"
    by (simp_all only: f64pos_def Let_def u)
qed

lemma f64pos_pos: "0 < x \<Longrightarrow> 0 < f64pos x"
  using f64pos_binade(1) [of x] zero_less_power_int [of "2 :: rat" "expo x"] by linarith

lemma f64pos_mono:
  assumes "0 < x" "x \<le> y"
  shows "f64pos x \<le> f64pos y"
proof (cases "expo x = expo y")
  case True
  have "x / 2 powi (expo x - 52) \<le> y / 2 powi (expo x - 52)" using assms(2) by (simp add: divide_right_mono)
  from rne_mono [OF this] show ?thesis by (simp add: f64pos_def Let_def True mult_right_mono)
next
  case False
  with expo_mono [OF assms] have "(2 :: rat) powi (expo x + 1) \<le> 2 powi expo y" by (intro powi_mono) simp
  with f64pos_binade(2) [OF assms(1)] f64pos_binade(1) [of y] assms show ?thesis by linarith
qed

lemma f64_mono:
  assumes "x \<le> y"
  shows "f64 x \<le> f64 y"
proof -
  consider "0 < x" | "x \<le> 0" "0 < y" | "y \<le> 0" using assms by linarith
  then show ?thesis
  proof cases
    case 1
    with assms show ?thesis by (simp add: f64_def f64pos_mono)
  next
    case 2
    with f64pos_pos [of y] f64pos_pos [of "- x"] show ?thesis by (auto simp: f64_def)
  next
    case 3
    with assms f64pos_mono [of "- y" "- x"] f64pos_pos [of "- x"] show ?thesis by (auto simp: f64_def)
  qed
qed

lemma f64_0 [simp, float_simps]: "f64 0 = 0"
  by (simp add: f64_def)

text \<open>A value with at most 53 significant bits is not changed.\<close>

lemma f64pos_exact:
  assumes "0 < m" "m \<le> 2 ^ 53"
  shows "f64pos (of_int m * 2 powi k) = of_int m * 2 powi k"
proof -
  let ?x = "of_int m * (2 :: rat) powi k"
  have pos: "0 < ?x" using assms(1) by simp
  have "\<exists>n. ?x / 2 powi (expo ?x - 52) = of_int n"
  proof (cases "m = 2 ^ 53")
    case True
    then have x: "?x = 2 powi (k + 53)" using powi_add [of 53 k] by (simp add: add.commute)
    have "expo ?x = k + 53" unfolding x by (rule expo_unique) (simp_all add: power_int_strict_increasing)
    then have "?x / 2 powi (expo ?x - 52) = of_int (2 ^ 52)"
      unfolding x using powi_add [of 52 "k + 1"] by (simp add: field_simps)
    then show ?thesis by blast
  next
    case False
    have "?x < 2 powi (k + 53)"
    proof -
      have "(of_int m :: rat) < of_int (2 ^ 53)" using assms(2) False by (simp only: of_int_less_iff)
      then have "?x < of_int (2 ^ 53) * 2 powi k" by (intro mult_strict_right_mono) simp_all
      also have "of_int (2 ^ 53) * (2 :: rat) powi k = 2 powi (k + 53)" using powi_add [of 53 k] by (simp add: add.commute)
      finally show ?thesis .
    qed
    with expo_bounds(1) [OF pos] have "expo ?x < k + 53" by (intro powi_less_exp) simp
    then have "0 \<le> k - (expo ?x - 52)" by simp
    then obtain j where j: "k - (expo ?x - 52) = int j" using zero_le_imp_eq_int by blast
    have "?x / 2 powi (expo ?x - 52) = of_int m * 2 powi (k - (expo ?x - 52))"
      by (simp add: power_int_diff)
    also have "\<dots> = of_int (m * 2 ^ j)" unfolding j by simp
    finally show ?thesis by blast
  qed
  then obtain n where n: "?x / 2 powi (expo ?x - 52) = of_int n" by blast
  then have "of_int n * 2 powi (expo ?x - 52) = ?x" by (simp add: field_simps)
  then show ?thesis by (simp add: f64pos_def Let_def n)
qed

lemma f64_int [float_simps]:
  assumes "\<bar>n\<bar> \<le> 2 ^ 53"
  shows "f64 (of_int n) = of_int n"
proof -
  have "f64pos (of_int m) = of_int m" if "0 < m" "m \<le> 2 ^ 53" for m
    using f64pos_exact [OF that, of 0] by simp
  from this [of n] this [of "- n"] assms show ?thesis by (auto simp: f64_def)
qed

lemma fromInt64_exact [float_simps]: "\<bar>n\<bar> \<le> 2 ^ 53 \<Longrightarrow> fromInt64 n = of_int n"
  by (simp add: fromInt64_def f64_int)

lemma fromInt64_mono: "a \<le> b \<Longrightarrow> fromInt64 a \<le> fromInt64 b"
  unfolding fromInt64_def by (rule f64_mono) simp

lemma f64_nonneg: "0 \<le> x \<Longrightarrow> 0 \<le> f64 x"
  using f64_mono [of 0 x] by simp

lemma fmul_mono: "0 \<le> z \<Longrightarrow> x \<le> y \<Longrightarrow> fmul x z \<le> fmul y z"
  unfolding fmul_def by (rule f64_mono) (rule mult_right_mono)

lemma toInt64_mono:
  assumes "0 \<le> x" "x \<le> y" "in64 \<lfloor>y\<rfloor>"
  shows "toInt64 x \<le> toInt64 y"
proof -
  have "0 \<le> \<lfloor>x\<rfloor>" "\<lfloor>x\<rfloor> \<le> \<lfloor>y\<rfloor>" using assms by (simp_all add: floor_mono)
  then show ?thesis using assms by (simp add: toInt64_def in64_iff)
qed

lemma toInt64_int [float_simps]: "in64 n \<Longrightarrow> toInt64 (of_int n) = n"
  by (simp add: toInt64_def flip: of_int_minus)

lemma toInt64_floor: "0 \<le> x \<Longrightarrow> in64 \<lfloor>x\<rfloor> \<Longrightarrow> toInt64 x = \<lfloor>x\<rfloor>"
  by (simp add: toInt64_def)

end
