(* ===== verification/Textformat.thy ===== *)
theory Textformat
  imports Dateformat
begin

text \<open>
  The verbs of \<^verbatim>\<open>fmt.Sprintf\<close> the harness uses: \<^verbatim>\<open>%d\<close> and, for names without characters that need
  escaping, \<^verbatim>\<open>%q\<close>; the decimal digits of a number determine it, and hold no separator.
\<close>

definition show_d :: "int \<Rightarrow> string" where
  "show_d n = (if n < 0 then ''-'' else []) @ decimal (nat \<bar>n\<bar>)"

definition show_q :: "string \<Rightarrow> string" where
  "show_q s = CHR 0x22 # s @ [CHR 0x22]"

lemma decimal_digits: "list_all isDigit (decimal n)"
proof (induction n rule: decimal.induct)
  case (1 n)
  then show ?case by (cases "n < 10") (simp_all add: decimal_1 decimal_step)
qed

lemma decimal_nonempty [simp]: "decimal n \<noteq> []"
  by (cases "n < 10") (simp_all add: decimal_1 decimal_step)

lemma numval_decimal [simp]: "numval (decimal n) = int n"
proof (induction n rule: decimal.induct)
  case (1 n)
  show ?case
  proof (cases "n < 10")
    case True
    then show ?thesis by (simp add: decimal_1 numval_def)
  next
    case False
    with 1 have "numval (decimal n) = 10 * int (n div 10) + int (n mod 10)"
      by (simp add: decimal_step numval_snoc)
    then show ?thesis by presburger
  qed
qed

lemma digit_chars: "isDigit c \<Longrightarrow> c \<noteq> CHR ''-'' \<and> c \<noteq> CHR ''|''"
  by (auto simp: isDigit_def)

lemma decimal_chars: "CHR ''-'' \<notin> set (decimal n)" "CHR ''|'' \<notin> set (decimal n)"
  using decimal_digits [of n] digit_chars by (auto simp: list_all_iff)

lemma show_d_inj: "show_d a = show_d b \<Longrightarrow> a = b"
proof -
  assume eq: "show_d a = show_d b"
  have hd: "hd (decimal n) \<noteq> CHR ''-''" for n 
    by (metis decimal_chars(1) decimal_nonempty hd_in_set)
  have sign: "hd (show_d n) = CHR ''-'' \<longleftrightarrow> n < 0" for n using hd by (auto simp: show_d_def)
  have "a < 0 \<longleftrightarrow> b < 0" using sign [of a] sign [of b] eq by simp
  with eq have "decimal (nat \<bar>a\<bar>) = decimal (nat \<bar>b\<bar>)" by (simp add: show_d_def split: if_splits)
  then have "nat \<bar>a\<bar> = nat \<bar>b\<bar>" by (metis numval_decimal of_nat_eq_iff)
  with \<open>a < 0 \<longleftrightarrow> b < 0\<close> show "a = b" by linarith
qed

lemma show_d_chars: "CHR ''|'' \<notin> set (show_d n)"
  using decimal_chars(2) by (auto simp: show_d_def)

text \<open>A field that holds no separator is read back from before it.\<close>

lemma separator_inj:
  assumes "a @ c # x = b @ c # y" "c \<notin> set a" "c \<notin> set b"
  shows "a = b \<and> x = y"
  using assms
proof (induction a arbitrary: b)
  case Nil
  then show ?case by (cases b) auto
next
  case (Cons u a)
  then show ?case by (cases b) auto
qed

fun joined :: "char \<Rightarrow> string list \<Rightarrow> string" where
  "joined c [] = []"
| "joined c [f] = f"
| "joined c (f # g # fs) = f @ c # joined c (g # fs)"

lemma joined_inj:
  assumes "joined c fs = joined c gs" "length fs = length gs" "\<forall>f \<in> set (butlast fs @ butlast gs). c \<notin> set f"
  shows "fs = gs"
  using assms
proof (induction c fs arbitrary: gs rule: joined.induct)
  case (2 c f)
  then show ?case by (cases gs) auto
next
  case (3 c f g fs)
  from 3(3) obtain h k hs where gs: "gs = h # k # hs" by (cases gs; cases "tl gs") auto
  have "c \<notin> set f" "c \<notin> set h" using 3(4) by (auto simp: gs)
  with separator_inj [of f c "joined c (g # fs)" h "joined c (k # hs)"] 3(2)
  have "f = h" "joined c (g # fs) = joined c (k # hs)" by (auto simp: gs)
  with 3 show ?case by (simp add: gs)
qed simp

end
