(* ===== verification/Chaos.thy ===== *)
theory Chaos
  imports Bizdate Floats "HOL-Library.AList"
begin

text \<open>
  The package \<^verbatim>\<open>internal/harness/chaos\<close>: schedules of broker kills and restarts, their validation and
  scaling, the runner that executes them, and the driver of the docker command line. Time, sleep
  and the control surface are the injected functions of the code, over a state \<open>'w\<close> of the world;
  running a command is a parameter. Durations are nanoseconds.
\<close>

section \<open>Schedules\<close>

type_synonym Action = string

definition Kill :: Action where
  "Kill = ''kill''"

definition Start :: Action where
  "Start = ''start''"

lemma actions_distinct [simp]: "Kill \<noteq> Start" "Start \<noteq> Kill"
  by (simp_all add: Kill_def Start_def)

record Event =
  evAt :: int
  evAction :: Action
  evBroker :: string

definition DefaultSchedule :: "Event list" where
  "DefaultSchedule =
     [\<lparr>evAt = 60000000000, evAction = Kill, evBroker = ''redpanda-1''\<rparr>,
      \<lparr>evAt = 90000000000, evAction = Start, evBroker = ''redpanda-1''\<rparr>,
      \<lparr>evAt = 150000000000, evAction = Kill, evBroker = ''redpanda-2''\<rparr>,
      \<lparr>evAt = 180000000000, evAction = Start, evBroker = ''redpanda-2''\<rparr>]"

datatype chaos_error =
    ErrInterrupted Action string string
  | ErrUnknownAction Action
  | ErrAction string
  | ErrEmptySchedule
  | ErrKilledTwice string
  | ErrNotKilled string
  | ErrQuorum nat
  | ErrNeverRestarted string

section \<open>The runner\<close>

record 'w Docker =
  dKill :: "'w \<Rightarrow> string \<Rightarrow> string option \<times> 'w"
  dStart :: "'w \<Rightarrow> string \<Rightarrow> string option \<times> 'w"

text \<open>An empty \<^verbatim>\<open>Err\<close> is \<open>None\<close>.\<close>

record ChaosRecord =
  rcEvent :: Event
  rcExecuted :: int
  rcErr :: "chaos_error option"

record 'w Runner =
  rnDocker :: "'w Docker"
  rnNow :: "'w \<Rightarrow> int \<times> 'w"
  rnSleep :: "'w \<Rightarrow> int \<Rightarrow> string option \<times> 'w"

definition act :: "'w Docker \<Rightarrow> Event \<Rightarrow> 'w \<Rightarrow> chaos_error option \<times> 'w" where
  "act dk ev w =
     (if evAction ev = Kill then apfst (map_option ErrAction) (dKill dk w (evBroker ev))
      else if evAction ev = Start then apfst (map_option ErrAction) (dStart dk w (evBroker ev))
      else (Some (ErrUnknownAction (evAction ev)), w))"

fun runLoop :: "'w Runner \<Rightarrow> int \<Rightarrow> Event list \<Rightarrow> ChaosRecord list \<Rightarrow> 'w \<Rightarrow>
    (ChaosRecord list \<times> chaos_error option) \<times> 'w" where
  "runLoop r start [] out w = ((out, None), w)"
| "runLoop r start (ev # evs) out w =
     (let (t1, w1) = rnNow r w;
          wait = sub64 (evAt ev) (time_Sub t1 start);
          (interrupted, w2) = (if wait > 0 then rnSleep r w1 wait else (None, w1)) in
      case interrupted of
        Some e \<Rightarrow> ((out, Some (ErrInterrupted (evAction ev) (evBroker ev) e)), w2)
      | None \<Rightarrow>
          let (t2, w3) = rnNow r w2;
              (err, w4) = act (rnDocker r) ev w3 in
          runLoop r start evs (out @ [\<lparr>rcEvent = ev, rcExecuted = time_Sub t2 start, rcErr = err\<rparr>]) w4)"

definition chaos_Run :: "'w Runner \<Rightarrow> Event list \<Rightarrow> 'w \<Rightarrow> (ChaosRecord list \<times> chaos_error option) \<times> 'w" where
  "chaos_Run r schedule w =
     (let ordered = sort_key evAt schedule; (start, w1) = rnNow r w in runLoop r start ordered [] w1)"

section \<open>Validation\<close>

text \<open>The map of brokers that were killed, in the order they were first killed.\<close>

fun validateLoop :: "(string \<times> bool) list \<Rightarrow> Event list \<Rightarrow> chaos_error + (string \<times> bool) list" where
  "validateLoop down [] = Inr down"
| "validateLoop down (ev # evs) =
     (let isDown = (map_of down (evBroker ev) = Some True);
          next = (if evAction ev = Kill
                  then if isDown then Inl (ErrKilledTwice (evBroker ev)) else Inr (AList.update (evBroker ev) True down)
                  else if evAction ev = Start
                  then if \<not> isDown then Inl (ErrNotKilled (evBroker ev)) else Inr (AList.update (evBroker ev) False down)
                  else Inl (ErrUnknownAction (evAction ev))) in
      case next of
        Inl e \<Rightarrow> Inl e
      | Inr down' \<Rightarrow>
          let n = length (filter snd down') in
          if n > 1 then Inl (ErrQuorum n) else validateLoop down' evs)"

definition chaos_Validate :: "Event list \<Rightarrow> chaos_error option" where
  "chaos_Validate schedule =
     (if schedule = [] then Some ErrEmptySchedule
      else case validateLoop [] schedule of
        Inl e \<Rightarrow> Some e
      | Inr down \<Rightarrow> (case filter snd down of [] \<Rightarrow> None | (b, _) # _ \<Rightarrow> Some (ErrNeverRestarted b)))"

section \<open>Scaling\<close>

definition DefaultSpan :: int where
  "DefaultSpan = 240000000000"

definition Scale :: "Event list \<Rightarrow> int \<Rightarrow> Event list" where
  "Scale schedule d =
     (if d \<le> 0 \<or> schedule = [] then schedule
      else let factor = fdiv (fromInt64 d) (fromInt64 DefaultSpan) in
        map (\<lambda>ev. ev\<lparr>evAt := toInt64 (fmul (fromInt64 (evAt ev)) factor)\<rparr>) schedule)"

section \<open>The docker command line\<close>

record CLI =
  Binary :: string
  Timeout :: int

definition NewCLI :: CLI where
  "NewCLI = \<lparr>Binary = ''docker'', Timeout = 30000000000\<rparr>"

text \<open>
  Running a command within a timeout: whether it failed (the text of the error), its standard
  output, and both outputs combined.
\<close>

record command_result =
  cmdErr :: "string option"
  cmdOut :: string
  cmdCombined :: string

type_synonym 'w docker_exec = "'w \<Rightarrow> int \<Rightarrow> string \<Rightarrow> string list \<Rightarrow> command_result \<times> 'w"

text \<open>The ASCII white space of \<^verbatim>\<open>strings.TrimSpace\<close>.\<close>

definition isSpace :: "char \<Rightarrow> bool" where
  "isSpace c \<longleftrightarrow> c \<in> {CHR '' '', CHR 0x09, CHR 0x0A, CHR 0x0B, CHR 0x0C, CHR 0x0D}"

definition TrimSpace :: "string \<Rightarrow> string" where
  "TrimSpace s = rev (dropWhile isSpace (rev (dropWhile isSpace s)))"

definition Available :: "'w docker_exec \<Rightarrow> CLI \<Rightarrow> 'w \<Rightarrow> (bool \<times> string) \<times> 'w" where
  "Available ex c w =
     (let (r, w') = ex w (Timeout c) (Binary c) [''info'', ''--format'', ''{{.ServerVersion}}''] in
      ((cmdErr r = None, TrimSpace (cmdCombined r)), w'))"

definition joinArgs :: "string list \<Rightarrow> string" where
  "joinArgs args = (case args of [] \<Rightarrow> [] | a # as \<Rightarrow> a @ concat (map (\<lambda>b. '' '' @ b) as))"

definition cli_run :: "'w docker_exec \<Rightarrow> CLI \<Rightarrow> string list \<Rightarrow> 'w \<Rightarrow> string option \<times> 'w" where
  "cli_run ex c args w =
     (let (r, w') = ex w (Timeout c) (Binary c) args in
      (case cmdErr r of None \<Rightarrow> None
       | Some e \<Rightarrow> Some (''chaos: docker '' @ joinArgs args @ '': '' @ e @ '': '' @ TrimSpace (cmdCombined r)), w'))"

definition cli_Kill :: "'w docker_exec \<Rightarrow> CLI \<Rightarrow> 'w \<Rightarrow> string \<Rightarrow> string option \<times> 'w" where
  "cli_Kill ex c w container = cli_run ex c [''kill'', container] w"

definition cli_Start :: "'w docker_exec \<Rightarrow> CLI \<Rightarrow> 'w \<Rightarrow> string \<Rightarrow> string option \<times> 'w" where
  "cli_Start ex c w container = cli_run ex c [''start'', container] w"

definition BrokerVersion :: "'w docker_exec \<Rightarrow> CLI \<Rightarrow> string \<Rightarrow> 'w \<Rightarrow> (string + string) \<times> 'w" where
  "BrokerVersion ex c container w =
     (let (r, w') = ex w (Timeout c) (Binary c) [''inspect'', ''--format'', ''{{.Config.Image}}'', container] in
      (case cmdErr r of Some e \<Rightarrow> Inl (''chaos: inspect '' @ container @ '': '' @ e)
       | None \<Rightarrow> Inr (TrimSpace (cmdOut r)), w'))"

definition cliDocker :: "'w docker_exec \<Rightarrow> CLI \<Rightarrow> 'w Docker" where
  "cliDocker ex c = \<lparr>dKill = cli_Kill ex c, dStart = cli_Start ex c\<rparr>"

section \<open>What validation accepts\<close>

definition downset :: "(string \<times> bool) list \<Rightarrow> string set" where
  "downset al = {b. map_of al b = Some True}"

lemma downset_filter:
  assumes "distinct (map fst al)"
  shows "downset al = fst ` set (filter snd al)" "length (filter snd al) = card (downset al)"
proof -
  show eq: "downset al = fst ` set (filter snd al)"
    using assms by (force simp: downset_def)
  have "distinct (map fst (filter snd al))" using assms by (rule distinct_map_filter)
  then have "card (set (map fst (filter snd al))) = length (map fst (filter snd al))" by (rule distinct_card)
  then show "length (filter snd al) = card (downset al)" by (simp add: eq)
qed

lemma downset_update: "downset (AList.update b v al) = (if v then insert b (downset al) else downset al - {b})"
  by (auto simp: downset_def update_conv)

text \<open>A broker is killed, then that broker is started, then the next one is killed.\<close>

fun paired :: "string option \<Rightarrow> Event list \<Rightarrow> bool" where
  "paired None [] \<longleftrightarrow> True"
| "paired (Some b) [] \<longleftrightarrow> False"
| "paired None (ev # evs) \<longleftrightarrow> evAction ev = Kill \<and> paired (Some (evBroker ev)) evs"
| "paired (Some b) (ev # evs) \<longleftrightarrow> evAction ev = Start \<and> evBroker ev = b \<and> paired None evs"

lemma validateLoop_paired:
  assumes "distinct (map fst al)" "downset al = set_option up"
  shows "(\<exists>al'. validateLoop al evs = Inr al' \<and> filter snd al' = []) \<longleftrightarrow> paired up evs"
  using assms
proof (induction evs arbitrary: al up)
  case Nil
  then have "filter snd al = [] \<longleftrightarrow> card (set_option up) = 0"
    using downset_filter(2) [OF Nil(1)] by (metis length_0_conv)
  then show ?case by (cases up) simp_all
next
  case (Cons ev evs)
  let ?b = "evBroker ev"
  have isDown: "map_of al ?b = Some True \<longleftrightarrow> ?b \<in> set_option up" using Cons.prems(2) by (auto simp: downset_def)
  have dist: "distinct (map fst (AList.update ?b v al))" for v using Cons.prems(1) by (simp add: distinct_update)
  note cnt = downset_filter(2) [OF dist, unfolded downset_update]
  show ?case
  proof (cases up)
    case None
    have "(\<exists>al'. validateLoop (AList.update ?b True al) evs = Inr al' \<and> filter snd al' = []) \<longleftrightarrow> paired (Some ?b) evs"
      using Cons.prems(2) None by (intro Cons.IH dist) (simp add: downset_update)
    then show ?thesis using isDown cnt [of True] Cons.prems(2) None by (auto simp: Let_def)
  next
    case (Some a)
    show ?thesis
    proof (cases "evAction ev = Start \<and> ?b = a")
      case True
      have "(\<exists>al'. validateLoop (AList.update ?b False al) evs = Inr al' \<and> filter snd al' = []) \<longleftrightarrow> paired None evs"
        using Cons.prems(2) Some True by (intro Cons.IH dist) (simp add: downset_update)
      then show ?thesis using isDown cnt [of False] Cons.prems(2) Some True by (auto simp: Let_def)
    next
      case False
      then show ?thesis using isDown cnt [of True] Cons.prems(2) Some by (auto simp: Let_def)
    qed
  qed
qed

lemma paired_pairs:
  "paired None s \<longleftrightarrow> (\<exists>bs. map (\<lambda>e. (evAction e, evBroker e)) s = concat (map (\<lambda>b. [(Kill, b), (Start, b)]) bs))"
proof (induction s rule: induct_list012)
  case (2 e)
  have "map (\<lambda>e. (evAction e, evBroker e)) [e] \<noteq> concat (map (\<lambda>b. [(Kill, b), (Start, b)]) bs)" for bs
    by (cases bs) simp_all
  then show ?case by auto
next
  case (3 e f s)
  show ?case (is "?L \<longleftrightarrow> ?R")
  proof
    assume ?L
    then have "paired None s" "evAction e = Kill" "evAction f = Start" "evBroker f = evBroker e" by auto
    with 3 show ?R by (auto intro: exI [of _ "evBroker e # bs" for bs])
  next
    assume ?R
    then obtain bs where bs: "map (\<lambda>e. (evAction e, evBroker e)) (e # f # s) = concat (map (\<lambda>b. [(Kill, b), (Start, b)]) bs)" by blast
    then obtain b cs where "bs = b # cs" by (cases bs) simp_all
    with bs 3 show ?L by auto
  qed
qed (simp add: exI [of _ "[]"])

lemma Validate_paired: "chaos_Validate s = None \<longleftrightarrow> s \<noteq> [] \<and> paired None s"
proof -
  have "downset [] = set_option None" by (simp add: downset_def)
  from validateLoop_paired [of "[]", OF _ this, of s] show ?thesis
    by (auto simp: chaos_Validate_def split: sum.split list.split)
qed

section \<open>What the runner executes\<close>

text \<open>
  A clock that does not go back and a sleep that takes at least as long as it was asked to: \<open>time\<close> is
  the time of a state of the world.
\<close>

definition steady :: "'w Runner \<Rightarrow> ('w \<Rightarrow> int) \<Rightarrow> bool" where
  "steady r time \<longleftrightarrow> (\<forall>w. 0 \<le> time w \<and> time w \<le> MaxInt64) \<and>
     (\<forall>w t w'. rnNow r w = (t, w') \<longrightarrow> time w \<le> t \<and> t \<le> time w') \<and>
     (\<forall>w d w' e. rnSleep r w d = (e, w') \<longrightarrow> time w \<le> time w' \<and> (e = None \<longrightarrow> time w + d \<le> time w')) \<and>
     (\<forall>ev w w' e. act (rnDocker r) ev w = (e, w') \<longrightarrow> time w \<le> time w')"

lemma runLoop_step:
  assumes "runLoop r start (ev # evs) out w = ((res, e), w')"
  obtains (interrupted) w1 err t1 where "rnNow r w = (t1, w1)" "rnSleep r w1 (sub64 (evAt ev) (time_Sub t1 start)) = (Some err, w')"
      "res = out" "e = Some (ErrInterrupted (evAction ev) (evBroker ev) err)"
  | (executed) t1 w1 w2 t2 w3 err w4 where "rnNow r w = (t1, w1)"
      "sub64 (evAt ev) (time_Sub t1 start) > 0 \<longrightarrow> rnSleep r w1 (sub64 (evAt ev) (time_Sub t1 start)) = (None, w2)"
      "sub64 (evAt ev) (time_Sub t1 start) \<le> 0 \<longrightarrow> w2 = w1"
      "rnNow r w2 = (t2, w3)" "act (rnDocker r) ev w3 = (err, w4)"
      "runLoop r start evs (out @ [\<lparr>rcEvent = ev, rcExecuted = time_Sub t2 start, rcErr = err\<rparr>]) w4 = ((res, e), w')"
proof -
  obtain t1 w1 where n: "rnNow r w = (t1, w1)" by force
  let ?wait = "sub64 (evAt ev) (time_Sub t1 start)"
  obtain i w2 where s: "(if ?wait > 0 then rnSleep r w1 ?wait else (None, w1)) = (i, w2)" by force
  note A = assms [unfolded runLoop.simps n Let_def prod.case s]
  show thesis
  proof (cases i)
    case (Some err)
    with s have "rnSleep r w1 ?wait = (Some err, w2)" by (auto split: if_splits)
    with A Some interrupted [OF n] show thesis by simp
  next
    case None
    obtain t2 w3 where n2: "rnNow r w2 = (t2, w3)" by force
    obtain err w4 where a: "act (rnDocker r) ev w3 = (err, w4)" by force
    have "?wait > 0 \<longrightarrow> rnSleep r w1 ?wait = (None, w2)" "?wait \<le> 0 \<longrightarrow> w2 = w1" using s None by auto
    from executed [OF n this n2 a] A None n2 a show thesis by simp
  qed
qed

lemma runLoop_events:
  "runLoop r start evs out w = ((res, e), w') \<Longrightarrow> \<exists>n \<le> length evs.
     map rcEvent res = map rcEvent out @ take n evs \<and> (e = None \<longleftrightarrow> n = length evs)"
proof (induction evs arbitrary: out w)
  case (Cons ev evs)
  from Cons.prems show ?case
  proof (cases rule: runLoop_step)
    case interrupted
    then show ?thesis by (intro exI [of _ 0]) simp
  next
    case (executed t1 w1 w2 t2 w3 err w4)
    from Cons.IH [OF executed(6)] obtain n where "n \<le> length evs"
      "map rcEvent res = map rcEvent out @ [ev] @ take n evs" "e = None \<longleftrightarrow> n = length evs" by auto
    then show ?thesis by (intro exI [of _ "Suc n"]) simp
  qed
qed simp

lemma runLoop_times:
  assumes "steady r time"
  shows "runLoop r start evs out w = ((res, e), w') \<Longrightarrow> 0 \<le> start \<Longrightarrow> start \<le> time w \<Longrightarrow>
    \<forall>ev \<in> set evs. 0 \<le> evAt ev \<and> evAt ev \<le> MaxInt64 \<Longrightarrow> \<forall>rc \<in> set out. evAt (rcEvent rc) \<le> rcExecuted rc \<Longrightarrow>
    \<forall>rc \<in> set res. evAt (rcEvent rc) \<le> rcExecuted rc"
proof (induction evs arbitrary: out w)
  case (Cons ev evs)
  have range: "0 \<le> time v" "time v \<le> MaxInt64" for v using assms by (auto simp: steady_def)
  have now: "rnNow r u = (t, v) \<Longrightarrow> time u \<le> t \<and> t \<le> time v" for u t v using assms by (simp add: steady_def)
  have slept: "rnSleep r u d = (None, v) \<Longrightarrow> time u + d \<le> time v" for u d v using assms by (simp add: steady_def)
  have acted: "act (rnDocker r) ev u = (err, v) \<Longrightarrow> time u \<le> time v" for u err v
    using assms unfolding steady_def by blast
  from Cons.prems(1) show ?case
  proof (cases rule: runLoop_step)
    case interrupted
    with Cons.prems(5) show ?thesis by simp
  next
    case (executed t1 w1 w2 t2 w3 err w4)
    have t1: "start \<le> t1" "t1 \<le> time w1" "t1 \<le> MaxInt64"
      using now [OF executed(1)] Cons.prems(3) range [of w1] by auto
    then have el: "time_Sub t1 start = t1 - start" using Cons.prems(2) by (auto simp: time_Sub_def in64_iff MaxInt64_def)
    have at: "0 \<le> evAt ev" "evAt ev \<le> MaxInt64" using Cons.prems(4) by auto
    have wait: "sub64 (evAt ev) (t1 - start) = evAt ev - (t1 - start)"
      using t1 at Cons.prems(2) by (intro sub64_exact) (auto simp: in64_iff MaxInt64_def)
    have w2: "start + evAt ev \<le> time w2"
    proof (cases "0 < evAt ev - (t1 - start)")
      case True
      with executed(2) slept [of w1 "evAt ev - (t1 - start)" w2] t1 show ?thesis unfolding el wait by simp
    next
      case False
      with executed(3) t1 show ?thesis unfolding el wait by simp
    qed
    have t2: "time w2 \<le> t2" "t2 \<le> time w3" "t2 \<le> MaxInt64" using now [OF executed(4)] range [of w3] by auto
    then have "evAt ev \<le> time_Sub t2 start"
      using w2 at Cons.prems(2) by (auto simp: time_Sub_def in64_iff MaxInt64_def)
    moreover have "start \<le> time w4" using acted [OF executed(5)] t2 w2 at by auto
    ultimately show ?thesis using Cons.IH [OF executed(6) Cons.prems(2)] Cons.prems(4,5) by auto
  qed
qed simp

section \<open>Scaling keeps the shape\<close>

lemma Scale_shape:
  "map (\<lambda>e. (evAction e, evBroker e)) (Scale s d) = map (\<lambda>e. (evAction e, evBroker e)) s"
  by (simp add: Scale_def Let_def)

lemma Validate_shape:
  assumes "map (\<lambda>e. (evAction e, evBroker e)) s = map (\<lambda>e. (evAction e, evBroker e)) s'"
  shows "chaos_Validate s = None \<longleftrightarrow> chaos_Validate s' = None"
  using assms map_is_Nil_conv by (metis (no_types, lifting) Validate_paired paired_pairs)

definition scaleFactor :: "int \<Rightarrow> rat" where
  "scaleFactor d = fdiv (fromInt64 d) (fromInt64 DefaultSpan)"

lemma scaleFactor_nonneg: "0 \<le> d \<Longrightarrow> 0 \<le> scaleFactor d"
  using fromInt64_mono [of 0 d] fromInt64_mono [of 0 DefaultSpan]
  by (simp add: scaleFactor_def fdiv_def f64_nonneg DefaultSpan_def fromInt64_def)

lemma Scale_mono:
  assumes "0 \<le> a" "a \<le> b" "0 \<le> d" "in64 \<lfloor>fmul (fromInt64 b) (scaleFactor d)\<rfloor>"
  shows "toInt64 (fmul (fromInt64 a) (scaleFactor d)) \<le> toInt64 (fmul (fromInt64 b) (scaleFactor d))"
proof -
  have "0 \<le> fromInt64 a" using fromInt64_mono [OF assms(1)] by (simp add: fromInt64_def)
  then have "0 \<le> fmul (fromInt64 a) (scaleFactor d)"
    using scaleFactor_nonneg [OF assms(3)] by (simp add: fmul_def f64_nonneg)
  then show ?thesis
    using assms(4) fmul_mono [OF scaleFactor_nonneg [OF assms(3)] fromInt64_mono [OF assms(2)]] by (intro toInt64_mono)
qed

lemma Scale_sorted:
  assumes "sorted (map evAt s)" "\<forall>ev \<in> set s. 0 \<le> evAt ev \<and> in64 \<lfloor>fmul (fromInt64 (evAt ev)) (scaleFactor d)\<rfloor>"
  shows "sorted (map evAt (Scale s d))"
proof (cases "d \<le> 0 \<or> s = []")
  case True
  with assms(1) show ?thesis by (simp add: Scale_def)
next
  case False
  have "sorted_wrt (\<lambda>a b. toInt64 (fmul (fromInt64 (evAt a)) (scaleFactor d)) \<le> toInt64 (fmul (fromInt64 (evAt b)) (scaleFactor d))) s"
    using assms False by (auto simp: sorted_map intro!: Scale_mono elim!: sorted_wrt_mono_rel [rotated])
  with False show ?thesis by (auto simp: Scale_def scaleFactor_def Let_def sorted_wrt_map sorted_map)
qed

section \<open>Properties\<close>

text \<open>
  C25. \<^verbatim>\<open>Validate\<close> accepts exactly the schedules that kill a broker, start that broker, kill the next one,
  and so on: no two brokers are ever down at once, none is started that was not killed, and none is
  left down.
\<close>

theorem Validate_exact_schedules:
  "chaos_Validate s = None \<longleftrightarrow> s \<noteq> [] \<and>
     (\<exists>bs. map (\<lambda>e. (evAction e, evBroker e)) s = concat (map (\<lambda>b. [(Kill, b), (Start, b)]) bs))"
  using Validate_paired paired_pairs by blast


definition virtualRunner :: "nat Runner" where
  "virtualRunner = \<lparr>rnDocker = \<lparr>dKill = (\<lambda>w c. (None, w)), dStart = (\<lambda>w c. (Some ''no such container'', w))\<rparr>,
     rnNow = (\<lambda>w. (min (int w) MaxInt64, w)),
     rnSleep = (\<lambda>w d. if 0 \<le> d \<and> int w + d \<le> MaxInt64 then (None, nat (int w + d)) else (Some ''interrupted'', w))\<rparr>"

lemma virtual_steady: "steady virtualRunner (\<lambda>w. min (int w) MaxInt64)"
  by (auto simp: steady_def virtualRunner_def act_def MaxInt64_def split: if_splits)


text \<open>
  A valid schedule whose times are in order is executed as valid at every scale: scaling keeps the
  order of the times, even where rounding makes two of them equal, because the sort is stable; at
  the reference span it changes nothing.
\<close>

theorem Scale_keeps_valid:
  assumes "chaos_Validate s = None" "sorted (map evAt s)"
    and "\<forall>ev \<in> set s. 0 \<le> evAt ev \<and> in64 \<lfloor>fmul (fromInt64 (evAt ev)) (fdiv (fromInt64 d) (fromInt64 DefaultSpan))\<rfloor>"
  shows "chaos_Validate (sort_key evAt (Scale s d)) = None \<and>
    map (\<lambda>e. (evAction e, evBroker e)) (sort_key evAt (Scale s d)) = map (\<lambda>e. (evAction e, evBroker e)) s \<and>
    (d = DefaultSpan \<and> (\<forall>ev \<in> set s. evAt ev \<le> 2 ^ 53) \<longrightarrow> Scale s d = s)"
proof -
  have "sort_key evAt (Scale s d) = Scale s d"
    using Scale_sorted [OF assms(2), of d] assms(3) by (simp add: scaleFactor_def sort_key_id_if_sorted)
  moreover have "chaos_Validate (Scale s d) = None" using Validate_shape [OF Scale_shape] assms(1) by blast
  moreover have "Scale s d = s" if d: "d = DefaultSpan" and small: "\<forall>ev \<in> set s. evAt ev \<le> 2 ^ 53"
  proof -
    have "fdiv (fromInt64 d) (fromInt64 DefaultSpan) = 1"
      using f64_int [of 1] by (simp add: d fromInt64_exact DefaultSpan_def fdiv_def)
    moreover have "toInt64 (fmul (fromInt64 (evAt ev)) 1) = evAt ev" if ev: "ev \<in> set s" for ev
    proof -
      have "0 \<le> evAt ev" "evAt ev \<le> 2 ^ 53" using ev small assms(3) by blast+
      then show ?thesis by (simp add: fmul_def fromInt64_exact f64_int toInt64_int in64_iff)
    qed
    ultimately show ?thesis by (auto simp: Scale_def Let_def intro: map_idI)
  qed
  ultimately show ?thesis using Scale_shape [of s d] by simp
qed

theorem Scale_keeps_valid_witness:
  "chaos_Validate (sort_key evAt (Scale DefaultSchedule DefaultSpan)) = None \<and> Scale DefaultSchedule DefaultSpan = DefaultSchedule"
proof -
  have "chaos_Validate DefaultSchedule = None" "sorted (map evAt DefaultSchedule)"
    "\<forall>ev \<in> set DefaultSchedule. evAt ev \<le> 2 ^ 53" by (simp_all add: DefaultSchedule_def Validate_paired)
  moreover have "fdiv (fromInt64 DefaultSpan) (fromInt64 DefaultSpan) = 1"
    using f64_int [of 1] by (simp add: fromInt64_exact DefaultSpan_def fdiv_def)
  then have "\<forall>ev \<in> set DefaultSchedule. 0 \<le> evAt ev \<and>
      in64 \<lfloor>fmul (fromInt64 (evAt ev)) (fdiv (fromInt64 DefaultSpan) (fromInt64 DefaultSpan))\<rfloor>"
    using f64_int by (simp add: DefaultSchedule_def fmul_def fromInt64_exact f64_int [of "numeral n" for n, simplified] in64_iff)
  ultimately show ?thesis using Scale_keeps_valid [of DefaultSchedule DefaultSpan] by blast
qed

text \<open>
  \<^verbatim>\<open>Validate\<close> reads a schedule in the order it is written and \<^verbatim>\<open>Run\<close> executes it in the order of its times: a
  schedule that validates can take two brokers down at once.
\<close>

theorem Validate_ignores_times:
  "\<exists>s. chaos_Validate s = None \<and> chaos_Validate (sort_key evAt s) = Some (ErrQuorum 2)"
proof -
  let ?ev = "\<lambda>t a b. \<lparr>evAt = t, evAction = a, evBroker = b\<rparr>"
  let ?s = "[?ev 0 Kill ''redpanda-1'', ?ev 100 Start ''redpanda-1'', ?ev 50 Kill ''redpanda-2'', ?ev 150 Start ''redpanda-2'']"
  have "chaos_Validate ?s = None" by (simp add: Validate_paired)
  moreover have "chaos_Validate (sort_key evAt ?s) = Some (ErrQuorum 2)"
    by (simp add: chaos_Validate_def Let_def)
  ultimately show ?thesis by blast
qed

end
