(* ===== verification/Simcluster.thy ===== *)
theory Simcluster
  imports Chaos Textformat
begin

text \<open>
  The in-process cluster of \<^verbatim>\<open>internal/harness/ablation/sim.go\<close>. The fake cluster it drives and the admin
  client are parameters; the names, ports and states of the brokers and the control surface the
  chaos runner uses are the code's. The mutex makes every call atomic.
\<close>

definition BrokerSim :: string where
  "BrokerSim = ''sim:''"

record 'f kfake =
  newCluster :: "int \<Rightarrow> string + 'f"
  listenAddrs :: "'f \<Rightarrow> string list"
  newAdmin :: "'f \<Rightarrow> string option"
  listBrokers :: "'f \<Rightarrow> string + (int \<times> int) list"
  removeNode :: "'f \<Rightarrow> int \<Rightarrow> string option \<times> 'f"
  addNode :: "'f \<Rightarrow> int \<Rightarrow> int \<Rightarrow> string option \<times> 'f"
  rehashCoordinators :: "'f \<Rightarrow> 'f"
  closeCluster :: "'f \<Rightarrow> 'f"

record 'f SimCluster =
  cluster :: 'f
  sver :: string
  ports :: "string \<rightharpoonup> int"
  nodes :: "string \<rightharpoonup> int"
  sdown :: "string \<rightharpoonup> bool"

definition redpanda :: "nat \<Rightarrow> string" where
  "redpanda i = ''redpanda-'' @ decimal (i + 1)"

fun nameBrokers :: "nat \<Rightarrow> (int \<times> int) list \<Rightarrow> 'f SimCluster \<Rightarrow> 'f SimCluster" where
  "nameBrokers i [] s = s"
| "nameBrokers i ((node, port) # bs) s =
     nameBrokers (i + 1) bs (s\<lparr>ports := (ports s)(redpanda i \<mapsto> port), nodes := (nodes s)(redpanda i \<mapsto> node)\<rparr>)"

definition mapBrokers :: "'f kfake \<Rightarrow> 'f SimCluster \<Rightarrow> string + 'f SimCluster" where
  "mapBrokers k s =
     (case newAdmin k (cluster s) of Some e \<Rightarrow> Inl (''ablation: simulated cluster admin: '' @ e) | None \<Rightarrow>
      case listBrokers k (cluster s) of Inl e \<Rightarrow> Inl (''ablation: list simulated brokers: '' @ e) | Inr bs \<Rightarrow>
      let s' = nameBrokers 0 bs s in
      if nodes s' = Map.empty then Inl ''ablation: simulated cluster reported no brokers'' else Inr s')"

definition NewSimCluster :: "'f kfake \<Rightarrow> int \<Rightarrow> string + 'f SimCluster" where
  "NewSimCluster k n =
     (if n < 2 then Inl (''ablation: a simulated cluster needs at least 2 brokers, got '' @ show_d n)
      else case newCluster k n of Inl e \<Rightarrow> Inl (''ablation: start simulated cluster: '' @ e) | Inr cl \<Rightarrow>
        mapBrokers k \<lparr>cluster = cl, sver = BrokerSim @ ''kfake-'' @ show_d n @ ''-broker'',
          ports = Map.empty, nodes = Map.empty, sdown = Map.empty\<rparr>)"

definition sim_Seeds :: "'f kfake \<Rightarrow> 'f SimCluster \<Rightarrow> string list" where
  "sim_Seeds k s = listenAddrs k (cluster s)"

definition sim_Replicas :: "'f SimCluster \<Rightarrow> int" where
  "sim_Replicas s = 1"

definition sim_Version :: "'f SimCluster \<Rightarrow> string" where
  "sim_Version s = sver s"

definition sim_Close :: "'f kfake \<Rightarrow> 'f SimCluster \<Rightarrow> 'f SimCluster" where
  "sim_Close k s = s\<lparr>cluster := closeCluster k (cluster s)\<rparr>"

definition sim_Kill :: "'f kfake \<Rightarrow> 'f SimCluster \<Rightarrow> string \<Rightarrow> string option \<times> 'f SimCluster" where
  "sim_Kill k s container =
     (case nodes s container of None \<Rightarrow> (Some (''ablation: no simulated broker named '' @ show_q container), s)
      | Some node \<Rightarrow>
          if sdown s container = Some True then (Some (''ablation: '' @ container @ '' is already down''), s)
          else let (err, cl) = removeNode k (cluster s) node; s' = s\<lparr>cluster := cl\<rparr> in
            case err of Some e \<Rightarrow> (Some (''ablation: kill '' @ container @ '': '' @ e), s')
            | None \<Rightarrow> (None, s'\<lparr>cluster := rehashCoordinators k (cluster s'), sdown := (sdown s')(container \<mapsto> True)\<rparr>))"

definition sim_Start :: "'f kfake \<Rightarrow> 'f SimCluster \<Rightarrow> string \<Rightarrow> string option \<times> 'f SimCluster" where
  "sim_Start k s container =
     (case nodes s container of None \<Rightarrow> (Some (''ablation: no simulated broker named '' @ show_q container), s)
      | Some node \<Rightarrow>
          if sdown s container \<noteq> Some True then (None, s)
          else let (err, cl) = addNode k (cluster s) node (case ports s container of None \<Rightarrow> 0 | Some p \<Rightarrow> p);
                   s' = s\<lparr>cluster := cl\<rparr> in
            case err of Some e \<Rightarrow> (Some (''ablation: start '' @ container @ '': '' @ e), s')
            | None \<Rightarrow> (None, s'\<lparr>sdown := (sdown s')(container \<mapsto> False)\<rparr>))"

text \<open>The cluster as the control surface of the chaos runner, beside whatever the clock needs.\<close>

definition sim_Docker :: "'f kfake \<Rightarrow> ('f SimCluster \<times> 'c) Docker" where
  "sim_Docker k = \<lparr>dKill = (\<lambda>(s, c) b. let (e, s') = sim_Kill k s b in (e, (s', c))),
     dStart = (\<lambda>(s, c) b. let (e, s') = sim_Start k s b in (e, (s', c)))\<rparr>"

section \<open>A valid schedule on the simulated cluster\<close>

definition downs :: "'f SimCluster \<Rightarrow> string set" where
  "downs s = {b. sdown s b = Some True}"

text \<open>A fake cluster whose own calls succeed, and a clock that does not touch the cluster.\<close>

definition kfake_up :: "'f kfake \<Rightarrow> bool" where
  "kfake_up k \<longleftrightarrow> (\<forall>cl n p. fst (removeNode k cl n) = None \<and> fst (addNode k cl n p) = None)"

definition clock_apart :: "('f SimCluster \<times> 'c) Runner \<Rightarrow> bool" where
  "clock_apart r \<longleftrightarrow> (\<forall>w. fst (snd (rnNow r w)) = fst w) \<and> (\<forall>w d. fst (snd (rnSleep r w d)) = fst w)"

lemma sim_Kill_up:
  assumes "kfake_up k" "b \<in> dom (nodes s)" "b \<notin> downs s" "sim_Kill k s b = (e, s')"
  shows "e = None" "downs s' = insert b (downs s)" "nodes s' = nodes s"
proof -
  obtain node where "nodes s b = Some node" using assms(2) by auto
  moreover obtain cl where "removeNode k (cluster s) node = (None, cl)"
    using assms(1) by (metis kfake_up_def prod.collapse)
  moreover have "sdown s b \<noteq> Some True" using assms(3) by (simp add: downs_def)
  ultimately have "e = None \<and> s' = s\<lparr>cluster := rehashCoordinators k cl, sdown := (sdown s)(b \<mapsto> True)\<rparr>"
    using assms(4) by (simp add: sim_Kill_def)
  then show "e = None" "downs s' = insert b (downs s)" "nodes s' = nodes s" by (auto simp: downs_def)
qed

lemma sim_Start_up:
  assumes "kfake_up k" "b \<in> dom (nodes s)" "b \<in> downs s" "sim_Start k s b = (e, s')"
  shows "e = None" "downs s' = downs s - {b}" "nodes s' = nodes s"
proof -
  obtain node where "nodes s b = Some node" using assms(2) by auto
  moreover obtain cl where "addNode k (cluster s) node (case ports s b of None \<Rightarrow> 0 | Some p \<Rightarrow> p) = (None, cl)"
    using assms(1) by (metis kfake_up_def prod.collapse)
  moreover have "sdown s b = Some True" using assms(3) by (simp add: downs_def)
  ultimately have "e = None \<and> s' = s\<lparr>cluster := cl, sdown := (sdown s)(b \<mapsto> False)\<rparr>"
    using assms(4) by (simp add: sim_Start_def)
  then show "e = None" "downs s' = downs s - {b}" "nodes s' = nodes s" by (auto simp: downs_def)
qed

text \<open>One scheduled action on the cluster: the broker that is down afterwards is the schedule's.\<close>

lemma sim_act:
  assumes "kfake_up k" "paired up (ev # evs)" "downs (fst w) = set_option up" "evBroker ev \<in> dom (nodes (fst w))"
    and "act (sim_Docker k) ev w = (e, w')"
  shows "e = None \<and> nodes (fst w') = nodes (fst w) \<and>
    (\<exists>up'. downs (fst w') = set_option up' \<and> paired up' evs)"
proof -
  obtain s c where w: "w = (s, c)" by force
  show ?thesis
  proof (cases up)
    case None
    obtain e' s' where K: "sim_Kill k s (evBroker ev) = (e', s')" by force
    from assms None w have "evBroker ev \<notin> downs s" "paired (Some (evBroker ev)) evs" by simp_all
    with sim_Kill_up [OF assms(1) _ this(1) K] assms w K None show ?thesis
      by (auto simp: act_def sim_Docker_def intro!: exI [of _ "Some (evBroker ev)"])
  next
    case (Some b)
    obtain e' s' where K: "sim_Start k s (evBroker ev) = (e', s')" by force
    from assms Some w have "evBroker ev \<in> downs s" "paired None evs" "evBroker ev = b" by simp_all
    with sim_Start_up [OF assms(1) _ this(1) K] assms w K Some show ?thesis
      by (auto simp: act_def sim_Docker_def intro!: exI [of _ None])
  qed
qed

lemma sim_runLoop:
  assumes "kfake_up k" "clock_apart r" "rnDocker r = sim_Docker k"
  shows "runLoop r start evs out w = ((res, e), w') \<Longrightarrow> paired up evs \<Longrightarrow> downs (fst w) = set_option up \<Longrightarrow>
    evBroker ` set evs \<subseteq> dom (nodes (fst w)) \<Longrightarrow> \<forall>rc \<in> set out. rcErr rc = None \<Longrightarrow>
    (\<forall>rc \<in> set res. rcErr rc = None) \<and> card (downs (fst w')) \<le> 1 \<and> (e = None \<longrightarrow> downs (fst w') = {})"
proof (induction evs arbitrary: out w up)
  case Nil
  then show ?case by (cases up) auto
next
  case (Cons ev evs)
  have now: "rnNow r u = (t, v) \<Longrightarrow> fst v = fst u" for u t v using assms(2) unfolding clock_apart_def by (metis snd_conv)
  have slept: "rnSleep r u d = (i, v) \<Longrightarrow> fst v = fst u" for u d i v
    using assms(2) unfolding clock_apart_def by (metis snd_conv)
  from Cons.prems(1) show ?case
  proof (cases rule: runLoop_step)
    case (interrupted w1 err t1)
    with now [OF interrupted(1)] slept [OF interrupted(2)] Cons.prems show ?thesis by (cases up) auto
  next
    case (executed t1 w1 w2 t2 w3 err w4)
    have "fst w2 = fst w1" using executed(2,3) slept [of w1 _ None w2] by (cases "sub64 (evAt ev) (time_Sub t1 start) > 0") auto
    with now [OF executed(1)] now [OF executed(4)] have w3: "fst w3 = fst w" by simp
    from sim_act [OF assms(1) Cons.prems(2), of w3 err w4] executed(5) w3 Cons.prems(3,4) assms(3)
    obtain up' where "err = None" "nodes (fst w4) = nodes (fst w)" "downs (fst w4) = set_option up'" "paired up' evs" by auto
    with Cons.IH [OF executed(6)] Cons.prems(4,5) show ?thesis by auto
  qed
qed

section \<open>Properties\<close>

text \<open>
  A valid schedule whose times are in order runs cleanly on a simulated cluster that has all its
  brokers: no action fails, at most one broker is down when the run ends, and none is when it was
  not interrupted.
\<close>

theorem sim_schedule_clean:
  assumes "chaos_Validate s = None" "sorted (map evAt s)" "evBroker ` set s \<subseteq> dom (nodes (fst w))" "downs (fst w) = {}"
    and "kfake_up k" "clock_apart r" "rnDocker r = sim_Docker k" "chaos_Run r s w = ((res, e), w')"
  shows "(\<forall>rc \<in> set res. rcErr rc = None) \<and> card (downs (fst w')) \<le> 1 \<and> (e = None \<longrightarrow> downs (fst w') = {})"
proof -
  obtain start w1 where n: "rnNow r w = (start, w1)" by (metis surj_pair)
  have L: "runLoop r start s [] w1 = ((res, e), w')"
    using assms(2,8) n by (simp add: chaos_Run_def sort_key_id_if_sorted)
  have "fst w1 = fst w" using assms(6) n by (metis clock_apart_def snd_conv)
  with sim_runLoop [OF assms(5-7) L, of None] assms(1,3,4) show ?thesis by (simp add: Validate_paired)
qed

definition sampleKfake :: "nat kfake" where
  "sampleKfake = \<lparr>newCluster = (\<lambda>n. Inr 0), listenAddrs = (\<lambda>f. []), newAdmin = (\<lambda>f. None),
     listBrokers = (\<lambda>f. Inr [(0, 9001), (1, 9002), (2, 9003)]), removeNode = (\<lambda>f n. (None, Suc f)),
     addNode = (\<lambda>f n p. (None, Suc f)), rehashCoordinators = (\<lambda>f. f), closeCluster = (\<lambda>f. f)\<rparr>"

definition simRunner :: "(nat SimCluster \<times> int) Runner" where
  "simRunner = \<lparr>rnDocker = sim_Docker sampleKfake, rnNow = (\<lambda>(s, t). (t, (s, t))), rnSleep = (\<lambda>(s, t) d. (None, (s, t + d)))\<rparr>"

theorem sim_schedule_clean_witness:
  "\<exists>s res e w'. NewSimCluster sampleKfake 3 = Inr s \<and> chaos_Run simRunner DefaultSchedule (s, 0) = ((res, e), w') \<and>
     (\<forall>rc \<in> set res. rcErr rc = None)"
proof -
  obtain s where s: "NewSimCluster sampleKfake 3 = Inr s"
    "dom (nodes s) = {redpanda 0, redpanda 1, redpanda 2}" "downs s = {}"
    by (simp add: NewSimCluster_def mapBrokers_def sampleKfake_def downs_def insert_commute numeral_2_eq_2)
  obtain res e w' where R: "chaos_Run simRunner DefaultSchedule (s, 0) = ((res, e), w')" by (metis surj_pair)
  have names: "redpanda 0 = ''redpanda-1''" "redpanda 1 = ''redpanda-2''"
    by code_simp+
  have known: "evBroker ` set DefaultSchedule \<subseteq> dom (nodes (fst (s, 0 :: int)))"
    unfolding fst_conv s(2) names by (simp add: DefaultSchedule_def)
  have valid: "chaos_Validate DefaultSchedule = None" "sorted (map evAt DefaultSchedule)"
    by (simp_all add: DefaultSchedule_def Validate_paired)
  have up: "downs (fst (s, 0 :: int)) = {}" using s(3) by simp
  have "kfake_up sampleKfake" "clock_apart simRunner" "rnDocker simRunner = sim_Docker sampleKfake"
    by (auto simp: kfake_up_def sampleKfake_def clock_apart_def simRunner_def)
  from sim_schedule_clean [OF valid known up this R] have "\<forall>rc \<in> set res. rcErr rc = None" by (rule conjunct1)
  with s(1) R show ?thesis by (intro exI conjI)
qed

end
