(* ===== verification/Artefact.thy ===== *)
theory Artefact
  imports Simcluster Consumer "HOL-Library.Product_Lexorder"
begin

text \<open>
  \<^verbatim>\<open>internal/harness/ablation/artefact.go\<close>: the artefact of a run, the guards that decide whether
  artefacts may share a table, and the rows of the table with their medians and ranges. The JSON
  encoding is a parameter; a directory of artefacts is the list of its files in the order of the walk.
\<close>

section \<open>Artefacts\<close>

record Artefact =
  RunID :: string
  Config :: Mode
  aSeed :: int
  aProfile :: string
  RatePerSec :: int
  DurationSec :: int
  Schedule :: "Event list"
  LedgerSHA :: string
  aBrokerVersion :: string
  SweepID :: string
  Executed :: "ChaosRecord list"
  Sent :: int
  aApplied :: int
  Lost :: int
  Duplicated :: int
  InFlight :: int
  P50 :: int
  P95 :: int
  P99 :: int
  LagPeak :: int
  DrainSeconds :: rat
  InvariantHeld :: bool
  Effects :: int
  Drained :: bool
  ExactCounts :: bool

record codec =
  marshalSchedule :: "Event list \<Rightarrow> string"
  marshalArtefact :: "Artefact \<Rightarrow> string"
  unmarshalArtefact :: "string \<Rightarrow> Artefact option"

definition fixedKey :: "codec \<Rightarrow> Artefact \<Rightarrow> string" where
  "fixedKey js a = show_d (aSeed a) @ ''|'' @ aProfile a @ ''|'' @ show_d (RatePerSec a) @ ''|'' @
     show_d (DurationSec a) @ ''|'' @ LedgerSHA a @ ''|'' @ aBrokerVersion a @ ''|'' @ SweepID a @ ''|'' @
     marshalSchedule js (Schedule a)"

datatype detail =
    NoArtefacts
  | MixedKinds string string string string
  | NeverDrained string
  | DoesNotMatch string Mode string Mode
  | TooFewRuns Mode nat nat

datatype ablation_error =
    ErrMismatchedParameters detail
  | ErrNotAMeasurement string string
  | ErrReadArtefact string

definition BrokerFake :: string where
  "BrokerFake = ''fake:''"

definition HasPrefix :: "string \<Rightarrow> string \<Rightarrow> bool" where
  "HasPrefix s p \<longleftrightarrow> take (length p) s = p"

definition IsMeasurement :: "Artefact \<Rightarrow> bool" where
  "IsMeasurement a \<longleftrightarrow> \<not> HasPrefix (aBrokerVersion a) BrokerFake"

type_synonym Kind = string

definition KindPlumbing :: Kind where
  "KindPlumbing = ''plumbing''"

definition KindSimulated :: Kind where
  "KindSimulated = ''simulated''"

definition KindReal :: Kind where
  "KindReal = ''real''"

definition kind_of :: "Artefact \<Rightarrow> Kind" where
  "kind_of a =
     (if HasPrefix (aBrokerVersion a) BrokerFake then KindPlumbing
      else if HasPrefix (aBrokerVersion a) BrokerSim then KindSimulated
      else KindReal)"

fun sameKind :: "Artefact \<Rightarrow> Artefact list \<Rightarrow> ablation_error + Kind" where
  "sameKind a0 [] = Inr (kind_of a0)"
| "sameKind a0 (a # as) =
     (if kind_of a \<noteq> kind_of a0
      then Inl (ErrMismatchedParameters (MixedKinds (RunID a) (kind_of a) (RunID a0) (kind_of a0)))
      else sameKind a0 as)"

fun KindOf :: "Artefact list \<Rightarrow> ablation_error + Kind" where
  "KindOf [] = Inl (ErrMismatchedParameters NoArtefacts)"
| "KindOf (a # as) = sameKind a as"

section \<open>Files\<close>

text \<open>\<^verbatim>\<open>Write\<close> puts one file per run; the file system is a map from run ids to contents.\<close>

definition Write :: "codec \<Rightarrow> Artefact \<Rightarrow> (string \<rightharpoonup> string) \<Rightarrow> (string \<rightharpoonup> string)" where
  "Write js a files = files(RunID a \<mapsto> marshalArtefact js a @ [CHR 0x0A])"

text \<open>A walk: every path with its base name, whether it is a directory, and what reading it gives.\<close>

record dirEntry =
  fpath :: string
  fbase :: string
  fdir :: bool
  fcontent :: "string + string"

fun loadWalk :: "codec \<Rightarrow> dirEntry list \<Rightarrow> ablation_error + Artefact list" where
  "loadWalk js [] = Inr []"
| "loadWalk js (f # fs) =
     (if fdir f \<or> fbase f \<noteq> ''artefact.json'' then loadWalk js fs
      else case fcontent f of Inl e \<Rightarrow> Inl (ErrReadArtefact e) | Inr blob \<Rightarrow>
        case unmarshalArtefact js blob of None \<Rightarrow> Inl (ErrReadArtefact (fpath f)) | Some a \<Rightarrow>
        case loadWalk js fs of Inl e \<Rightarrow> Inl e | Inr as \<Rightarrow> Inr (a # as))"

definition abl_Load :: "codec \<Rightarrow> dirEntry list \<Rightarrow> ablation_error + Artefact list" where
  "abl_Load js fs = (case loadWalk js fs of Inl e \<Rightarrow> Inl e | Inr as \<Rightarrow> Inr (sort_key (\<lambda>a. (Config a, RunID a)) as))"

section \<open>Rows\<close>

definition medianMinMax :: "int list \<Rightarrow> int \<times> int \<times> int" where
  "medianMinMax vs = (let s = sort vs in (s ! (length s div 2), s ! 0, s ! (length s - 1)))"

definition enDash :: string where
  "enDash = [CHR 0xE2, CHR 0x80, CHR 0x93]"

definition ranged :: "(int \<Rightarrow> string) \<Rightarrow> int \<times> int \<times> int \<Rightarrow> string" where
  "ranged f = (\<lambda>(med, lo, hi). if lo = hi then f med else f med @ '' ['' @ f lo @ enDash @ f hi @ '']'')"

definition stat :: "(Artefact \<Rightarrow> int) \<Rightarrow> Artefact list \<Rightarrow> string" where
  "stat get runs = ranged show_d (medianMinMax (map get runs))"

text \<open>\<^verbatim>\<open>time.Duration.String\<close>.\<close>

definition fracStr :: "nat \<Rightarrow> int \<Rightarrow> string" where
  "fracStr prec v = (let ds = trimZeros (fmt_0d prec (v mod 10 ^ prec)) in if ds = [] then [] else ''.'' @ ds)"

definition unitStr :: "nat \<Rightarrow> int \<Rightarrow> string" where
  "unitStr prec u = show_d (u div 10 ^ prec) @ fracStr prec u"

definition clockStr :: "int \<Rightarrow> string" where
  "clockStr u =
     (let s = u div 10 ^ 9; m = s div 60; h = m div 60;
          secs = show_d (s mod 60) @ fracStr 9 u @ ''s'' in
      if h > 0 then show_d h @ ''h'' @ show_d (m mod 60) @ ''m'' @ secs
      else if m > 0 then show_d (m mod 60) @ ''m'' @ secs else secs)"

definition Duration_String :: "int \<Rightarrow> string" where
  "Duration_String d =
     (let u = \<bar>d\<bar> in
      if u = 0 then ''0s''
      else (if d < 0 then ''-'' else []) @
       (if u < 1000 then show_d u @ ''ns''
        else if u < 1000000 then unitStr 3 u @ [CHR 0xC2, CHR 0xB5] @ ''s''
        else if u < 1000000000 then unitStr 6 u @ ''ms''
        else clockStr u))"

definition statMicros :: "(Artefact \<Rightarrow> int) \<Rightarrow> Artefact list \<Rightarrow> string" where
  "statMicros get runs = ranged (\<lambda>micros. Duration_String (mul64 micros 1000)) (medianMinMax (map get runs))"

text \<open>\<^verbatim>\<open>%.1f\<close> rounds the exact value to one decimal, ties to even.\<close>

definition fmt_1f :: "rat \<Rightarrow> string" where
  "fmt_1f x = (let n = rne (\<bar>x\<bar> * 10) in
     (if x < 0 then ''-'' else []) @ show_d (n div 10) @ ''.'' @ show_d (n mod 10))"

definition statFloat :: "(Artefact \<Rightarrow> rat) \<Rightarrow> Artefact list \<Rightarrow> string" where
  "statFloat get runs = ranged (\<lambda>milli. fmt_1f (fdiv (fromInt64 milli) 1000))
     (medianMinMax (map (\<lambda>a. toInt64 (fmul (get a) 1000)) runs))"

record Row =
  rConfig :: string
  rRuns :: nat
  rSent :: string
  rApplied :: string
  rLost :: string
  rDuplicated :: string
  rP50 :: string
  rP95 :: string
  rP99 :: string
  rLagPeak :: string
  rDrainSeconds :: string
  rInvariantHeld :: bool
  DupMin :: int
  DupMax :: int
  LostMin :: int
  LostMax :: int
  LatencyMeasured :: bool

definition MinRuns :: nat where
  "MinRuns = 3"

text \<open>The loop that folds the extremes and whether any run measured a latency.\<close>

fun foldRuns :: "Artefact list \<Rightarrow> int \<times> int \<times> int \<times> int \<times> bool \<Rightarrow> int \<times> int \<times> int \<times> int \<times> bool" where
  "foldRuns [] acc = acc"
| "foldRuns (r # rs) (dmin, dmax, lmin, lmax, lat) =
     foldRuns rs
       (if Duplicated r < dmin then Duplicated r else dmin,
        if Duplicated r > dmax then Duplicated r else dmax,
        if Lost r < lmin then Lost r else lmin,
        if Lost r > lmax then Lost r else lmax,
        lat \<or> P50 r > 0 \<or> P95 r > 0 \<or> P99 r > 0)"

definition rowOf :: "Mode \<Rightarrow> Artefact list \<Rightarrow> Row" where
  "rowOf c runs =
     (let r0 = hd runs;
          (dmin, dmax, lmin, lmax, lat) = foldRuns runs (Duplicated r0, Duplicated r0, Lost r0, Lost r0, False) in
      \<lparr>rConfig = c, rRuns = length runs,
       rSent = stat Sent runs, rApplied = stat aApplied runs, rLost = stat Lost runs,
       rDuplicated = stat Duplicated runs,
       rP50 = statMicros P50 runs, rP95 = statMicros P95 runs, rP99 = statMicros P99 runs,
       rLagPeak = stat LagPeak runs, rDrainSeconds = statFloat DrainSeconds runs,
       rInvariantHeld = list_all InvariantHeld runs,
       DupMin = dmin, DupMax = dmax, LostMin = lmin, LostMax = lmax, LatencyMeasured = lat\<rparr>)"

fun rowsLoop :: "nat \<Rightarrow> Artefact list \<Rightarrow> Mode list \<Rightarrow> ablation_error + Row list" where
  "rowsLoop minRuns as [] = Inr []"
| "rowsLoop minRuns as (c # cs) =
     (let runs = filter (\<lambda>a. Config a = c) as in
      if length runs < minRuns then Inl (ErrMismatchedParameters (TooFewRuns c (length runs) minRuns))
      else case rowsLoop minRuns as cs of Inl e \<Rightarrow> Inl e | Inr rows \<Rightarrow> Inr (rowOf c runs # rows))"

definition Table :: "codec \<Rightarrow> Artefact list \<Rightarrow> nat \<Rightarrow> ablation_error + Row list" where
  "Table js as minRuns =
     (if as = [] then Inl (ErrMismatchedParameters NoArtefacts)
      else case find (\<lambda>a. \<not> IsMeasurement a) as of
        Some a \<Rightarrow> Inl (ErrNotAMeasurement (RunID a) (aBrokerVersion a))
      | None \<Rightarrow> case KindOf as of Inl e \<Rightarrow> Inl e
      | Inr _ \<Rightarrow> case find (\<lambda>a. \<not> Drained a) as of
        Some a \<Rightarrow> Inl (ErrMismatchedParameters (NeverDrained (RunID a)))
      | None \<Rightarrow> case find (\<lambda>a. fixedKey js a \<noteq> fixedKey js (hd as)) (tl as) of
        Some a \<Rightarrow> Inl (ErrMismatchedParameters (DoesNotMatch (RunID a) (Config a) (RunID (hd as)) (Config (hd as))))
      | None \<Rightarrow> rowsLoop minRuns as (sort (remdups (map Config as))))"

section \<open>Lemmas\<close>

lemma sameKind_iff: "(\<exists>k. sameKind a0 as = Inr k) \<longleftrightarrow> (\<forall>a \<in> set as. kind_of a = kind_of a0)"
  by (induction as) auto

lemma KindOf_iff: "(\<exists>k. KindOf as = Inr k) \<longleftrightarrow> as \<noteq> [] \<and> (\<forall>a \<in> set as. kind_of a = kind_of (hd as))"
  using sameKind_iff by (cases as) auto

lemma rowsLoop_iff:
  "rowsLoop n as cs = Inr rows \<longleftrightarrow>
     (\<forall>c \<in> set cs. n \<le> length (filter (\<lambda>a. Config a = c) as)) \<and>
     rows = map (\<lambda>c. rowOf c (filter (\<lambda>a. Config a = c) as)) cs"
proof (induction cs arbitrary: rows)
  case (Cons c cs)
  show ?case
  proof (cases "rowsLoop n as cs")
    case (Inl e)
    with Cons.IH show ?thesis by (auto simp: Let_def)
  next
    case (Inr rs)
    with Cons.IH [of rs] show ?thesis by (auto simp: Let_def)
  qed
qed auto

lemma foldRuns_extremes:
  "foldRuns rs (a, b, c, d, l) =
     (Min (insert a (Duplicated ` set rs)), Max (insert b (Duplicated ` set rs)),
      Min (insert c (Lost ` set rs)), Max (insert d (Lost ` set rs)),
      l \<or> (\<exists>r \<in> set rs. P50 r > 0 \<or> P95 r > 0 \<or> P99 r > 0))"
proof (induction rs arbitrary: a b c d l)
  case (Cons r rs)
  have mn: "Min (insert (if x < y then x else y) A) = Min (insert y (insert x A))" if "finite A" for x y :: int and A
    using that by (cases "A = {}") (auto simp: Min_insert2 min_def)
  have mx: "Max (insert (if x > y then x else y) A) = Max (insert y (insert x A))" if "finite A" for x y :: int and A
    using that by (cases "A = {}") (auto simp: max_def)
  show ?case unfolding foldRuns.simps Cons.IH mn [OF finite_imageI [OF finite_set]] mx [OF finite_imageI [OF finite_set]]
    by (auto simp: insert_commute)
qed simp

lemma sorted_below: "sorted s \<Longrightarrow> i < length s \<Longrightarrow> length (filter (\<lambda>v. v < s ! i) s) \<le> i"
proof -
  assume s: "sorted s" and i: "i < length s"
  have "filter (\<lambda>v. v < s ! i) s = filter (\<lambda>v. v < s ! i) (take i s) @ filter (\<lambda>v. v < s ! i) (drop i s)"
    by (metis append_take_drop_id filter_append)
  moreover have "filter (\<lambda>v. v < s ! i) (drop i s) = []"
    using s i by (auto simp: filter_empty_conv in_set_conv_nth sorted_iff_nth_mono not_less)
  ultimately show ?thesis using length_filter_le [of "\<lambda>v. v < s ! i" "take i s"] i by simp
qed

lemma sorted_above: "sorted s \<Longrightarrow> i < length s \<Longrightarrow> length (filter (\<lambda>v. s ! i < v) s) \<le> length s - Suc i"
proof -
  assume s: "sorted s" and i: "i < length s"
  have "filter (\<lambda>v. s ! i < v) s = filter (\<lambda>v. s ! i < v) (take (Suc i) s) @ filter (\<lambda>v. s ! i < v) (drop (Suc i) s)"
    by (metis append_take_drop_id filter_append)
  moreover have "filter (\<lambda>v. s ! i < v) (take (Suc i) s) = []"
    using s i by (auto simp: filter_empty_conv in_set_conv_nth sorted_iff_nth_mono not_less)
  ultimately show ?thesis using length_filter_le [of "\<lambda>v. s ! i < v" "drop (Suc i) s"] by simp
qed

lemma length_filter_sort: "length (filter P (sort vs)) = length (filter P (vs :: int list))"
  by (simp add: filter_sort)

lemma medianMinMax_spec:
  assumes "medianMinMax vs = (med, lo, hi)" "vs \<noteq> []"
  shows "med \<in> set vs" "lo = Min (set vs)" "hi = Max (set vs)"
    and "2 * length (filter (\<lambda>v. v < med) vs) \<le> length vs" "2 * length (filter (\<lambda>v. med < v) vs) \<le> length vs"
proof -
  let ?s = "sort vs"
  have len: "0 < length ?s" "length ?s div 2 < length ?s" "length ?s - 1 < length ?s" using assms(2) by simp_all
  have m: "med = ?s ! (length ?s div 2)" "lo = ?s ! 0" "hi = ?s ! (length ?s - 1)"
    using assms(1) by (simp_all add: medianMinMax_def Let_def)
  have in_s: "?s ! i \<in> set vs" if "i < length ?s" for i using nth_mem [OF that] by simp
  have le: "?s ! 0 \<le> v" "v \<le> ?s ! (length ?s - 1)" if "v \<in> set vs" for v
  proof -
    from that obtain i where "i < length ?s" "v = ?s ! i" by (metis in_set_conv_nth set_sort)
    then show "?s ! 0 \<le> v" "v \<le> ?s ! (length ?s - 1)" by (auto intro!: sorted_nth_mono)
  qed
  show "med \<in> set vs" unfolding m by (rule in_s [OF len(2)])
  show "lo = Min (set vs)" unfolding m using le(1) in_s [OF len(1)] by (intro Min_eqI [symmetric]) auto
  show "hi = Max (set vs)" unfolding m using le(2) in_s [OF len(3)] by (intro Max_eqI [symmetric]) auto
  have "length (filter (\<lambda>v. v < med) vs) \<le> length vs div 2"
    using sorted_below [OF sorted_sort len(2)] length_filter_sort by (simp add: m)
  then show "2 * length (filter (\<lambda>v. v < med) vs) \<le> length vs" by simp
  have "length (filter (\<lambda>v. med < v) vs) \<le> length vs - Suc (length vs div 2)"
    using sorted_above [OF sorted_sort len(2)] length_filter_sort by (simp add: m)
  then show "2 * length (filter (\<lambda>v. med < v) vs) \<le> length vs" by simp
qed

lemma fixedKey_fields:
  assumes "fixedKey js a = fixedKey js b"
    and "\<forall>s \<in> {aProfile a, LedgerSHA a, aBrokerVersion a, SweepID a, aProfile b, LedgerSHA b, aBrokerVersion b, SweepID b}.
      CHR ''|'' \<notin> set s"
  shows "aSeed a = aSeed b \<and> aProfile a = aProfile b \<and> RatePerSec a = RatePerSec b \<and> DurationSec a = DurationSec b \<and>
    LedgerSHA a = LedgerSHA b \<and> aBrokerVersion a = aBrokerVersion b \<and> SweepID a = SweepID b \<and>
    marshalSchedule js (Schedule a) = marshalSchedule js (Schedule b)"
proof -
  let ?fs = "\<lambda>a. [show_d (aSeed a), aProfile a, show_d (RatePerSec a), show_d (DurationSec a), LedgerSHA a,
      aBrokerVersion a, SweepID a, marshalSchedule js (Schedule a)]"
  have "joined (CHR ''|'') (?fs a) = joined (CHR ''|'') (?fs b)" using assms(1) by (simp add: fixedKey_def)
  then have "?fs a = ?fs b" using assms(2) show_d_chars by (intro joined_inj) auto
  then show ?thesis by (auto dest: show_d_inj)
qed

lemma find_None_iff': "find P xs = None \<longleftrightarrow> (\<forall>x \<in> set xs. \<not> P x)"
  by (auto simp: find_None_iff)

lemma configs_sorted: "sort (remdups (map Config as)) = sorted_list_of_set (Config ` set as)"
  by (metis list.set_map sorted_list_of_set_sort_remdups)

section \<open>Writing and loading\<close>

text \<open>The files of a directory written by \<^verbatim>\<open>Write\<close>, walked in the order of the run ids.\<close>

definition walk :: "(string \<rightharpoonup> string) \<Rightarrow> dirEntry list" where
  "walk files = map (\<lambda>run. \<lparr>fpath = run @ ''/artefact.json'', fbase = ''artefact.json'', fdir = False,
     fcontent = Inr (the (files run))\<rparr>) (sorted_list_of_set (dom files))"

definition codec_ok :: "codec \<Rightarrow> Artefact set \<Rightarrow> bool" where
  "codec_ok js A \<longleftrightarrow> (\<forall>a \<in> A. unmarshalArtefact js (marshalArtefact js a @ [CHR 0x0A]) = Some a)"

lemma Write_all:
  assumes "distinct (map RunID as)"
  shows "foldr (Write js) as Map.empty run = map_option (\<lambda>a. marshalArtefact js a @ [CHR 0x0A]) (find (\<lambda>a. RunID a = run) as)"
  by (induction as) (auto simp: Write_def)

lemma dom_Write: "dom (Write js a files) = insert (RunID a) (dom files)"
  by (simp add: Write_def)

lemma Write_dom: "dom (foldr (Write js) as Map.empty) = RunID ` set as"
  by (induction as) (simp_all add: dom_Write)

lemma loadWalk_files:
  assumes "codec_ok js A" "\<forall>run \<in> set runs. art run \<in> A \<and> files run = Some (marshalArtefact js (art run) @ [CHR 0x0A])"
  shows "loadWalk js (map (\<lambda>run. \<lparr>fpath = run @ ''/artefact.json'', fbase = ''artefact.json'', fdir = False,
     fcontent = Inr (the (files run))\<rparr>) runs) = Inr (map art runs)"
  using assms(2)
proof (induction runs)
  case (Cons run runs)
  with assms(1) show ?case by (simp add: codec_ok_def)
qed simp

lemma Table_iff:
  "Table js as n = Inr rows \<longleftrightarrow> as \<noteq> [] \<and>
     (\<forall>a \<in> set as. IsMeasurement a \<and> Drained a \<and> kind_of a = kind_of (hd as) \<and> fixedKey js a = fixedKey js (hd as) \<and>
       n \<le> length (filter (\<lambda>b. Config b = Config a) as)) \<and>
     rows = map (\<lambda>c. rowOf c (filter (\<lambda>a. Config a = c) as)) (sorted_list_of_set (Config ` set as))"
proof (cases "as = []")
  case False
  have key: "(\<forall>a \<in> set (tl as). fixedKey js a = fixedKey js (hd as)) \<longleftrightarrow> (\<forall>a \<in> set as. fixedKey js a = fixedKey js (hd as))"
    using False by (cases as) auto
  have T: "Table js as n = Inr rows \<longleftrightarrow> find (\<lambda>a. \<not> IsMeasurement a) as = None \<and> (\<exists>k. KindOf as = Inr k) \<and>
      find (\<lambda>a. \<not> Drained a) as = None \<and> find (\<lambda>a. fixedKey js a \<noteq> fixedKey js (hd as)) (tl as) = None \<and>
      rowsLoop n as (sort (remdups (map Config as))) = Inr rows"
    using False by (cases "find (\<lambda>a. \<not> IsMeasurement a) as"; cases "KindOf as"; cases "find (\<lambda>a. \<not> Drained a) as";
      cases "find (\<lambda>a. fixedKey js a \<noteq> fixedKey js (hd as)) (tl as)"; simp add: Table_def)
  show ?thesis
    unfolding T find_None_iff' KindOf_iff rowsLoop_iff configs_sorted using False key by auto
qed (simp add: Table_def)

section \<open>Properties\<close>

text \<open>
  C24. \<^verbatim>\<open>Table\<close> succeeds exactly when there are artefacts, every one of them is a measurement that drained, they
  share one kind and one key of fixed parameters, and every configuration has enough runs; the
  rows are then those of the configurations in order, each over all the runs of its configuration.
\<close>

theorem Table_exact:
  "Table js as n = Inr rows \<longleftrightarrow> as \<noteq> [] \<and>
     (\<forall>a \<in> set as. IsMeasurement a \<and> Drained a \<and> kind_of a = kind_of (hd as) \<and> fixedKey js a = fixedKey js (hd as) \<and>
       n \<le> length (filter (\<lambda>b. Config b = Config a) as)) \<and>
     rows = map (\<lambda>c. rowOf c (filter (\<lambda>a. Config a = c) as)) (sorted_list_of_set (Config ` set as))"
  by (rule Table_iff)

text \<open>
  Artefacts share a key only when they share every fixed parameter, as long as no text among them
  holds the separator.
\<close>

theorem fixedKey_separates:
  assumes "fixedKey js a = fixedKey js b"
    and "\<forall>s \<in> {aProfile a, LedgerSHA a, aBrokerVersion a, SweepID a, aProfile b, LedgerSHA b, aBrokerVersion b, SweepID b}.
      CHR ''|'' \<notin> set s"
    and "inj_on (marshalSchedule js) {Schedule a, Schedule b}"
  shows "aSeed a = aSeed b \<and> aProfile a = aProfile b \<and> RatePerSec a = RatePerSec b \<and> DurationSec a = DurationSec b \<and>
    LedgerSHA a = LedgerSHA b \<and> aBrokerVersion a = aBrokerVersion b \<and> SweepID a = SweepID b \<and> Schedule a = Schedule b"
proof -
  note eq = fixedKey_fields [OF assms(1,2)]
  have "Schedule a = Schedule b" by (rule inj_onD [OF assms(3)]) (use eq in simp_all)
  with eq show ?thesis by blast
qed

definition sampleArtefact :: Artefact where
  "sampleArtefact = \<lparr>RunID = ''steady-C-1'', Config = ''C'', aSeed = 1, aProfile = ''steady'', RatePerSec = 200, DurationSec = 30,
     Schedule = [], LedgerSHA = ''abc'', aBrokerVersion = ''v24'', SweepID = ''s1'', Executed = [], Sent = 6000, aApplied = 6000,
     Lost = 0, Duplicated = 0, InFlight = 0, P50 = 0, P95 = 0, P99 = 0, LagPeak = 0, DrainSeconds = 0, InvariantHeld = True,
     Effects = 6000, Drained = True, ExactCounts = True\<rparr>"

definition sampleCodec :: codec where
  "sampleCodec = \<lparr>marshalSchedule = (\<lambda>s. concat (map (\<lambda>e. show_d (evAt e)) s)), marshalArtefact = (\<lambda>a. RunID a),
     unmarshalArtefact = (\<lambda>s. if s = ''steady-C-1'' @ [CHR 0x0A] then Some sampleArtefact
       else Some (sampleArtefact\<lparr>RunID := ''steady-A-1'', Config := ''A''\<rparr>))\<rparr>"

theorem fixedKey_separates_witness:
  "SweepID sampleArtefact = SweepID (sampleArtefact\<lparr>RunID := ''steady-C-2'', Lost := 3\<rparr>) \<and>
   Schedule sampleArtefact = Schedule (sampleArtefact\<lparr>RunID := ''steady-C-2'', Lost := 3\<rparr>)"
proof -
  let ?b = "sampleArtefact\<lparr>RunID := ''steady-C-2'', Lost := 3\<rparr>"
  have "fixedKey sampleCodec sampleArtefact = fixedKey sampleCodec ?b" by (simp add: fixedKey_def)
  moreover have "\<forall>s \<in> {aProfile sampleArtefact, LedgerSHA sampleArtefact, aBrokerVersion sampleArtefact, SweepID sampleArtefact,
      aProfile ?b, LedgerSHA ?b, aBrokerVersion ?b, SweepID ?b}. CHR ''|'' \<notin> set s"
    by (simp add: sampleArtefact_def)
  moreover have "inj_on (marshalSchedule sampleCodec) {Schedule sampleArtefact, Schedule ?b}" by simp
  ultimately show ?thesis using fixedKey_separates [of sampleCodec sampleArtefact ?b] by blast
qed

theorem Table_exact_witness:
  "\<exists>rows. Table sampleCodec [sampleArtefact] 1 = Inr rows \<and> map rRuns rows = [1]"
proof -
  let ?row = "rowOf ''C'' [sampleArtefact]"
  have row: "rRuns ?row = 1" by (simp add: rowOf_def Let_def split_beta)
  have c: "Config sampleArtefact = ''C''" by (simp add: sampleArtefact_def)
  have m: "IsMeasurement sampleArtefact" "Drained sampleArtefact"
    by (simp_all add: sampleArtefact_def IsMeasurement_def HasPrefix_def BrokerFake_def)
  have "Table sampleCodec [sampleArtefact] 1 = Inr [?row]" unfolding Table_exact by (simp add: m c)
  with row show ?thesis by simp
qed

text \<open>
  The separator is not escaped: with a separator in the profile two artefacts of different rate and
  duration have the same key.
\<close>

theorem fixedKey_collides:
  "\<exists>a b. RatePerSec a \<noteq> RatePerSec b \<and> DurationSec a \<noteq> DurationSec b \<and> fixedKey js a = fixedKey js b"
proof -
  let ?a = "sampleArtefact\<lparr>aProfile := ''x|5'', RatePerSec := 6, DurationSec := 7, LedgerSHA := ''s''\<rparr>"
  let ?b = "sampleArtefact\<lparr>aProfile := ''x'', RatePerSec := 5, DurationSec := 6, LedgerSHA := ''7|s''\<rparr>"
  have "show_d 5 = ''5''" "show_d 7 = ''7''" by code_simp+
  then have "fixedKey js ?a = fixedKey js ?b" by (simp add: fixedKey_def sampleArtefact_def)
  then show ?thesis by (intro exI [of _ ?a] exI [of _ ?b]) simp
qed

text \<open>
  The figures of a row: over the runs of a configuration the bounds are the least and the greatest
  value, the median is one of the values with at most half of them below and at most half above,
  and the invariant held if it did in every run.
\<close>

theorem row_figures:
  assumes "runs \<noteq> []" "medianMinMax (map get runs) = (med, lo, hi)"
  shows "DupMin (rowOf c runs) = Min (Duplicated ` set runs) \<and> DupMax (rowOf c runs) = Max (Duplicated ` set runs) \<and>
    LostMin (rowOf c runs) = Min (Lost ` set runs) \<and> LostMax (rowOf c runs) = Max (Lost ` set runs) \<and>
    (rInvariantHeld (rowOf c runs) \<longleftrightarrow> (\<forall>r \<in> set runs. InvariantHeld r)) \<and>
    lo = Min (get ` set runs) \<and> hi = Max (get ` set runs) \<and> med \<in> get ` set runs \<and>
    2 * length (filter (\<lambda>r. get r < med) runs) \<le> length runs \<and> 2 * length (filter (\<lambda>r. med < get r) runs) \<le> length runs"
proof -
  have "insert (Duplicated (hd runs)) (Duplicated ` set runs) = Duplicated ` set runs"
    "insert (Lost (hd runs)) (Lost ` set runs) = Lost ` set runs" using assms(1) by auto
  then have "DupMin (rowOf c runs) = Min (Duplicated ` set runs)" "DupMax (rowOf c runs) = Max (Duplicated ` set runs)"
    "LostMin (rowOf c runs) = Min (Lost ` set runs)" "LostMax (rowOf c runs) = Max (Lost ` set runs)"
    by (simp_all add: rowOf_def Let_def foldRuns_extremes)
  moreover have "rInvariantHeld (rowOf c runs) \<longleftrightarrow> (\<forall>r \<in> set runs. InvariantHeld r)"
    by (simp add: rowOf_def Let_def split_beta list_all_iff)
  ultimately show ?thesis
    using medianMinMax_spec [OF assms(2)] assms(1) by (simp add: filter_map o_def)
qed

theorem row_figures_witness:
  "\<exists>med lo hi. medianMinMax (map Lost [sampleArtefact, sampleArtefact\<lparr>Lost := 9\<rparr>, sampleArtefact\<lparr>Lost := 4\<rparr>]) = (med, lo, hi) \<and>
     hi = Max (Lost ` set [sampleArtefact, sampleArtefact\<lparr>Lost := 9\<rparr>, sampleArtefact\<lparr>Lost := 4\<rparr>]) \<and>
     LostMax (rowOf ''C'' [sampleArtefact, sampleArtefact\<lparr>Lost := 9\<rparr>, sampleArtefact\<lparr>Lost := 4\<rparr>]) = hi"
proof -
  let ?runs = "[sampleArtefact, sampleArtefact\<lparr>Lost := 9\<rparr>, sampleArtefact\<lparr>Lost := 4\<rparr>]"
  have ne: "?runs \<noteq> []" by simp
  obtain med lo hi where m: "medianMinMax (map Lost ?runs) = (med, lo, hi)" by (metis surj_pair)
  from row_figures [OF ne m, of "''C''"] m show ?thesis by (intro exI [of _ med] exI [of _ lo] exI [of _ hi]) simp
qed

text \<open>
  What is written is read back: loading a directory that holds the artefacts written to it, under
  different run ids, gives exactly those artefacts, ordered by configuration and run id.
\<close>

theorem Write_Load_roundtrip:
  assumes "codec_ok js (set as)" "distinct (map RunID as)"
  shows "\<exists>bs. abl_Load js (walk (foldr (Write js) as Map.empty)) = Inr bs \<and> set bs = set as \<and> distinct bs \<and>
    sorted (map (\<lambda>a. (Config a, RunID a)) bs)"
proof -
  let ?files = "foldr (Write js) as Map.empty" and ?art = "\<lambda>run. the (find (\<lambda>a. RunID a = run) as)"
  have found: "find (\<lambda>b. RunID b = RunID a) as = Some a" if "a \<in> set as" for a
    using that assms(2) by (induction as) auto
  have dom: "set (sorted_list_of_set (dom ?files)) = RunID ` set as" by (simp add: Write_dom)
  have "loadWalk js (walk ?files) = Inr (map ?art (sorted_list_of_set (dom ?files)))"
    unfolding walk_def using dom found
    by (intro loadWalk_files [OF assms(1)]) (auto simp: Write_all [OF assms(2)])
  then have L: "abl_Load js (walk ?files) =
      Inr (sort_key (\<lambda>a. (Config a, RunID a)) (map ?art (sorted_list_of_set (dom ?files))))" by (simp add: abl_Load_def)
  have "inj_on ?art (RunID ` set as)" using found by (auto simp: inj_on_def)
  then have "distinct (map ?art (sorted_list_of_set (dom ?files)))" by (simp add: distinct_map dom Write_dom)
  moreover have "?art ` RunID ` set as = set as" using found by (force simp: image_image)
  ultimately show ?thesis unfolding L using dom by (intro exI [of _ "sort_key _ _"]) auto
qed

theorem Write_Load_roundtrip_witness:
  "\<exists>bs. abl_Load sampleCodec (walk (foldr (Write sampleCodec)
      [sampleArtefact, sampleArtefact\<lparr>RunID := ''steady-A-1'', Config := ''A''\<rparr>] Map.empty)) = Inr bs \<and>
    set bs = {sampleArtefact, sampleArtefact\<lparr>RunID := ''steady-A-1'', Config := ''A''\<rparr>}"
proof -
  let ?as = "[sampleArtefact, sampleArtefact\<lparr>RunID := ''steady-A-1'', Config := ''A''\<rparr>]"
  have "codec_ok sampleCodec (set ?as)" "distinct (map RunID ?as)"
    by (simp_all add: codec_ok_def sampleCodec_def sampleArtefact_def)
  from Write_Load_roundtrip [OF this] show ?thesis by auto
qed

end
