(* ===== verification/Experiment.thy ===== *)
theory Experiment
  imports Artefact Delivery
begin

text \<open>
  \<^verbatim>\<open>internal/harness/ablation/run.go\<close> and \<^verbatim>\<open>net.go\<close>: the experiment and its defaults, the driver that
  produces movements at a fixed rate, the wait for the consumer to drain, the measurements, and the
  names that keep runs apart. The clock, the tickers and the answers of other processes are lists
  of what each turn of a loop saw; a loop whose list ends is still waiting.
\<close>

section \<open>Clusters and experiments\<close>

record RealCluster =
  Addrs :: "string list"
  Ver :: string
  ReplicationFactor :: int

definition real_Replicas :: "RealCluster \<Rightarrow> int" where
  "real_Replicas c = (if ReplicationFactor c > 0 then ReplicationFactor c else 3)"

record Spec =
  sConfigs :: "Mode list"
  sRuns :: int
  sSeed :: int
  sProfile :: string
  sRate :: int
  sDuration :: int
  sSchedule :: "Event list"
  AdminDSN :: string
  LedgerBinary :: string
  OutDir :: string
  sLedgerSHA :: string
  sAccounts :: int

definition setDefaults :: "Spec \<Rightarrow> Spec" where
  "setDefaults s0 =
     (let s1 = (if sRuns s0 \<le> 0 then s0\<lparr>sRuns := int MinRuns\<rparr> else s0);
          s2 = (if sConfigs s1 = [] then s1\<lparr>sConfigs := [AtMostOnce, AtLeastOnce, InboxDedup]\<rparr> else s1);
          s3 = (if sProfile s2 = [] then s2\<lparr>sProfile := ''steady''\<rparr> else s2);
          s4 = (if sRate s3 \<le> 0 then s3\<lparr>sRate := 200\<rparr> else s3);
          s5 = (if sDuration s4 \<le> 0 then s4\<lparr>sDuration := 30 * 1000000000\<rparr> else s4);
          s6 = (if sAccounts s5 \<le> 0 then s5\<lparr>sAccounts := 20\<rparr> else s5)
      in (if OutDir s6 = [] then s6\<lparr>OutDir := ''reports/runs''\<rparr> else s6))"

datatype spec_error =
    ErrRuns int
  | ErrNoDSN
  | ErrNoBinary
  | ErrBinary string
  | ErrNotAMode Mode

text \<open>\<open>stat\<close> is \<^verbatim>\<open>os.Stat\<close>: the error for a path, if any.\<close>

definition spec_validate :: "(string \<Rightarrow> string option) \<Rightarrow> Spec \<Rightarrow> spec_error option" where
  "spec_validate stt s =
     (if sRuns s < int MinRuns then Some (ErrRuns (sRuns s))
      else if AdminDSN s = [] then Some ErrNoDSN
      else if LedgerBinary s = [] then Some ErrNoBinary
      else case stt (LedgerBinary s) of Some e \<Rightarrow> Some (ErrBinary e)
      | None \<Rightarrow> (case find (\<lambda>c. \<not> Valid c) (sConfigs s) of Some c \<Rightarrow> Some (ErrNotAMode c) | None \<Rightarrow> None))"

section \<open>Names\<close>

definition ascii_lower :: "char \<Rightarrow> char" where
  "ascii_lower c = (let n = (of_char c :: nat) in if 65 \<le> n \<and> n \<le> 90 then char_of (n + 32) else c)"

definition sweepID :: "int \<Rightarrow> string" where
  "sweepID unix = ''s'' @ show_d unix"

definition runID :: "string \<Rightarrow> Mode \<Rightarrow> nat \<Rightarrow> string" where
  "runID profile m i = profile @ ''-'' @ m @ ''-'' @ show_d (int i + 1)"

definition groupName :: "string \<Rightarrow> string \<Rightarrow> string" where
  "groupName sweep run = ''sb-'' @ sweep @ ''-'' @ map ascii_lower run"

definition topicName :: "string \<Rightarrow> string \<Rightarrow> string" where
  "topicName sweep run = ''shadowbook.movements.'' @ sweep @ ''-'' @ map ascii_lower run @ ''.v1''"

definition dbChar :: "char \<Rightarrow> char" where
  "dbChar c = (let n = (of_char c :: nat) in
     if 97 \<le> n \<and> n \<le> 122 \<or> 48 \<le> n \<and> n \<le> 57 then c
     else if 65 \<le> n \<and> n \<le> 90 then char_of (n + 32) else CHR ''_'')"

definition databaseName :: "string \<Rightarrow> string" where
  "databaseName run = ''sb_ablate_'' @ map dbChar run"

definition quoteIdent :: "string \<Rightarrow> string" where
  "quoteIdent s = CHR 0x22 # concat (map (\<lambda>c. if c = CHR 0x22 then [c, c] else [c]) s) @ [CHR 0x22]"

section \<open>Provisioning\<close>

text \<open>The admin database: opening it, and running a statement; \<^verbatim>\<open>url.Parse\<close> with the path replaced.\<close>

record 'a admin =
  openAdmin :: "'a \<Rightarrow> string option"
  execAdmin :: "'a \<Rightarrow> string \<Rightarrow> string option \<times> 'a"
  withPath :: "string \<Rightarrow> string \<Rightarrow> string option"

definition provision :: "'a admin \<Rightarrow> string \<Rightarrow> string \<Rightarrow> 'a \<Rightarrow> (string + string) \<times> 'a" where
  "provision ad adminDSN run w =
     (let name = databaseName run in
      case openAdmin ad w of Some e \<Rightarrow> (Inl (''ablation: open admin database: '' @ e), w) | None \<Rightarrow>
      let (e1, w1) = execAdmin ad w (''DROP DATABASE IF EXISTS '' @ quoteIdent name) in
      case e1 of Some e \<Rightarrow> (Inl (''ablation: drop stale run database: '' @ e), w1) | None \<Rightarrow>
      let (e2, w2) = execAdmin ad w1 (''CREATE DATABASE '' @ quoteIdent name) in
      case e2 of Some e \<Rightarrow> (Inl (''ablation: create run database: '' @ e), w2) | None \<Rightarrow>
      case withPath ad adminDSN (''/'' @ name) of None \<Rightarrow> (Inl ''ablation: parse dsn'', w2) | Some dsn \<Rightarrow> (Inr dsn, w2))"

text \<open>The cleanup \<^verbatim>\<open>provision\<close> returns; its errors are dropped, and a bound parameter follows its statement.\<close>

definition cleanup :: "'a admin \<Rightarrow> string \<Rightarrow> 'a \<Rightarrow> 'a" where
  "cleanup ad name w =
     (case openAdmin ad w of Some e \<Rightarrow> w | None \<Rightarrow>
      let (_, w1) = execAdmin ad w (''SELECT pg_terminate_backend(pid) FROM pg_stat_activity WHERE datname = $1, '' @ name);
          (_, w2) = execAdmin ad w1 (''DROP DATABASE IF EXISTS '' @ quoteIdent name) in w2)"

section \<open>Starting the ledger\<close>

text \<open>A turn of \<^verbatim>\<open>waitHealthy\<close>: the time, the request that could not be built, the answer, the end of the context.\<close>

record healthTurn =
  htNow :: int
  htBuild :: "string option"
  htAnswer :: "string + int"
  htDone :: "string option"

datatype health_error = HealthBuild string | HealthCtx string | HealthNever "(string + int) option"

fun healthLoop :: "int \<Rightarrow> (string + int) option \<Rightarrow> healthTurn list \<Rightarrow> health_error option option" where
  "healthLoop deadline lastErr [] = None"
| "healthLoop deadline lastErr (t # ts) =
     (if \<not> htNow t < deadline then Some (Some (HealthNever lastErr))
      else case htBuild t of Some e \<Rightarrow> Some (Some (HealthBuild e)) | None \<Rightarrow>
      if htAnswer t = Inr 200 then Some None
      else case htDone t of Some e \<Rightarrow> Some (Some (HealthCtx e))
      | None \<Rightarrow> healthLoop deadline (Some (htAnswer t)) ts)"

definition waitHealthy :: "int \<Rightarrow> int \<Rightarrow> healthTurn list \<Rightarrow> health_error option option" where
  "waitHealthy start patience turns = healthLoop (start + patience) None turns"

definition joinComma :: "string list \<Rightarrow> string" where
  "joinComma ss = (case ss of [] \<Rightarrow> [] | s # ts \<Rightarrow> s @ concat (map (\<lambda>t. '','' @ t) ts))"

definition ledgerArgs :: "string \<Rightarrow> Mode \<Rightarrow> int \<Rightarrow> string list \<Rightarrow> string \<Rightarrow> string \<Rightarrow> string list" where
  "ledgerArgs dsn m port seeds grp topic =
     [''-dsn'', dsn, ''-mode'', m, ''-addr'', ''127.0.0.1:'' @ show_d port, ''-brokers'', joinComma seeds, ''-group'', grp, ''-topic'', topic]"

datatype ledger_error = LedgerPort string | LedgerStart string | LedgerHealth health_error

text \<open>The processes running: starting one, and the stop that kills it.\<close>

definition startLedger :: "string + int \<Rightarrow> (string list \<Rightarrow> string option) \<Rightarrow> int \<Rightarrow> healthTurn list \<Rightarrow> string \<Rightarrow> Mode \<Rightarrow> string list \<Rightarrow>
    string \<Rightarrow> string \<Rightarrow> string list list \<Rightarrow> ((ledger_error + string list) \<times> string list list) option" where
  "startLedger port start now turns dsn m seeds grp topic running =
     (case port of Inl e \<Rightarrow> Some (Inl (LedgerPort e), running) | Inr p \<Rightarrow>
      let args = ledgerArgs dsn m p seeds grp topic in
      case start args of Some e \<Rightarrow> Some (Inl (LedgerStart e), running) | None \<Rightarrow>
      case waitHealthy now (30 * 1000000000) turns of None \<Rightarrow> None
      | Some (Some e) \<Rightarrow> Some (Inl (LedgerHealth e), running)
      | Some None \<Rightarrow> Some (Inr args, args # running))"

section \<open>Accounts\<close>

definition seedNamespace :: uuid where
  "seedNamespace = 0x6b3f6a1e3f4a4a1e9b2d2a7c1e0d5f10"

definition seedAccountID :: "ext \<Rightarrow> nat \<Rightarrow> uuid" where
  "seedAccountID x i = newSHA1 x seedNamespace (''ablation/account/'' @ show_d (int i))"

fun seedLoop :: "ext \<Rightarrow> db \<Rightarrow> nat list \<Rightarrow> uuid list \<Rightarrow> (store_error + uuid list) \<times> db" where
  "seedLoop x d [] ids = (Inr ids, d)"
| "seedLoop x d (i # is) ids =
     attempt (InsertAccount d \<lparr>aId = seedAccountID x i, aProductCode = ''CHK-01'', aCurrency = ''USD'', aOpenedOn = Date 2018 6 1\<rparr>)
       (\<lambda>e d'. if IsUniqueViolation e [] then seedLoop x d' is (ids @ [seedAccountID x i]) else (Inl e, d'))
       (\<lambda>_ d'. seedLoop x d' is (ids @ [seedAccountID x i]))"

definition seedAccounts :: "ext \<Rightarrow> db \<Rightarrow> int \<Rightarrow> (store_error + uuid list) \<times> db" where
  "seedAccounts x d n =
     (let (r, d') = seedLoop x d [0..<nat n] [] in
      (case r of Inl e \<Rightarrow> Inl e | Inr ids \<Rightarrow> Inr (sort_key uuid_String ids), d'))"

section \<open>The driver\<close>

definition driveBatch :: int where
  "driveBatch = 50"

definition Seconds :: "int \<Rightarrow> rat" where
  "Seconds d = fadd (fromInt64 (quot64 d 1000000000)) (fdiv (fromInt64 (rem64 d 1000000000)) 1000000000)"

definition driveTotal :: "Spec \<Rightarrow> int" where
  "driveTotal s = mul64 (sRate s) (toInt64 (Seconds (sDuration s)))"

definition driveInterval :: "Spec \<Rightarrow> int" where
  "driveInterval s = toInt64 (fmul (fdiv 1000000000 (fromInt64 (sRate s))) (of_int driveBatch))"

definition messageID :: "int \<Rightarrow> int \<Rightarrow> string" where
  "messageID seed sq = ''mv-'' @ show_d seed @ ''-'' @ show_d sq"

definition driveDate :: BusinessDate where
  "driveDate = Date 2028 2 29"

definition driveEvent :: "Spec \<Rightarrow> uuid list \<Rightarrow> int \<Rightarrow> MovementEvent" where
  "driveEvent s accs sq = \<lparr>mvMessageId = messageID (sSeed s) sq,
     mvAccountId = uuid_String (accs ! nat (sq mod int (length accs))),
     mvMinor = 1000 + sq mod 9000, mvCurrency = ''USD'',
     mvBusinessDate = BusinessDate_String driveDate, mvValueDate = BusinessDate_String driveDate,
     mvPostedAt = RFC3339Nano (bd_time (Date 2028 2 29) + 12 * 3600 * 1000000000), mvKind = ''transfer''\<rparr>"

definition driveRecord :: "Spec \<Rightarrow> uuid list \<Rightarrow> string \<Rightarrow> int \<Rightarrow> string \<Rightarrow> Record" where
  "driveRecord s accs topic sq value = \<lparr>kTopic = topic, kKey = uuid_String (accs ! nat (sq mod int (length accs))),
     kValue = value, kPartition = 0, kOffset = 0\<rparr>"

fun driveRecords :: "(MovementEvent \<Rightarrow> string option) \<Rightarrow> Spec \<Rightarrow> uuid list \<Rightarrow> string \<Rightarrow> int list \<Rightarrow> Record list option" where
  "driveRecords mvMarshal s accs topic [] = Some []"
| "driveRecords mvMarshal s accs topic (sq # sqs) =
     (case mvMarshal (driveEvent s accs sq) of None \<Rightarrow> None | Some value \<Rightarrow>
      (case driveRecords mvMarshal s accs topic sqs of None \<Rightarrow> None | Some rs \<Rightarrow>
        Some (driveRecord s accs topic sq value # rs)))"

text \<open>What a turn of the loop sees: the end of the context, or a tick, the time, and the context after the produce.\<close>

datatype driveTurn = DriveCancel | DriveTick (driveNow: int) (ctxGone: bool)

datatype drive_error = ErrMarshal | ErrFirstProduce broker_error

text \<open>
  The loop from \<open>sent\<close> on: the records sent, the produce time of every sequence number given to the
  producer, and the error.
\<close>

fun driveLoop :: "('b \<Rightarrow> Record list \<Rightarrow> (broker_error + unit) \<times> 'b) \<Rightarrow> (MovementEvent \<Rightarrow> string option) \<Rightarrow> Spec \<Rightarrow>
    uuid list \<Rightarrow> string \<Rightarrow> int \<Rightarrow> driveTurn list \<Rightarrow> int \<Rightarrow> (int \<rightharpoonup> int) \<Rightarrow> 'b \<Rightarrow>
    ((int \<times> (int \<rightharpoonup> int) \<times> drive_error option) \<times> 'b) option" where
  "driveLoop produce pm s accs topic tot turns sent sentAt b =
     (if sent \<ge> tot then Some ((sent, sentAt, None), b)
      else case turns of
        [] \<Rightarrow> None
      | DriveCancel # _ \<Rightarrow> Some ((sent, sentAt, None), b)
      | DriveTick now gone # turns' \<Rightarrow>
          let n = min driveBatch (tot - sent) in
          case driveRecords pm s accs topic [sent..sent + n - 1] of
            None \<Rightarrow> Some ((sent, sentAt, Some ErrMarshal), b)
          | Some recs \<Rightarrow>
              let sentAt' = (\<lambda>i. if sent \<le> i \<and> i < sent + n then Some now else sentAt i) in
              (case produce b recs of
                (Inl e, b') \<Rightarrow>
                  if gone then Some ((sent, sentAt', None), b')
                  else if sent = 0 then Some ((0, Map.empty, Some (ErrFirstProduce e)), b')
                  else Some ((sent, sentAt', None), b')
              | (Inr _, b') \<Rightarrow> driveLoop produce pm s accs topic tot turns' (sent + n) sentAt' b'))"

declare driveLoop.simps [simp del]

definition drive :: "('b \<Rightarrow> Record list \<Rightarrow> (broker_error + unit) \<times> 'b) \<Rightarrow> (MovementEvent \<Rightarrow> string option) \<Rightarrow> Spec \<Rightarrow>
    uuid list \<Rightarrow> string \<Rightarrow> driveTurn list \<Rightarrow> 'b \<Rightarrow> ((int \<times> (int \<rightharpoonup> int) \<times> drive_error option) \<times> 'b) option" where
  "drive produce pm s accs topic turns b =
     (if driveTotal s \<le> 0 then Some ((0, Map.empty, None), b)
      else driveLoop produce pm s accs topic (driveTotal s) turns 0 Map.empty b)"

section \<open>Draining\<close>

definition appliedCount :: "db \<Rightarrow> int" where
  "appliedCount d = int (length (filter (\<lambda>p. pPrincipal p = ''consumer'') (postings d)))"

text \<open>
  What a turn sees: the time at the loop test, the end of the context, the count of postings, the
  times read after it, and the group's lag.
\<close>

record drainTurn =
  dtNow :: int
  dtDone :: bool
  dtCount :: "string + int"
  dtChanged :: int
  dtLag :: "broker_error + int"
  dtThen :: int

datatype drain_error = ErrDrainCtx | ErrCount string | ErrStillApplying

definition drainStall :: int where
  "drainStall = 30 * 1000000000"

definition drainCeiling :: int where
  "drainCeiling = 20 * 60 * 1000000000"

fun drainLoop :: "int \<Rightarrow> int \<Rightarrow> int \<Rightarrow> int \<Rightarrow> drainTurn list \<Rightarrow> (bool \<times> drain_error option) option" where
  "drainLoop sent deadline prev lastChange [] = None"
| "drainLoop sent deadline prev lastChange (t # ts) =
     (if \<not> dtNow t < deadline then Some (False, Some ErrStillApplying)
      else if dtDone t then Some (False, Some ErrDrainCtx)
      else case dtCount t of Inl e \<Rightarrow> Some (False, Some (ErrCount e))
      | Inr n \<Rightarrow>
          let (prev', lastChange') = (if n \<noteq> prev then (n, dtChanged t) else (prev, lastChange)) in
          if dtLag t = Inr 0 \<and> n > 0 then Some (True, None)
          else if n \<ge> sent then Some (True, None)
          else if time_Sub (dtThen t) lastChange' \<ge> drainStall then Some (True, None)
          else drainLoop sent deadline prev' lastChange' ts)"

definition waitForDrain :: "int \<Rightarrow> int \<Rightarrow> int \<Rightarrow> drainTurn list \<Rightarrow> (bool \<times> drain_error option) option" where
  "waitForDrain sent start0 start1 turns = drainLoop sent (start0 + drainCeiling) 0 start1 turns"

section \<open>Measurements\<close>

definition minInt64 :: "int \<Rightarrow> int \<Rightarrow> int" where
  "minInt64 a b = (if a < b then a else b)"

definition maxInt64 :: "int \<Rightarrow> int \<Rightarrow> int" where
  "maxInt64 a b = (if a > b then a else b)"

datatype measure_error = ErrContaminated int int | ErrInvariant store_error

text \<open>Every statement reads the database of its own moment: \<open>d1\<close>, \<open>d2\<close> and \<open>d3\<close>.\<close>

definition measure_run :: "db \<Rightarrow> db \<Rightarrow> db \<Rightarrow> Artefact \<Rightarrow> measure_error + Artefact" where
  "measure_run d1 d2 d3 art =
     (let inb = int (length (inbox d1)); pst = appliedCount d2 in
      if inb > Sent art \<and> Sent art > 0 then Inl (ErrContaminated inb (Sent art))
      else let art1 =
            (if Config art = InboxDedup \<or> Config art = Transactional
             then art\<lparr>ExactCounts := True, aApplied := inb, Duplicated := maxInt64 0 (sub64 pst inb),
                    Lost := maxInt64 0 (sub64 (Sent art) inb)\<rparr>
             else art\<lparr>ExactCounts := False, aApplied := minInt64 pst (Sent art),
                    Duplicated := maxInt64 0 (sub64 pst (Sent art)), Lost := maxInt64 0 (sub64 (Sent art) pst)\<rparr>);
          art2 = art1\<lparr>Effects := pst\<rparr> in
        case GlobalInvariant d3 of Inl e \<Rightarrow> Inl (ErrInvariant e)
        | Inr drift \<Rightarrow> Inr (art2\<lparr>InvariantHeld :=
            list_all (\<lambda>e. drift (currency (eAmount e)) = Some 0) (entries d3)\<rparr>))"

definition scan_space :: "char \<Rightarrow> bool" where
  "scan_space c \<longleftrightarrow> c \<in> {CHR '' '', CHR 0x09, CHR 0x0B, CHR 0x0C, CHR 0x0D}"

text \<open>\<^verbatim>\<open>fmt.Sscanf\<close> with \<^verbatim>\<open>%d\<close>: spaces, a sign, digits up to the first other character.\<close>

definition scan_d :: "string \<Rightarrow> int option" where
  "scan_d s0 =
     (let s = dropWhile scan_space s0;
          neg = (s \<noteq> [] \<and> hd s = CHR ''-'');
          s1 = (if s \<noteq> [] \<and> (hd s = CHR ''-'' \<or> hd s = CHR ''+'') then tl s else s);
          ds = takeWhile isDigit s1;
          n = (if neg then - numval ds else numval ds) in
      if ds = [] \<or> \<not> in64 n then None else Some n)"

definition sequenceOf :: "string \<Rightarrow> int option" where
  "sequenceOf msg =
     (let suffix = rev (takeWhile (\<lambda>c. c \<noteq> CHR ''-'') (rev msg)) in
      if CHR ''-'' \<notin> set msg \<or> suffix = [] then None else scan_d suffix)"

definition percentile :: "int list \<Rightarrow> nat \<Rightarrow> int" where
  "percentile sorted_vs p =
     (if sorted_vs = [] then 0
      else let n = length sorted_vs;
               i0 = (p * n + 99) div 100;
               i1 = (if i0 < 1 then 1 else i0);
               i2 = (if i1 > n then n else i1)
           in sorted_vs ! (i2 - 1))"

datatype latency_error = ErrNoTimestamps | ErrNoneMatched

text \<open>The rows of the inbox with their \<^verbatim>\<open>applied_at\<close>.\<close>

definition latencies :: "int \<Rightarrow> (int \<rightharpoonup> int) \<Rightarrow> (string \<times> int) list \<Rightarrow> int list" where
  "latencies tot sentAt rows =
     concat (map (\<lambda>(msg, appliedAt).
       case sequenceOf msg of None \<Rightarrow> [] | Some sq \<Rightarrow>
       if sq < 0 \<or> sq \<ge> tot then [] else
       case sentAt sq of None \<Rightarrow> [] | Some pt \<Rightarrow>
       let d = time_Sub appliedAt pt in
       if d < 0 then [] else [quot64 d 1000]) rows)"

definition measureLatency :: "int \<Rightarrow> (int \<rightharpoonup> int) \<Rightarrow> (string \<times> int) list \<Rightarrow> Artefact \<Rightarrow> latency_error option \<times> Artefact" where
  "measureLatency tot sentAt rows art =
     (if Config art \<noteq> InboxDedup \<and> Config art \<noteq> Transactional then (None, art)
      else if tot = 0 then (Some ErrNoTimestamps, art)
      else let micros = latencies tot sentAt rows in
        if micros = [] then (Some ErrNoneMatched, art)
        else let s = sort micros in
          (None, art\<lparr>P50 := percentile s 50, P95 := percentile s 95, P99 := percentile s 99\<rparr>))"

end
