(* ===== verification/Measure.thy ===== *)
theory Measure
  imports Experiment
begin

text \<open>
  What the experiment's measurements mean: the driver has sent exactly the movements it counts, a
  message id gives back its sequence number, the wait for the consumer ends, the percentiles are
  nearest ranks, and after the sessions of a deduplicating consumer the figures are exact.
\<close>

section \<open>The counts of the database\<close>

lemma history_preserves:
  assumes keep: "\<And>fresh w d rec res d'. P d \<Longrightarrow> apply_movement x cx m fresh w d rec = (res, d') \<Longrightarrow> P d'"
    and "P d0" "history br durable below comm x cx m L d0 S d"
  shows "P d"
  using assms(3)
proof (induction rule: history.induct)
  case (session S d b c turns k err d' b' k')
  with Run_preserves [of P x cx c d br turns b k err d' b' k'] keep show ?case by blast
qed (rule assms(2))

lemma appliedCount_booked: "appliedCount (booked x m pid v rec d) = appliedCount d + 1"
  by (simp add: appliedCount_def storedPosting_def envelope_def movementRequest_def)

lemma apply_counts:
  assumes "cext_ok cx" "dedups m" "appliedCount d = int (length (inbox d))"
    and "apply_movement x cx m fresh w d rec = (res, d')"
  shows "appliedCount d' = int (length (inbox d'))"
  using assms(1,4)
proof (cases rule: apply_cases)
  case (error e)
  with assms(3) unchanged_tables [of d d'] show ?thesis by (simp add: appliedCount_def)
next
  case (applied v)
  with assms(2,3) show ?thesis by (simp add: appliedCount_booked)
qed (use assms(3) in simp)

lemma measured_invariant:
  assumes "\<forall>cur. currencySum (entries d) cur = 0" "GlobalInvariant d = Inr drift"
  shows "list_all (\<lambda>e. drift (currency (eAmount e)) = Some 0) (entries d)"
proof -
  from scanSums_zero [OF assms(1), of "remdups (map (\<lambda>e. currency (eAmount e)) (entries d))" Map.empty] assms(2)
  show ?thesis by (auto simp: GlobalInvariant_def list_all_iff)
qed

lemma GlobalInvariant_returns:
  assumes "\<forall>cur. currencySum (entries d) cur = 0"
  shows "\<exists>drift. GlobalInvariant d = Inr drift"
  using scanSums_zero [OF assms, of "remdups (map (\<lambda>e. currency (eAmount e)) (entries d))" Map.empty]
  by (auto simp: GlobalInvariant_def)

section \<open>The driver\<close>

definition driveContent :: "(MovementEvent \<Rightarrow> string option) \<Rightarrow> Spec \<Rightarrow> uuid list \<Rightarrow> int \<Rightarrow> string \<times> string" where
  "driveContent pm s accs sq = (uuid_String (accs ! nat (sq mod int (length accs))), the (pm (driveEvent s accs sq)))"

lemma driveRecords_content:
  "driveRecords pm s accs topic sqs = Some recs \<Longrightarrow>
     map content recs = map (driveContent pm s accs) sqs \<and> (\<forall>r \<in> set recs. kTopic r = topic)"
proof (induction sqs arbitrary: recs)
  case (Cons sq sqs)
  then show ?case
    by (auto simp: content_def driveRecord_def driveContent_def split: option.splits)
qed simp

lemma driveRecords_total:
  "(\<And>sq. sq \<in> set sqs \<Longrightarrow> pm (driveEvent s accs sq) \<noteq> None) \<Longrightarrow> \<exists>recs. driveRecords pm s accs topic sqs = Some recs"
  by (induction sqs) fastforce+

lemma take_upto_int: "take k [i..i + int n - 1] = [i..i + int (min k n) - 1]"
  by (rule nth_equalityI) auto

lemma driveLoop_step:
  assumes "driveLoop produce pm s accs topic tot turns sent sentAt b = Some ((sent', sentAt', err), b')" "sent < tot"
  obtains (stopped) "sent' = sent" "b' = b"
  | (failed) recs e where "driveRecords pm s accs topic [sent..sent + min driveBatch (tot - sent) - 1] = Some recs"
      "produce b recs = (Inl e, b')" "sent' = sent"
  | (continued) now gone turns' recs b1 where "turns = DriveTick now gone # turns'"
      "driveRecords pm s accs topic [sent..sent + min driveBatch (tot - sent) - 1] = Some recs"
      "produce b recs = (Inr (), b1)"
      "driveLoop produce pm s accs topic tot turns' (sent + min driveBatch (tot - sent))
         (\<lambda>i. if sent \<le> i \<and> i < sent + min driveBatch (tot - sent) then Some now else sentAt i) b1 = Some ((sent', sentAt', err), b')"
proof -
  note D = assms(1) [unfolded driveLoop.simps [of produce pm s accs topic tot turns sent sentAt b]]
  show thesis
  proof (cases turns)
    case Nil
    with D assms(2) show thesis by simp
  next
    case (Cons u turns')
    show thesis
    proof (cases u)
      case DriveCancel
      with D assms(2) Cons stopped show thesis by simp
    next
      case (DriveTick now gone)
      show thesis
      proof (cases "driveRecords pm s accs topic [sent..sent + min driveBatch (tot - sent) - 1]")
        case None
        with D assms(2) Cons DriveTick stopped show thesis by (simp add: Let_def)
      next
        case (Some recs)
        obtain r b1 where p: "produce b recs = (r, b1)" by force
        show thesis
        proof (cases r)
          case (Inl e)
          with D assms(2) Cons DriveTick Some p have "b' = b1" "sent' = sent" by (auto simp: Let_def split: if_splits)
          with failed [OF Some] p Inl show thesis by simp
        next
          case (Inr v)
          with D assms(2) Cons DriveTick Some p continued [of now gone turns' recs b1] show thesis by (simp add: Let_def)
        qed
      qed
    qed
  qed
qed

context producer
begin

text \<open>Whatever stops the loop, the topic holds the movements counted, in order, and at most a prefix of one more batch.\<close>

lemma driveLoop_durable:
  "driveLoop produce pm s accs topic tot turns sent sentAt b = Some ((sent', sentAt', err), b') \<Longrightarrow> sent \<le> tot \<Longrightarrow>
   \<exists>k. sent \<le> sent' \<and> sent' \<le> tot \<and> k \<le> min driveBatch (tot - sent') \<and> 0 \<le> k \<and> (sent' = tot \<longrightarrow> k = 0) \<and>
     map content (durable b' topic) = map content (durable b topic) @ map (driveContent pm s accs) [sent..sent' + k - 1]"
proof (induction "length turns" arbitrary: turns sent sentAt b)
  case (0 turns)
  then show ?case
    by (subst (asm) driveLoop.simps) (auto intro!: exI [of _ 0] simp: driveBatch_def split: if_splits)
next
  case (Suc n turns)
  show ?case
  proof (cases "sent < tot")
    case False
    with Suc.prems have "sent' = sent" "b' = b" by (simp_all add: driveLoop.simps)
    with Suc.prems(2) False show ?thesis by (intro exI [of _ 0]) (simp add: driveBatch_def)
  next
    case True
    let ?n = "min driveBatch (tot - sent)"
    have n: "0 < ?n" "sent + ?n \<le> tot" using True by (auto simp: driveBatch_def)
    from Suc.prems(1) True show ?thesis
    proof (cases rule: driveLoop_step)
      case stopped
      with True show ?thesis by (intro exI [of _ 0]) (simp add: driveBatch_def)
    next
      case (failed recs e)
      note R = driveRecords_content [OF failed(1)]
      from refused [OF failed(2)] R obtain k where
        k: "map content (durable b' topic) = map content (durable b topic) @ map content (take k recs)" by blast
      have "map content (take k recs) = map (driveContent pm s accs) (take k [sent..sent + int (nat ?n) - 1])"
        using R n(1) by (simp add: take_map [symmetric])
      also have "take k [sent..sent + int (nat ?n) - 1] = [sent..sent + int (min k (nat ?n)) - 1]"
        by (rule take_upto_int)
      finally show ?thesis
        using k failed(3) n True by (intro exI [of _ "int (min k (nat ?n))"]) auto
    next
      case (continued now gone turns' recs b1)
      note R = driveRecords_content [OF continued(2)]
      have "n = length turns'" using Suc.hyps(2) continued(1) by simp
      from Suc.hyps(1) [OF this continued(4) n(2)] obtain k where k: "sent + ?n \<le> sent'" "sent' \<le> tot"
        "k \<le> min driveBatch (tot - sent')" "0 \<le> k" "sent' = tot \<longrightarrow> k = 0"
        "map content (durable b' topic) = map content (durable b1 topic) @ map (driveContent pm s accs) [sent + ?n..sent' + k - 1]"
        by blast
      from acknowledged [OF continued(3)] R have
        "map content (durable b1 topic) = map content (durable b topic) @ map (driveContent pm s accs) [sent..sent + ?n - 1]" by simp
      moreover have "[sent..sent' + k - 1] = [sent..sent + ?n - 1] @ [sent + ?n..sent' + k - 1]"
        using n k(1,4) upto_split2 [of sent "sent + ?n - 1" "sent' + k - 1"] by simp
      moreover have "sent \<le> sent'" using k(1) n(1) by linarith
      ultimately show ?thesis using k by (intro exI [of _ k]) simp
    qed
  qed
qed

lemma drive_durable:
  assumes "drive produce pm s accs topic turns b = Some ((snt, sentAt, err), b')"
  obtains k where "0 \<le> snt" "snt = 0 \<or> snt \<le> driveTotal s" "0 \<le> k" "k \<le> driveBatch"
    "snt = driveTotal s \<longrightarrow> k = 0"
    "map content (durable b' topic) = map content (durable b topic) @ map (driveContent pm s accs) [0..snt + k - 1]"
proof (cases "driveTotal s \<le> 0")
  case True
  with assms that [of 0] show thesis by (simp add: drive_def driveBatch_def)
next
  case False
  with assms have "driveLoop produce pm s accs topic (driveTotal s) turns 0 Map.empty b = Some ((snt, sentAt, err), b')"
    by (simp add: drive_def)
  from driveLoop_durable [OF this] False that show thesis by auto
qed

end

lemma driveLoop_finishes:
  assumes "live_producer produce durable up"
    and pm: "\<forall>e. pm e \<noteq> None"
  shows "up b \<Longrightarrow> list_all (\<lambda>t. t \<noteq> DriveCancel) turns \<Longrightarrow> tot - sent \<le> driveBatch * int (length turns) \<Longrightarrow> sent \<le> tot \<Longrightarrow>
    \<exists>sentAt' b'. driveLoop produce pm s accs topic tot turns sent sentAt b = Some ((tot, sentAt', None), b')"
proof (induction turns arbitrary: sent sentAt b)
  case Nil
  then show ?case by (simp add: driveLoop.simps)
next
  case (Cons u turns)
  show ?case
  proof (cases "sent < tot")
    case False
    with Cons.prems show ?thesis by (simp add: driveLoop.simps)
  next
    case True
    let ?n = "min driveBatch (tot - sent)"
    obtain now gone where u: "u = DriveTick now gone" using Cons.prems(2) by (cases u) auto
    obtain recs where R: "driveRecords pm s accs topic [sent..sent + ?n - 1] = Some recs"
      using driveRecords_total pm by blast
    from live_producer.accepts [OF assms(1) Cons.prems(1)] obtain b1 where b1: "produce b recs = (Inr (), b1)" "up b1" by blast
    have "tot - (sent + ?n) \<le> driveBatch * int (length turns)" "sent + ?n \<le> tot"
      using Cons.prems(3) True by (auto simp: algebra_simps min_def)
    with Cons.IH [OF b1(2)] Cons.prems(2) True u R b1(1) show ?thesis
      by (subst driveLoop.simps) (simp add: Let_def)
  qed
qed

section \<open>Message ids, the drain and the percentiles\<close>

lemma digits_kept: "takeWhile isDigit (decimal n) = decimal n"
  using decimal_digits [of n] by (simp add: takeWhile_eq_all_conv list_all_iff)

lemma decimal_hd: "hd (decimal n) \<noteq> CHR ''-''" "hd (decimal n) \<noteq> CHR ''+''" "\<not> scan_space (hd (decimal n))"
proof -
  have "isDigit (hd (decimal n))" using decimal_digits [of n] by (simp add: list_all_iff)
  then show "hd (decimal n) \<noteq> CHR ''-''" "hd (decimal n) \<noteq> CHR ''+''" "\<not> scan_space (hd (decimal n))"
    by (auto simp: isDigit_def scan_space_def)
qed

lemma scan_d_decimal:
  assumes "in64 (int n)"
  shows "scan_d (decimal n) = Some (int n)"
proof -
  have "dropWhile scan_space (decimal n) = decimal n" using decimal_hd(3) [of n] by (cases "decimal n") simp_all
  with decimal_hd [of n] assms show ?thesis by (simp add: scan_d_def Let_def digits_kept)
qed

lemma suffix_after_dash: "CHR ''-'' \<notin> set ds \<Longrightarrow> rev (takeWhile (\<lambda>c. c \<noteq> CHR ''-'') (rev (pre @ CHR ''-'' # ds))) = ds"
proof -
  assume "CHR ''-'' \<notin> set ds"
  then have "\<And>c. c \<in> set (rev ds) \<Longrightarrow> c \<noteq> CHR ''-''" by auto
  from takeWhile_append2 [of "rev ds" "\<lambda>c. c \<noteq> CHR ''-''" "CHR ''-'' # rev pre", OF this] show ?thesis by simp
qed

text \<open>What ends the wait, and what its answer rests on.\<close>

lemma drainLoop_returns:
  "\<exists>t \<in> set turns. deadline \<le> dtNow t \<Longrightarrow> drainLoop snt deadline prev lastChange turns \<noteq> None"
proof (induction turns arbitrary: prev lastChange)
  case (Cons t turns)
  show ?case
  proof (cases "deadline \<le> dtNow t")
    case False
    with Cons.prems have "\<exists>t \<in> set turns. deadline \<le> dtNow t" by auto
    note more = Cons.IH [OF this]
    show ?thesis
    proof (cases "dtCount t")
      case (Inr n)
      with False more show ?thesis by (simp add: Let_def del: not_None_eq)
    qed (use False in \<open>simp del: not_None_eq\<close>)
  qed (simp del: not_None_eq)
qed simp

lemma drainLoop_true:
  "drainLoop snt deadline prev lastChange turns = Some (True, err) \<Longrightarrow> err = None \<and>
     (\<exists>t n c. t \<in> set turns \<and> dtNow t < deadline \<and> dtCount t = Inr n \<and>
       (dtLag t = Inr 0 \<and> n > 0 \<or> n \<ge> snt \<or> time_Sub (dtThen t) c \<ge> drainStall \<and> c \<in> insert lastChange (dtChanged ` set turns)))"
proof (induction turns arbitrary: prev lastChange)
  case (Cons t turns)
  show ?case
  proof (cases "\<exists>n. dtCount t = Inr n \<and> \<not> (dtLag t = Inr 0 \<and> n > 0) \<and> \<not> n \<ge> snt \<and>
      \<not> time_Sub (dtThen t) (if n \<noteq> prev then dtChanged t else lastChange) \<ge> drainStall")
    case True
    then obtain n where n: "dtCount t = Inr n" "\<not> (dtLag t = Inr 0 \<and> n > 0)" "\<not> n \<ge> snt"
      "\<not> time_Sub (dtThen t) (if n \<noteq> prev then dtChanged t else lastChange) \<ge> drainStall" by blast
    with Cons.prems have "drainLoop snt deadline n (if n \<noteq> prev then dtChanged t else lastChange) turns = Some (True, err)"
      by (auto simp: Let_def split: if_splits)
    from Cons.IH [OF this] show ?thesis by (auto split: if_splits)
  next
    case False
    with Cons.prems show ?thesis by (auto simp: Let_def split: if_splits sum.splits)
  qed
qed simp

text \<open>The nearest rank: the least value that at least \<open>p\<close> percent of the list do not exceed.\<close>

lemma sorted_count_le:
  assumes "sorted xs" "i < length xs"
  shows "Suc i \<le> length (filter (\<lambda>x. x \<le> xs ! i) xs)"
proof -
  have "filter (\<lambda>x. x \<le> xs ! i) (take (Suc i) xs) = take (Suc i) xs"
    using assms by (auto simp: filter_id_conv in_set_conv_nth sorted_nth_mono)
  then have "filter (\<lambda>x. x \<le> xs ! i) xs = take (Suc i) xs @ filter (\<lambda>x. x \<le> xs ! i) (drop (Suc i) xs)"
    by (metis append_take_drop_id filter_append)
  from this [THEN arg_cong [where f = length]] assms(2) show ?thesis by simp
qed

lemma sorted_count_less:
  assumes "sorted xs" "i < length xs"
  shows "length (filter (\<lambda>x. x < xs ! i) xs) \<le> i"
proof -
  have "filter (\<lambda>x. x < xs ! i) (drop i xs) = []"
    using assms by (auto simp: filter_empty_conv in_set_conv_nth not_less sorted_nth_mono)
  then have "filter (\<lambda>x. x < xs ! i) xs = filter (\<lambda>x. x < xs ! i) (take i xs)"
    by (metis append_Nil2 append_take_drop_id filter_append)
  also have "length \<dots> \<le> length (take i xs)" by (rule length_filter_le)
  finally show ?thesis by simp
qed

lemma percentile_rank:
  assumes "xs \<noteq> []" "0 < p" "p \<le> 100"
  obtains i where "percentile xs p = xs ! i" "i < length xs" "p * length xs \<le> 100 * Suc i" "100 * i < p * length xs"
proof -
  let ?n = "length xs" and ?i = "(p * length xs + 99) div 100"
  have n: "0 < ?n" using assms(1) by simp
  have "1 \<le> k \<and> k \<le> l \<and> m \<le> 100 * k \<and> 100 * (k - 1) < m" if "0 < m" "m \<le> 100 * l" "k = (m + 99) div 100" for m l k :: nat
    using that by (cases k) auto
  from this [of "p * ?n" ?n ?i] have "1 \<le> ?i" "?i \<le> ?n" "p * ?n \<le> 100 * ?i" "100 * (?i - 1) < p * ?n"
    using assms n by simp_all
  then show thesis using assms(1) by (intro that [of "?i - 1"]) (simp_all add: percentile_def Let_def)
qed

lemma percentile_mono:
  assumes "sorted xs" "0 < p" "p \<le> q" "q \<le> 100"
  shows "percentile xs p \<le> percentile xs q"
proof (cases "xs = []")
  case False
  have q: "0 < q" "p \<le> 100" using assms by simp_all
  from percentile_rank [OF False assms(2) q(2)] obtain i where
    i: "percentile xs p = xs ! i" "i < length xs" "100 * i < p * length xs" by metis
  from percentile_rank [OF False q(1) assms(4)] obtain j where
    j: "percentile xs q = xs ! j" "j < length xs" "q * length xs \<le> 100 * Suc j" by metis
  have "p * length xs \<le> q * length xs" using assms(3) by simp
  from less_le_trans [OF i(3) order_trans [OF this j(3)]] have "i \<le> j" by simp
  with i j assms(1) show ?thesis by (simp add: sorted_nth_mono)
qed (simp add: percentile_def)

lemma percentile_in: "xs \<noteq> [] \<Longrightarrow> 0 < p \<Longrightarrow> p \<le> 100 \<Longrightarrow> percentile xs p \<in> set xs"
  by (metis percentile_rank nth_mem)

lemma percentile_counts:
  assumes "xs \<noteq> []" "0 < p" "p \<le> 100"
  shows "percentile (sort xs) p \<in> set xs \<and> p * length xs \<le> 100 * length (filter (\<lambda>x. x \<le> percentile (sort xs) p) xs) \<and>
    100 * length (filter (\<lambda>x. x < percentile (sort xs) p) xs) < p * length xs"
proof -
  have ne: "sort xs \<noteq> []" using assms(1) by (metis length_0_conv length_sort)
  from percentile_rank [OF ne assms(2,3)] obtain i where
    i: "percentile (sort xs) p = sort xs ! i" "i < length (sort xs)" "p * length (sort xs) \<le> 100 * Suc i" "100 * i < p * length (sort xs)"
    by metis
  note le = sorted_count_le [OF sorted_sort i(2)] and less = sorted_count_less [OF sorted_sort i(2)]
  have keep: "length (filter P (sort xs)) = length (filter P xs)" for P by (simp add: filter_sort [of P "\<lambda>x. x"])
  from le less have "100 * Suc i \<le> 100 * length (filter (\<lambda>x. x \<le> sort xs ! i) xs)"
    "100 * length (filter (\<lambda>x. x < sort xs ! i) xs) \<le> 100 * i" by (simp_all add: keep)
  with i(3,4) percentile_in [OF ne assms(2,3)] show ?thesis unfolding i(1)
    by simp
qed

lemma time_Sub_in64: "in64 (time_Sub t u)"
  by (simp add: time_Sub_def) (simp add: in64_def MinInt64_def MaxInt64_def)

lemma latencies_nonneg: "l \<in> set (latencies tot sentAt rows) \<Longrightarrow> 0 \<le> l"
  by (auto simp: latencies_def Let_def quot64_nonneg time_Sub_in64 pos_imp_zdiv_nonneg_iff split: option.splits if_splits prod.splits)

section \<open>The figures of a run\<close>

lemma measured_figures:
  assumes "Config art \<in> {InboxDedup, Transactional}" "\<forall>cur. currencySum (entries d) cur = 0"
    and "appliedCount d = int (length (inbox d))" "int (length (inbox d)) \<le> Sent art" "in64 (Sent art)"
  shows "\<exists>art'. measure_run d d d art = Inr art' \<and> ExactCounts art' \<and> InvariantHeld art' \<and> Duplicated art' = 0 \<and>
    aApplied art' = int (length (inbox d)) \<and> Effects art' = int (length (inbox d)) \<and>
    Lost art' = Sent art - int (length (inbox d))"
proof -
  obtain drift where drift: "GlobalInvariant d = Inr drift" using GlobalInvariant_returns [OF assms(2)] by blast
  note held = measured_invariant [OF assms(2) drift]
  have "in64 (Sent art - int (length (inbox d)))" "in64 (0 :: int)" using assms(4,5) by (simp_all add: in64_iff)
  then have "sub64 (Sent art) (int (length (inbox d))) = Sent art - int (length (inbox d))"
    "sub64 (int (length (inbox d))) (int (length (inbox d))) = 0" by (simp_all add: sub64_exact)
  with assms(1,3,4) drift held show ?thesis
    by (auto simp: measure_run_def Let_def maxInt64_def)
qed

lemma lost_messages:
  assumes "distinct ids" "set (map mId rows) \<subseteq> set ids" "distinct (map mId rows)"
  shows "int (length ids) - int (length rows) = int (length (filter (\<lambda>i. i \<notin> mId ` set rows) ids))"
    and "length rows \<le> length ids"
proof -
  let ?T = "mId ` set rows"
  have T: "card ?T = length rows" using distinct_card [OF assms(3)] by simp
  have "length (filter (\<lambda>i. i \<in> ?T) ids) = card (set (filter (\<lambda>i. i \<in> ?T) ids))"
    using assms(1) by (metis distinct_card distinct_filter)
  also have "set (filter (\<lambda>i. i \<in> ?T) ids) = ?T" using assms(2) by auto
  finally have "length (filter (\<lambda>i. i \<in> ?T) ids) = length rows" using T by simp
  with sum_length_filter_compl [of "\<lambda>i. i \<in> ?T" ids]
  show "int (length ids) - int (length rows) = int (length (filter (\<lambda>i. i \<notin> ?T) ids))" "length rows \<le> length ids"
    by linarith+
qed

lemma history_counts:
  assumes "cext_ok cx" "dedups m" "history br durable below comm x cx m L d0 S d"
    and "ledger_ok x d0" "appliedCount d0 = int (length (inbox d0))"
  shows "(\<forall>cur. currencySum (entries d) cur = 0) \<and> appliedCount d = int (length (inbox d))"
proof -
  have "ledger_ok x d" using apply_ok [OF assms(1)] assms(4,3) by (rule history_preserves)
  moreover have "appliedCount d = int (length (inbox d))"
    using apply_counts [OF assms(1,2)] assms(5,3) by (rule history_preserves)
  ultimately show ?thesis by (simp add: ledger_ok_def)
qed

lemma sessions_exact:
  assumes "kgo_group g durable below comm" "cext_ok cx"
    and "m = InboxDedup \<and> history (kafkaOps g ctxDone) (\<lambda>c. durable (kcl c)) (\<lambda>c. below (kcl c)) (\<lambda>c. comm (kcl c))
        x cx m L d0 S d \<or>
      m = Transactional \<and> history (txnOps g ctxDone) (\<lambda>c. durable (sess c)) (\<lambda>c. below (sess c)) (\<lambda>c. comm (sess c))
        x cx m L d0 S d"
    and "ledger_ok x d0" "appliedCount d0 = 0" "inbox d0 = []"
  shows "books x cx m L d0 d \<and> (\<forall>rec \<in> S. accounted x cx m d rec) \<and>
    (\<forall>cur. currencySum (entries d) cur = 0) \<and> appliedCount d = int (length (inbox d))"
proof -
  have m: "dedups m" "m \<noteq> AtMostOnce" using assms(3) by (auto simp: dedups_def mode_defs)
  have start: "appliedCount d0 = int (length (inbox d0))" using assms(5,6) by simp
  from assms(3) show ?thesis
  proof (elim disjE conjE)
    assume H: "history (kafkaOps g ctxDone) (\<lambda>c. durable (kcl c)) (\<lambda>c. below (kcl c)) (\<lambda>c. comm (kcl c)) x cx m L d0 S d"
    from kgo_group.plain_history_books [OF assms(1,2) m(1) H] kgo_group.plain_at_least_once [OF assms(1,2) m(2) H]
      history_counts [OF assms(2) m(1) H assms(4) start] show ?thesis by blast
  next
    assume H: "history (txnOps g ctxDone) (\<lambda>c. durable (sess c)) (\<lambda>c. below (sess c)) (\<lambda>c. comm (sess c)) x cx m L d0 S d"
    from kgo_group.txn_history_books [OF assms(1,2) m(1) H] kgo_group.txn_at_least_once [OF assms(1,2) m(2) H]
      history_counts [OF assms(2) m(1) H assms(4) start] show ?thesis by blast
  qed
qed

section \<open>Samples\<close>

definition sampleSpec :: "int \<Rightarrow> Spec" where
  "sampleSpec rate = \<lparr>sConfigs = [InboxDedup], sRuns = 5, sSeed = 7, sProfile = ''steady'', sRate = rate, sDuration = 1000000000,
     sSchedule = [], AdminDSN = ''dsn'', LedgerBinary = ''ledger'', OutDir = ''out'', sLedgerSHA = ''sha'', sAccounts = 2\<rparr>"

definition sampleMarshal :: "MovementEvent \<Rightarrow> string option" where
  "sampleMarshal e = Some (mvMessageId e)"

lemma sample_total: "driveTotal (sampleSpec 60) = 60" "driveTotal (sampleSpec 2) = 2"
  by code_simp+

lemma sample_seed: "sSeed (sampleSpec r) = 7"
  by (simp add: sampleSpec_def)

lemma sample_unapplied: "appliedCount sampleDB = 0" "inbox sampleDB = []"
  using sample_unbooked(2)
  by (simp_all add: appliedCount_def sampleDB_def run_tx_def InsertAccount_def sampleAccount_def char3_def
    has_account_def emptyDB_def tx_Commit_def)

definition measuredArtefact :: "Mode \<Rightarrow> int \<Rightarrow> Artefact" where
  "measuredArtefact m n = \<lparr>RunID = ''r'', Config = m, aSeed = 7, aProfile = ''steady'', RatePerSec = 2, DurationSec = 1, Schedule = [],
     LedgerSHA = ''sha'', aBrokerVersion = ''v'', SweepID = ''s'', Executed = [], Sent = n, aApplied = 0, Lost = 0, Duplicated = 0,
     InFlight = 0, P50 = 0, P95 = 0, P99 = 0, LagPeak = 0, DrainSeconds = 0, InvariantHeld = False, Effects = 0, Drained = True,
     ExactCounts = False\<rparr>"

section \<open>Properties\<close>



lemma NewFake_empty: "Records NewFake t = []"
  by (simp add: Records_def NewFake_def topicLog_def)

lemma sample_run:
  "\<exists>sentAt b'. drive (Produce False) sampleMarshal (sampleSpec 2) [1, 2] ''t'' [DriveTick 5 False] NewFake = Some ((2, sentAt, None), b')"
proof -
  have "\<exists>sentAt b'. driveLoop (Produce False) sampleMarshal (sampleSpec 2) [1, 2] ''t'' 2 [DriveTick 5 False] 0 Map.empty NewFake =
      Some ((2, sentAt, None), b')"
    by (rule driveLoop_finishes [OF fake_live.live_producer_axioms]) (simp_all add: sampleMarshal_def fakeUp_def NewFake_def driveBatch_def)
  then show ?thesis by (simp add: drive_def sample_total)
qed


text \<open>
  A run that nothing disturbs sends everything: if the producer keeps accepting and the
  context lasts for as many ticks as there are batches, the driver returns without an error, has
  counted rate times duration movements, and the topic holds exactly those.
\<close>

theorem drive_completes:
  assumes "live_producer produce durable up" "up b" "\<forall>e. pm e \<noteq> None"
    and "list_all (\<lambda>t. t \<noteq> DriveCancel) turns" "driveTotal s \<le> 50 * int (length turns)" "0 \<le> driveTotal s"
  shows "\<exists>sentAt b'. drive produce pm s accs topic turns b = Some ((driveTotal s, sentAt, None), b') \<and>
    map content (durable b' topic) = map content (durable b topic) @
      map (\<lambda>sq. (uuid_String (accs ! nat (sq mod int (length accs))), the (pm (driveEvent s accs sq)))) [0..driveTotal s - 1]"
proof -
  have "\<exists>sentAt b'. drive produce pm s accs topic turns b = Some ((driveTotal s, sentAt, None), b')"
  proof (cases "driveTotal s = 0")
    case False
    with driveLoop_finishes [OF assms(1,3,2,4), where tot = "driveTotal s" and sent = 0 and topic = topic and sentAt = Map.empty and s = s and accs = accs] assms(5,6)
    show ?thesis by (simp add: drive_def driveBatch_def)
  qed (simp add: drive_def)
  then obtain sentAt b' where D: "drive produce pm s accs topic turns b = Some ((driveTotal s, sentAt, None), b')" by blast
  from producer.drive_durable [OF live_producer.axioms(1) [OF assms(1)] D] obtain k where
    "driveTotal s = driveTotal s \<longrightarrow> k = 0"
    "map content (durable b' topic) = map content (durable b topic) @ map (driveContent pm s accs) [0..driveTotal s + k - 1]" by metis
  with D show ?thesis by (simp add: driveContent_def)
qed

theorem drive_completes_witness:
  "\<exists>sentAt b'. drive (Produce False) sampleMarshal (sampleSpec 60) [1, 2] ''t'' [DriveTick 5 False, DriveTick 9 False] NewFake =
     Some ((60, sentAt, None), b') \<and> length (Records b' ''t'') = 60"
proof -
  have pm: "\<forall>e. sampleMarshal e \<noteq> None" by (simp add: sampleMarshal_def)
  from drive_completes [OF fake_live.live_producer_axioms _ pm, where b = NewFake and s = "sampleSpec 60" and accs = "[1, 2]" and
      turns = "[DriveTick 5 False, DriveTick 9 False]" and topic = "''t''"] obtain sentAt b' where
    D: "drive (Produce False) sampleMarshal (sampleSpec 60) [1, 2] ''t'' [DriveTick 5 False, DriveTick 9 False] NewFake =
      Some ((60, sentAt, None), b')"
    "map content (Records b' ''t'') = map content (Records NewFake ''t'') @ map (\<lambda>sq. (uuid_String ([1, 2] ! nat (sq mod 2)),
        the (sampleMarshal (driveEvent (sampleSpec 60) [1, 2] sq)))) [0..59]"
    by (auto simp: sample_total fakeUp_def NewFake_def)
  from D(2) [THEN arg_cong [where f = length]] D(1) show ?thesis
    by (simp add: NewFake_empty)
qed

text \<open>
  A message id gives its sequence number back: the latencies are matched to the times of the
  movements they belong to, whatever the seed.
\<close>

theorem sequenceOf_messageID:
  assumes "0 \<le> sq" "sq \<le> MaxInt64"
  shows "sequenceOf (messageID seed sq) = Some sq"
proof -
  have digits: "show_d sq = decimal (nat sq)" using assms(1) by (simp add: show_d_def)
  have id: "messageID seed sq = (''mv-'' @ show_d seed) @ CHR ''-'' # decimal (nat sq)"
    unfolding messageID_def digits by simp
  from suffix_after_dash [OF decimal_chars(1)] have
    "rev (takeWhile (\<lambda>c. c \<noteq> CHR ''-'') (rev (messageID seed sq))) = decimal (nat sq)" unfolding id .
  moreover have "CHR ''-'' \<in> set (messageID seed sq)" by (simp add: messageID_def)
  moreover have "in64 (int (nat sq))" using assms by (simp add: in64_iff MaxInt64_def)
  ultimately show ?thesis using assms(1) by (simp add: sequenceOf_def scan_d_decimal)
qed

theorem sequenceOf_messageID_witness: "sequenceOf (messageID (-5) 42) = Some 42"
  by (rule sequenceOf_messageID) (simp_all add: MaxInt64_def)

lemma produceLoop_limit:
  "0 < FailProduceAfter f \<Longrightarrow> produced f \<le> FailProduceAfter f \<Longrightarrow> \<exists>f'. produceLoop f rs =
     (if int (length rs) \<le> FailProduceAfter f - produced f then Inr () else Inl ErrSimulatedProduce, f') \<and>
     FailProduceAfter f' = FailProduceAfter f \<and> produced f' = min (produced f + int (length rs)) (FailProduceAfter f)"
proof (induction rs arbitrary: f)
  case (Cons r rs)
  show ?case
  proof (cases "produced f \<ge> FailProduceAfter f")
    case False
    with Cons.prems Cons.IH [of "appendRecord f r"] show ?thesis by (auto simp: appendRecord_def)
  qed (use Cons.prems in simp)
qed simp

lemma produceLoop_counts:
  "produceLoop f rs = (res, f') \<Longrightarrow> \<forall>r \<in> set rs. kTopic r = t \<Longrightarrow>
     int (length (Records f' t)) - produced f' = int (length (Records f t)) - produced f"
proof (induction f rs rule: produceLoop.induct)
  case (2 f r rs)
  have "length (Records (appendRecord f r) t) = Suc (length (Records f t))"
    using Records_append [of f r t, THEN arg_cong [where f = length]] 2(3) by simp
  moreover have "produced (appendRecord f r) = produced f + 1" by (simp add: appendRecord_def)
  ultimately show ?case using 2 by (auto split: if_splits)
qed simp

lemma produceLoop_closed: "produceLoop f rs = (res, f') \<Longrightarrow> closed f' = closed f"
  by (induction f rs rule: produceLoop.induct) (auto simp: appendRecord_def split: if_splits)

lemma drive_first_batch:
  assumes "driveTotal s > driveBatch" "driveRecords pm s accs topic [0..driveBatch - 1] = Some recs"
    and "produce b recs = (Inr (), b1)"
    and "driveRecords pm s accs topic [driveBatch..driveBatch + min driveBatch (driveTotal s - driveBatch) - 1] = Some recs2"
    and "produce b1 recs2 = (Inl e, b2)"
  shows "\<exists>sentAt. drive produce pm s accs topic [DriveTick t1 False, DriveTick t2 False] b = Some ((driveBatch, sentAt, None), b2)"
proof -
  have m: "min driveBatch (driveTotal s) = driveBatch" "0 < driveBatch" using assms(1) by (simp_all add: driveBatch_def)
  with assms show ?thesis
    unfolding drive_def driveLoop.simps [of produce pm s accs topic "driveTotal s" "[DriveTick t1 False, DriveTick t2 False]"]
    by (simp add: driveLoop.simps [of produce pm s accs topic "driveTotal s" "[DriveTick t2 False]"] Let_def)
qed

lemma driveRecords_shape:
  "driveRecords pm s accs topic sqs = Some recs \<Longrightarrow> length recs = length sqs \<and> (\<forall>r \<in> set recs. kTopic r = topic)"
  using driveRecords_content [of pm s accs topic sqs recs] by (metis length_map)

text \<open>
  A produce that fails half-way leaves movements in the topic that the driver does not count,
  although the records of a failed produce are taken for not sent: 51 are in the topic and 50 counted, and
  when a deduplicating consumer has applied all of them the run is refused as contaminated.
\<close>

theorem drive_undercounts:
  "\<exists>sentAt b'. drive (Produce False) sampleMarshal (sampleSpec 60) [1, 2] ''t'' [DriveTick 5 False, DriveTick 9 False]
      (NewFake\<lparr>FailProduceAfter := 51\<rparr>) = Some ((50, sentAt, None), b') \<and> length (Records b' ''t'') = 51 \<and>
    (\<forall>row d1 d2 d3 art. measure_run (d1\<lparr>inbox := replicate 51 row\<rparr>) d2 d3 (art\<lparr>Sent := 50\<rparr>) = Inl (ErrContaminated 51 50))"
proof -
  let ?f = "NewFake\<lparr>FailProduceAfter := 51\<rparr>" and ?s = "sampleSpec 60"
  obtain recs where recs: "driveRecords sampleMarshal ?s [1, 2] ''t'' [0..49] = Some recs"
    using driveRecords_total [of "[0..49]" sampleMarshal ?s "[1, 2]" "''t''"] by (auto simp: sampleMarshal_def)
  obtain recs2 where recs2: "driveRecords sampleMarshal ?s [1, 2] ''t'' [50..59] = Some recs2"
    using driveRecords_total [of "[50..59]" sampleMarshal ?s "[1, 2]" "''t''"] by (auto simp: sampleMarshal_def)
  note shape = driveRecords_shape [OF recs] driveRecords_shape [OF recs2]
  from produceLoop_limit [of ?f recs] shape obtain f1 where
    f1: "produceLoop ?f recs = (Inr (), f1)" "FailProduceAfter f1 = 51" "produced f1 = 50" by (auto simp: NewFake_def)
  from produceLoop_limit [of f1 recs2] f1(2,3) shape obtain f2 where
    f2: "produceLoop f1 recs2 = (Inl ErrSimulatedProduce, f2)" "produced f2 = 51" by auto
  have closed: "closed f1 = False" using produceLoop_closed [OF f1(1)] by (simp add: NewFake_def)
  have "int (length (Records f2 ''t'')) = 51"
    using produceLoop_counts [OF f1(1), of "''t''"] produceLoop_counts [OF f2(1), of "''t''"] f1(3) f2(2) shape
    by (simp add: NewFake_def Records_def topicLog_def)
  moreover have "\<exists>sentAt. drive (Produce False) sampleMarshal ?s [1, 2] ''t'' [DriveTick 5 False, DriveTick 9 False] ?f = Some ((driveBatch, sentAt, None), f2)"
    using recs recs2 f1(1) f2(1) closed
    by (intro drive_first_batch [where recs = recs and ?recs2.0 = recs2 and ?b1.0 = f1 and e = ErrSimulatedProduce])
      (simp_all add: sample_total driveBatch_def Produce_def NewFake_def)
  ultimately show ?thesis by (auto simp: driveBatch_def measure_run_def Let_def)
qed

text \<open>
  The wait for the consumer ends: once the clock has passed twenty minutes it has returned,
  and it answers "drained" only before that, after a count with the lag at zero and something
  applied, or a count that reaches the records sent, or thirty seconds without a change.
\<close>

theorem drain_bounded:
  "((\<exists>t \<in> set turns. start0 + 1200 * 1000000000 \<le> dtNow t) \<longrightarrow> (\<exists>r. waitForDrain snt start0 start1 turns = Some r)) \<and>
   (waitForDrain snt start0 start1 turns = Some (True, err) \<longrightarrow> err = None \<and>
    (\<exists>t n c. t \<in> set turns \<and> dtNow t < start0 + 1200 * 1000000000 \<and> dtCount t = Inr n \<and>
      (dtLag t = Inr 0 \<and> n > 0 \<or> n \<ge> snt \<or>
       time_Sub (dtThen t) c \<ge> 30 * 1000000000 \<and> c \<in> insert start1 (dtChanged ` set turns))))"
  using drainLoop_returns [of turns "start0 + drainCeiling" snt 0 start1] drainLoop_true [of snt "start0 + drainCeiling" 0 start1 turns err]
  by (simp_all add: waitForDrain_def drainCeiling_def drainStall_def)

theorem drain_bounded_witness:
  "\<exists>r. waitForDrain 5 0 0 [\<lparr>dtNow = 1, dtDone = False, dtCount = Inr 3, dtChanged = 2, dtLag = Inl ErrClosed, dtThen = 3\<rparr>,
     \<lparr>dtNow = 1200000000000, dtDone = False, dtCount = Inr 3, dtChanged = 2, dtLag = Inl ErrClosed, dtThen = 3\<rparr>] = Some r"
  using drain_bounded [of "[\<lparr>dtNow = 1, dtDone = False, dtCount = Inr 3, dtChanged = 2, dtLag = Inl ErrClosed, dtThen = 3\<rparr>,
     \<lparr>dtNow = 1200000000000, dtDone = False, dtCount = Inr 3, dtChanged = 2, dtLag = Inl ErrClosed, dtThen = 3\<rparr>]" 0 5 0 None]
  by simp

text \<open>
  The percentiles are nearest ranks of the latencies of matched movements: each is a latency that
  at least p percent of them do not exceed while fewer than p percent are below it, none is
  negative, and they are in order.
\<close>

theorem percentiles_nearest_rank:
  assumes "measureLatency tot sentAt rows art = (None, art')" "Config art \<in> {InboxDedup, Transactional}"
  shows "let lats = latencies tot sentAt rows in
    (\<forall>(p, v) \<in> {(50, P50 art'), (95, P95 art'), (99, P99 art')}. v \<in> set lats \<and> 0 \<le> v \<and>
      p * length lats \<le> 100 * length (filter (\<lambda>l. l \<le> v) lats) \<and> 100 * length (filter (\<lambda>l. l < v) lats) < p * length lats) \<and>
    P50 art' \<le> P95 art' \<and> P95 art' \<le> P99 art'"
proof -
  let ?lats = "latencies tot sentAt rows"
  have art': "?lats \<noteq> []" "P50 art' = percentile (sort ?lats) 50" "P95 art' = percentile (sort ?lats) 95" "P99 art' = percentile (sort ?lats) 99"
    using assms by (auto simp: measureLatency_def Let_def mode_defs split: if_splits)
  have ranks: "percentile (sort ?lats) p \<in> set ?lats \<and> 0 \<le> percentile (sort ?lats) p \<and>
      p * length ?lats \<le> 100 * length (filter (\<lambda>l. l \<le> percentile (sort ?lats) p) ?lats) \<and>
      100 * length (filter (\<lambda>l. l < percentile (sort ?lats) p) ?lats) < p * length ?lats"
    if "0 < p" "p \<le> 100" for p
    using percentile_counts [OF art'(1) that] latencies_nonneg by blast
  show ?thesis
    using ranks [of 50] ranks [of 95] ranks [of 99] percentile_mono [of "sort ?lats" 50 95] percentile_mono [of "sort ?lats" 95 99]
    by (simp add: Let_def art'(2-4))
qed

text \<open>
  C11. The figures of a deduplicating run are exact. A fresh database with the books in order, a topic
  whose records carry only message ids that were sent, any sequence of consumer sessions in mode C or
  D, with failures and rebalances, then a measurement: no duplicates, the loss is the number
  of ids sent that no session booked, nothing is lost when a committed record carries every id, and
  the invariant held.
\<close>

theorem measure_exact:
  assumes "kgo_group g durable below comm" "cext_ok cx"
    and "m = InboxDedup \<and> history (kafkaOps g ctxDone) (\<lambda>c. durable (kcl c)) (\<lambda>c. below (kcl c)) (\<lambda>c. comm (kcl c))
        x cx m L d0 S d \<or>
      m = Transactional \<and> history (txnOps g ctxDone) (\<lambda>c. durable (sess c)) (\<lambda>c. below (sess c)) (\<lambda>c. comm (sess c))
        x cx m L d0 S d"
    and "ledger_ok x d0" "appliedCount d0 = 0" "inbox d0 = []"
    and "distinct ids" "\<forall>rec \<in> L. \<forall>v. decodeMovement cx rec = Inr v \<longrightarrow> vMessage v \<in> set ids"
    and "Config art = m" "Sent art = int (length ids)" "in64 (Sent art)"
  shows "\<exists>art'. measure_run d d d art = Inr art' \<and> ExactCounts art' \<and> InvariantHeld art' \<and> Duplicated art' = 0 \<and>
    Lost art' = int (length (filter (\<lambda>i. i \<notin> mId ` set (inbox d)) ids)) \<and> aApplied art' = Sent art - Lost art' \<and>
    ((\<forall>i \<in> set ids. \<exists>rec \<in> S. \<exists>v. decodeMovement cx rec = Inr v \<and> vMessage v = i) \<longrightarrow> Lost art' = 0)"
proof -
  from sessions_exact [OF assms(1-6)] have B: "books x cx m L d0 d" and acc: "\<forall>rec \<in> S. accounted x cx m d rec"
    and zero: "\<forall>cur. currencySum (entries d) cur = 0" and count: "appliedCount d = int (length (inbox d))" by blast+
  from B assms(6) obtain vs :: "Movement list" where
    vs: "map mId (inbox d) = map vMessage vs" "distinct (map vMessage vs)" "\<forall>v \<in> set vs. \<exists>rec \<in> L. decodeMovement cx rec = Inr v"
    unfolding books_def by auto
  have rows: "set (map mId (inbox d)) \<subseteq> set ids" "distinct (map mId (inbox d))" using vs assms(8) by auto
  note lost = lost_messages [OF assms(7) rows]
  have m: "Config art \<in> {InboxDedup, Transactional}" "dedups m" using assms(3,9) by (auto simp: dedups_def mode_defs)
  from measured_figures [OF m(1) zero count _ assms(11)] lost(2) assms(10) obtain art' where
    art': "measure_run d d d art = Inr art'" "ExactCounts art'" "InvariantHeld art'" "Duplicated art' = 0"
      "aApplied art' = int (length (inbox d))" "Lost art' = Sent art - int (length (inbox d))" by auto
  have "Lost art' = int (length (filter (\<lambda>i. i \<notin> mId ` set (inbox d)) ids))" using art'(6) lost(1) assms(10) by simp
  moreover have "filter (\<lambda>i. i \<notin> mId ` set (inbox d)) ids = []"
    if "\<forall>i \<in> set ids. \<exists>rec \<in> S. \<exists>v. decodeMovement cx rec = Inr v \<and> vMessage v = i"
    using that acc m(2) by (fastforce simp: filter_empty_conv accounted_iff)
  ultimately show ?thesis using art' by (intro exI [of _ art']) simp
qed

theorem measure_exact_witness:
  "\<exists>d art'. history (txnOps memKgo False) (\<lambda>c. memDurable (sess c)) (\<lambda>c. memBelow (sess c)) (\<lambda>c. memSettled (sess c))
      consExt sampleCext Transactional {sampleRecord} sampleDB {sampleRecord} d \<and>
    measure_run d d d (measuredArtefact Transactional 1) = Inr art' \<and> Lost art' = 0 \<and> Duplicated art' = 0 \<and> aApplied art' = 1"
proof -
  obtain d where H: "history (txnOps memKgo False) (\<lambda>c. memDurable (sess c)) (\<lambda>c. memBelow (sess c)) (\<lambda>c. memSettled (sess c))
      consExt sampleCext Transactional {sampleRecord} sampleDB {sampleRecord} d" using sample_txn_history by blast
  have "distinct [''m1'']" "\<forall>rec \<in> {sampleRecord}. \<forall>v. decodeMovement sampleCext rec = Inr v \<longrightarrow> vMessage v \<in> set [''m1'']"
    "Config (measuredArtefact Transactional 1) = Transactional" "Sent (measuredArtefact Transactional 1) = int (length [''m1''])"
    "in64 (Sent (measuredArtefact Transactional 1))"
    by (simp_all add: sample_decode sampleV_def measuredArtefact_def in64_iff)
  from measure_exact [OF mem.kgo_group_axioms sample_cext disjI2 [OF conjI [OF refl H]] sample_ledger_ok sample_unapplied this]
  obtain art' where art': "measure_run d d d (measuredArtefact Transactional 1) = Inr art'" "Duplicated art' = 0"
    "aApplied art' = Sent (measuredArtefact Transactional 1) - Lost art'"
    "(\<forall>i \<in> set [''m1'']. \<exists>rec \<in> {sampleRecord}. \<exists>v. decodeMovement sampleCext rec = Inr v \<and> vMessage v = i) \<longrightarrow> Lost art' = 0"
    by blast
  have "Lost art' = 0" using art'(4) sample_decode by (simp add: sampleV_def)
  with H art'(1-3) show ?thesis by (intro exI [of _ d] exI [of _ art']) (simp add: measuredArtefact_def)
qed

text \<open>
  The two counts of a measurement are two statements: a movement applied between them makes a run
  in mode C report a duplicate, which that mode cannot produce, and a loss of the same movement,
  which was not lost; a measurement after it reports neither.
\<close>

theorem measure_race:
  "\<exists>d'. apply_movement consExt sampleCext InboxDedup 9 sampleWorld sampleDB sampleRecord = (Inr True, d') \<and>
    (\<exists>art. measure_run sampleDB d' d' (measuredArtefact InboxDedup 1) = Inr art \<and> Duplicated art = 1 \<and> Lost art = 1) \<and>
    (\<exists>art. measure_run d' d' d' (measuredArtefact InboxDedup 1) = Inr art \<and> Duplicated art = 0 \<and> Lost art = 0)"
proof -
  obtain d' where A: "apply_movement consExt sampleCext InboxDedup 9 sampleWorld sampleDB sampleRecord = (Inr True, d')"
    and d': "d' = booked consExt InboxDedup (movementPostingID consExt InboxDedup 9 (vMessage sampleV)) sampleV sampleRecord sampleDB"
    using sample_apply by blast
  have "ledger_ok consExt d'" using apply_ok [OF sample_cext sample_ledger_ok A] .
  then have zero: "\<forall>cur. currencySum (entries d') cur = 0" by (simp add: ledger_ok_def)
  obtain drift where drift: "GlobalInvariant d' = Inr drift" using GlobalInvariant_returns [OF zero] by blast
  have counts: "appliedCount d' = 1" "length (inbox d') = 1"
    using sample_unapplied by (simp_all add: d' appliedCount_booked booked_fields dedups_def)
  show ?thesis
    by (intro exI [of _ d'] conjI A)
      (simp_all add: measure_run_def Let_def counts sample_unapplied drift measuredArtefact_def maxInt64_def sub64_exact in64_iff)
qed

end
