(* ===== verification/Names.thy ===== *)
theory Names
  imports Experiment
begin

text \<open>
  The names \<^verbatim>\<open>run.go\<close> gives to what outlives a run: databases, topics and consumer groups of different
  runs never coincide, nor do topics and groups of different sweeps, and quoting keeps a
  database name one identifier of SQL.
\<close>

lemma lower_digits: "map ascii_lower (decimal n) = decimal n"
  by (rule map_idI) (use decimal_digits [of n] in \<open>auto simp: list_all_iff isDigit_def ascii_lower_def\<close>)

lemma db_digits: "map dbChar (decimal n) = decimal n"
  by (rule map_idI) (use decimal_digits [of n] in \<open>auto simp: list_all_iff isDigit_def dbChar_def\<close>)

lemma digits_dash: "CHR ''-'' \<notin> set (decimal n)" "CHR ''.'' \<notin> set (decimal n)"
  using decimal_digits [of n] by (auto simp: list_all_iff isDigit_def)

lemma runID_split:
  assumes "Valid m"
  obtains c where "m = [c]" "map ascii_lower (runID p m i) = map ascii_lower p @ [CHR ''-'', ascii_lower c, CHR ''-''] @ decimal (Suc i)"
    "map dbChar (runID p m i) = map dbChar p @ [CHR ''_'', dbChar c, CHR ''_''] @ decimal (Suc i)"
proof -
  obtain c where c: "m = [c]" using assms by (auto simp: Valid_def mode_defs)
  have "show_d (int i + 1) = decimal (Suc i)" by (simp add: show_d_def nat_add_distrib)
  moreover have "ascii_lower CHR ''-'' = CHR ''-''" "dbChar CHR ''-'' = CHR ''_''" by code_simp+
  ultimately show thesis using c by (intro that [of c]) (simp_all add: runID_def lower_digits db_digits)
qed

lemma mode_letters:
  assumes "Valid [c]" "Valid [c']"
  shows "ascii_lower c = ascii_lower c' \<longleftrightarrow> c = c'" "dbChar c = dbChar c' \<longleftrightarrow> c = c'"
proof -
  have letters: "ascii_lower CHR ''A'' = CHR ''a''" "ascii_lower CHR ''B'' = CHR ''b''" "ascii_lower CHR ''C'' = CHR ''c''"
    "ascii_lower CHR ''D'' = CHR ''d''" "dbChar CHR ''A'' = CHR ''a''" "dbChar CHR ''B'' = CHR ''b''"
    "dbChar CHR ''C'' = CHR ''c''" "dbChar CHR ''D'' = CHR ''d''" by code_simp+
  have "c \<in> set ''ABCD''" "c' \<in> set ''ABCD''" using assms by (auto simp: Valid_def mode_defs)
  then show "ascii_lower c = ascii_lower c' \<longleftrightarrow> c = c'" "dbChar c = dbChar c' \<longleftrightarrow> c = c'" by (auto simp: letters)
qed

lemma decimal_inj: "decimal a = decimal b \<longleftrightarrow> a = b"
  by (metis numval_decimal of_nat_eq_iff)

lemma sweep_split:
  assumes "0 \<le> u"
  shows "groupName (sweepID u) r = ''sb-s'' @ decimal (nat u) @ CHR ''-'' # map ascii_lower r"
    "topicName (sweepID u) r = ''shadowbook.movements.s'' @ decimal (nat u) @ CHR ''-'' # map ascii_lower r @ ''.v1''"
  using assms by (simp_all add: groupName_def topicName_def sweepID_def show_d_def)

text \<open>How PostgreSQL reads a quoted identifier: to the first quote that is not doubled.\<close>

fun readIdent :: "string \<Rightarrow> (string \<times> string) option" where
  "readIdent [] = None"
| "readIdent (c # cs) =
     (if c \<noteq> CHR 0x22 then map_option (\<lambda>(s, r). (c # s, r)) (readIdent cs)
      else case cs of [] \<Rightarrow> Some ([], [])
        | c' # cs' \<Rightarrow> if c' = CHR 0x22 then map_option (\<lambda>(s, r). (CHR 0x22 # s, r)) (readIdent cs') else Some ([], cs))"

lemma readIdent_quoted:
  "rest = [] \<or> hd rest \<noteq> CHR 0x22 \<Longrightarrow>
     readIdent (concat (map (\<lambda>c. if c = CHR 0x22 then [c, c] else [c]) s) @ CHR 0x22 # rest) = Some (s, rest)"
proof (induction s)
  case Nil
  then show ?case by (cases rest) simp_all
qed simp

section \<open>Properties\<close>

text \<open>
  C35. Runs are isolated: in one sweep two different runs have different groups, topics and
  databases, and two sweeps started in different seconds share no group and no topic, whatever
  their profiles and runs.
\<close>

theorem names_isolated:
  assumes "Valid m" "Valid m'" "0 \<le> u" "0 \<le> u'"
  shows "((m, i) \<noteq> (m', i') \<longrightarrow>
      groupName (sweepID u) (runID p m i) \<noteq> groupName (sweepID u) (runID p m' i') \<and>
      topicName (sweepID u) (runID p m i) \<noteq> topicName (sweepID u) (runID p m' i') \<and>
      databaseName (runID p m i) \<noteq> databaseName (runID p m' i')) \<and>
    (u \<noteq> u' \<longrightarrow> groupName (sweepID u) (runID p m i) \<noteq> groupName (sweepID u') (runID p' m' i') \<and>
      topicName (sweepID u) (runID p m i) \<noteq> topicName (sweepID u') (runID p' m' i'))"
proof -
  from runID_split [OF assms(1)] obtain c where c: "m = [c]"
    "map ascii_lower (runID p m i) = map ascii_lower p @ [CHR ''-'', ascii_lower c, CHR ''-''] @ decimal (Suc i)"
    "map dbChar (runID p m i) = map dbChar p @ [CHR ''_'', dbChar c, CHR ''_''] @ decimal (Suc i)" by metis
  from runID_split [OF assms(2)] obtain c' where c': "m' = [c']"
    "map ascii_lower (runID p m' i') = map ascii_lower p @ [CHR ''-'', ascii_lower c', CHR ''-''] @ decimal (Suc i')"
    "map dbChar (runID p m' i') = map dbChar p @ [CHR ''_'', dbChar c', CHR ''_''] @ decimal (Suc i')" by metis
  note letters = mode_letters [OF assms(1,2) [unfolded c(1) c'(1)]]
  have "nat u = nat u'" if "decimal (nat u) @ CHR ''-'' # a = decimal (nat u') @ CHR ''-'' # b" for a b
    using separator_inj [OF that digits_dash(1) digits_dash(1)] by (simp add: decimal_inj)
  then have "u = u'" if "decimal (nat u) @ CHR ''-'' # a = decimal (nat u') @ CHR ''-'' # b" for a b
    using that assms(3,4) by fastforce
  then show ?thesis
    using letters c c' by (auto simp: sweep_split [OF assms(3)] sweep_split [OF assms(4)] databaseName_def decimal_inj)
qed

theorem names_isolated_witness:
  "databaseName (runID ''payday'' InboxDedup 0) \<noteq> databaseName (runID ''payday'' InboxDedup 10) \<and>
   topicName (sweepID 1700000000) (runID ''payday'' InboxDedup 0) \<noteq> topicName (sweepID 1700000001) (runID ''steady'' InboxDedup 0)"
  using names_isolated [of InboxDedup InboxDedup 1700000000 1700000001 0 10 "''payday''" "''payday''"]
    names_isolated [of InboxDedup InboxDedup 1700000000 1700000001 0 0 "''payday''" "''steady''"]
  by (simp add: Valid_def)

text \<open>
  A quoted name is read back as the one identifier it names, whatever characters it holds and
  whatever follows it, so a run id cannot add to the statement it is put in.
\<close>

theorem quoteIdent_read:
  assumes "rest = [] \<or> hd rest \<noteq> CHR 0x22"
  shows "\<exists>body. quoteIdent s @ rest = CHR 0x22 # body \<and> readIdent body = Some (s, rest)"
  using readIdent_quoted [OF assms] by (simp add: quoteIdent_def)

theorem quoteIdent_read_witness:
  "\<exists>body. quoteIdent [CHR ''a'', CHR 0x22, CHR '';''] @ '' CASCADE'' = CHR 0x22 # body \<and>
     readIdent body = Some ([CHR ''a'', CHR 0x22, CHR '';''], '' CASCADE'')"
  by (rule quoteIdent_read) simp

end
