(* ===== verification/Migrations.thy ===== *)
theory Migrations
  imports Textformat "HOL-Library.Multiset"
begin

text \<open>
  \<^verbatim>\<open>migrations/migrate.go\<close>: the embedded SQL files in order and the run that applies those not
  recorded yet, each in a transaction of its own. The files are a list of names with their contents; the
  schema and what a SQL script makes of it are parameters; every statement may fail, and a
  commit that failed may have reached the database.
\<close>

section \<open>Loading\<close>

record Migration =
  Version :: int
  Name :: string
  SQL :: string

datatype mig_error = ErrGlob | ErrNotNumbered string | ErrVersion string | ErrRead string | ErrMissing int int nat
  | ErrVersionTable string | ErrReadApplied string | ErrBegin string string | ErrApply string string
  | ErrRecord string string | ErrCommit string string

text \<open>\<^verbatim>\<open>strings.Cut(name, "_")\<close>: what is before the first underscore.\<close>

definition cutVersion :: "string \<Rightarrow> string option" where
  "cutVersion name = (if CHR ''_'' \<in> set name then Some (takeWhile (\<lambda>c. c \<noteq> CHR ''_'') name) else None)"

definition Atoi :: "string \<Rightarrow> int option" where
  "Atoi s =
     (let neg = (s \<noteq> [] \<and> hd s = CHR ''-'');
          ds = (if s \<noteq> [] \<and> (hd s = CHR ''-'' \<or> hd s = CHR ''+'') then tl s else s);
          n = (if neg then - numval ds else numval ds) in
      if ds = [] \<or> \<not> list_all isDigit ds \<or> \<not> in64 n then None else Some n)"

fun loadFiles :: "(string \<times> string option) list \<Rightarrow> mig_error + Migration list" where
  "loadFiles [] = Inr []"
| "loadFiles ((name, content) # fs) =
     (case cutVersion name of None \<Rightarrow> Inl (ErrNotNumbered name) | Some ver \<Rightarrow>
      case Atoi ver of None \<Rightarrow> Inl (ErrVersion name) | Some v \<Rightarrow>
      case content of None \<Rightarrow> Inl (ErrRead name) | Some c \<Rightarrow>
      case loadFiles fs of Inl e \<Rightarrow> Inl e | Inr ms \<Rightarrow> Inr (\<lparr>Version = v, Name = name, SQL = c\<rparr> # ms))"

fun gapless :: "nat \<Rightarrow> Migration list \<Rightarrow> mig_error option" where
  "gapless i [] = None"
| "gapless i (m # ms) = (if Version m \<noteq> int i + 1 then Some (ErrMissing (int i + 1) (Version m) i) else gapless (Suc i) ms)"

text \<open>\<open>files\<close> is what the glob \<^verbatim>\<open>*.sql\<close> of the embedded directory gives, if it does.\<close>

definition Load :: "(string \<times> string option) list option \<Rightarrow> mig_error + Migration list" where
  "Load files =
     (case files of None \<Rightarrow> Inl ErrGlob | Some fs \<Rightarrow>
      case loadFiles fs of Inl e \<Rightarrow> Inl e | Inr ms \<Rightarrow>
      let sorted_ms = sort_key Version ms in
      case gapless 0 sorted_ms of Some e \<Rightarrow> Inl e | None \<Rightarrow> Inr sorted_ms)"

section \<open>Applying\<close>

text \<open>The database: the rows of \<^verbatim>\<open>schema_migrations\<close>, if the table exists, and the rest.\<close>

record 's mdb =
  mrows :: "(int \<times> string) list option"
  schema :: 's

text \<open>What goes wrong: a failed commit tells whether it reached the database all the same.\<close>

record mworld =
  tableErr :: "string option"
  readErr :: "string option"
  beginErr :: "int \<Rightarrow> string option"
  recordErr :: "int \<Rightarrow> string option"
  commitErr :: "int \<Rightarrow> (string \<times> bool) option"

definition int32 :: "int \<Rightarrow> bool" where
  "int32 n \<longleftrightarrow> - 2147483648 \<le> n \<and> n \<le> 2147483647"

definition applyOne :: "(string \<Rightarrow> 's \<Rightarrow> string + 's) \<Rightarrow> mworld \<Rightarrow> 's mdb \<Rightarrow> Migration \<Rightarrow> mig_error option \<times> 's mdb" where
  "applyOne run w d m =
     (case beginErr w (Version m) of Some e \<Rightarrow> (Some (ErrBegin (Name m) e), d) | None \<Rightarrow>
      case run (SQL m) (schema d) of Inl e \<Rightarrow> (Some (ErrApply (Name m) e), d) | Inr s \<Rightarrow>
      case recordErr w (Version m) of Some e \<Rightarrow> (Some (ErrRecord (Name m) e), d) | None \<Rightarrow>
      let rows = (case mrows d of None \<Rightarrow> [] | Some rs \<Rightarrow> rs);
          d' = d\<lparr>mrows := Some (rows @ [(Version m, Name m)]), schema := s\<rparr> in
      if mrows d = None \<or> Version m \<in> fst ` set rows \<or> \<not> int32 (Version m) then (Some (ErrRecord (Name m) ''insert''), d)
      else case commitErr w (Version m) of Some (e, landed) \<Rightarrow> (Some (ErrCommit (Name m) e), if landed then d' else d)
      | None \<Rightarrow> (None, d'))"

fun applyLoop :: "(string \<Rightarrow> 's \<Rightarrow> string + 's) \<Rightarrow> mworld \<Rightarrow> int set \<Rightarrow> nat \<Rightarrow> 's mdb \<Rightarrow> Migration list \<Rightarrow>
    (mig_error option \<times> nat) \<times> 's mdb" where
  "applyLoop run w applied_vs n d [] = ((None, n), d)"
| "applyLoop run w applied_vs n d (m # ms) =
     (if Version m \<in> applied_vs then applyLoop run w applied_vs n d ms
      else case applyOne run w d m of (Some e, d') \<Rightarrow> ((Some e, n), d') | (None, d') \<Rightarrow> applyLoop run w applied_vs (Suc n) d' ms)"

definition Apply :: "(string \<Rightarrow> 's \<Rightarrow> string + 's) \<Rightarrow> (string \<times> string option) list option \<Rightarrow> mworld \<Rightarrow> 's mdb \<Rightarrow>
    (mig_error option \<times> nat) \<times> 's mdb" where
  "Apply run files w d =
     (case tableErr w of Some e \<Rightarrow> ((Some (ErrVersionTable e), 0), d) | None \<Rightarrow>
      let rows = (case mrows d of None \<Rightarrow> [] | Some rs \<Rightarrow> rs); d1 = d\<lparr>mrows := Some rows\<rparr> in
      case readErr w of Some e \<Rightarrow> ((Some (ErrReadApplied e), 0), d1) | None \<Rightarrow>
      case Load files of Inl e \<Rightarrow> ((Some e, 0), d1) | Inr ms \<Rightarrow> applyLoop run w (fst ` set rows) 0 d1 ms)"

section \<open>Order\<close>

lemma gapless_versions: "gapless i ms = None \<longleftrightarrow> map Version ms = map (\<lambda>j. int j + 1) [i..<i + length ms]"
proof (induction i ms rule: gapless.induct)
  case (2 i m ms)
  have "[i..<i + length (m # ms)] = i # [Suc i..<Suc i + length ms]" by (simp add: upt_conv_Cons del: upt_Suc)
  with 2 show ?case by (cases "Version m = int i + 1") (simp_all del: upt_Suc)
qed simp

lemma loadFiles_map: "loadFiles fs = Inr ms \<Longrightarrow> map (\<lambda>m. (Name m, Some (SQL m))) ms = fs"
  by (induction fs arbitrary: ms rule: loadFiles.induct) (auto split: option.splits sum.splits)

lemma Load_versions:
  assumes "Load files = Inr ms"
  shows "map Version ms = map (\<lambda>j. int j + 1) [0..<length ms]"
  using assms gapless_versions [of 0 ms] by (auto simp: Load_def Let_def split: option.splits sum.splits)

section \<open>Recorded is applied\<close>

fun runAll :: "(string \<Rightarrow> 's \<Rightarrow> string + 's) \<Rightarrow> Migration list \<Rightarrow> 's \<Rightarrow> 's option" where
  "runAll run [] s = Some s"
| "runAll run (m # ms) s = (case run (SQL m) s of Inl e \<Rightarrow> None | Inr s' \<Rightarrow> runAll run ms s')"

lemma runAll_append: "runAll run (ms @ ns) s = (case runAll run ms s of None \<Rightarrow> None | Some s' \<Rightarrow> runAll run ns s')"
  by (induction ms arbitrary: s) (auto split: sum.splits)

text \<open>The first \<open>k\<close> migrations are recorded, in order, and the schema is what they make of the empty one.\<close>

definition migrated :: "(string \<Rightarrow> 's \<Rightarrow> string + 's) \<Rightarrow> 's \<Rightarrow> Migration list \<Rightarrow> nat \<Rightarrow> 's mdb \<Rightarrow> bool" where
  "migrated run s0 ms k d \<longleftrightarrow> k \<le> length ms \<and>
     (case mrows d of None \<Rightarrow> [] | Some rs \<Rightarrow> rs) = map (\<lambda>m. (Version m, Name m)) (take k ms) \<and>
     runAll run (take k ms) s0 = Some (schema d)"

lemma applyOne_cases:
  assumes "applyOne run w d m = (res, d')"
  shows "d' = d \<and> res \<noteq> None \<or> (\<exists>s. run (SQL m) (schema d) = Inr s \<and>
    d' = d\<lparr>mrows := Some ((case mrows d of None \<Rightarrow> [] | Some rs \<Rightarrow> rs) @ [(Version m, Name m)]), schema := s\<rparr>)"
  using assms by (auto simp: applyOne_def Let_def split: option.splits sum.splits if_splits)

lemma applyOne_migrated:
  assumes "migrated run s0 ms k d" "k < length ms" "applyOne run w d (ms ! k) = (res, d')"
  shows "migrated run s0 ms k d' \<and> d' = d \<and> res \<noteq> None \<or> migrated run s0 ms (Suc k) d' \<and> mrows d' \<noteq> None"
  using applyOne_cases [OF assms(3)]
proof (elim disjE exE conjE)
  assume "d' = d" "res \<noteq> None"
  with assms(1) show ?thesis by blast
next
  fix s assume s: "run (SQL (ms ! k)) (schema d) = Inr s"
    "d' = d\<lparr>mrows := Some ((case mrows d of None \<Rightarrow> [] | Some rs \<Rightarrow> rs) @ [(Version (ms ! k), Name (ms ! k))]), schema := s\<rparr>"
  have "take (Suc k) ms = take k ms @ [ms ! k]" using assms(2) by (simp add: take_Suc_conv_app_nth)
  with s assms(1,2) show ?thesis by (simp add: migrated_def runAll_append)
qed

text \<open>The loop skips what was recorded before it started, and goes on from there.\<close>

lemma applyLoop_skips:
  "(\<forall>m \<in> set ms. Version m \<in> vs) \<Longrightarrow> applyLoop run w vs n d (ms @ ns) = applyLoop run w vs n d ns"
  by (induction ms) simp_all

lemma applyLoop_migrated:
  assumes "distinct (map Version ms)" "\<forall>m \<in> set (drop k ms). Version m \<notin> vs" "migrated run s0 ms k d"
    and "applyLoop run w vs n d (drop k ms) = ((res, n'), d')"
  shows "\<exists>k' \<ge> k. migrated run s0 ms k' d' \<and> (res = None \<longrightarrow> k' = length ms \<and> n' = n + (length ms - k))"
  using assms(2-4)
proof (induction "length ms - k" arbitrary: k n d)
  case 0
  then have "k = length ms" by (simp add: migrated_def)
  with 0 show ?case by auto
next
  case (Suc j)
  then have k: "k < length ms" by simp
  have rest: "drop k ms = ms ! k # drop (Suc k) ms" using k by (simp add: Cons_nth_drop_Suc)
  then have new: "Version (ms ! k) \<notin> vs" using Suc.prems(1) by simp
  obtain r d1 where one: "applyOne run w d (ms ! k) = (r, d1)" by force
  note step = applyOne_migrated [OF Suc.prems(2) k one]
  show ?case
  proof (cases r)
    case (Some e)
    with Suc.prems(3) rest new one have "d' = d1" "res = Some e" by auto
    with step show ?thesis by (metis Suc_n_not_le_n le_refl linorder_le_cases option.distinct(1))
  next
    case None
    with Suc.prems(3) rest new one have "applyLoop run w vs (Suc n) d1 (drop (Suc k) ms) = ((res, n'), d')" by simp
    moreover have "migrated run s0 ms (Suc k) d1" using step None by blast
    moreover have "j = length ms - Suc k" using Suc.hyps(2) by simp
    ultimately obtain k' where "k' \<ge> Suc k" "migrated run s0 ms k' d'" "res = None \<longrightarrow> k' = length ms \<and> n' = Suc n + (length ms - Suc k)"
      using Suc.hyps(1) [of "Suc k" d1 "Suc n"] Suc.prems(1) rest by auto
    with k show ?thesis by (intro exI [of _ k']) auto
  qed
qed

lemma recorded_versions:
  assumes "Load files = Inr ms" "migrated run s0 ms k d"
  shows "fst ` set (case mrows d of None \<Rightarrow> [] | Some rs \<Rightarrow> rs) = set (map Version (take k ms))"
    "distinct (map Version ms)" "\<forall>m \<in> set (drop k ms). Version m \<notin> set (map Version (take k ms))"
    "\<forall>m \<in> set ms. 1 \<le> Version m \<and> Version m \<le> int (length ms)"
proof -
  show dist: "distinct (map Version ms)" unfolding Load_versions [OF assms(1)] by (simp add: distinct_map inj_on_def)
  show "fst ` set (case mrows d of None \<Rightarrow> [] | Some rs \<Rightarrow> rs) = set (map Version (take k ms))"
    using assms(2) by (force simp: migrated_def)
  have "map Version ms = map Version (take k ms) @ map Version (drop k ms)" by (metis append_take_drop_id map_append)
  with dist show "\<forall>m \<in> set (drop k ms). Version m \<notin> set (map Version (take k ms))"
    by (metis IntI distinct_append empty_iff image_eqI set_map)
  have "set (map Version ms) \<subseteq> {1..int (length ms)}" unfolding Load_versions [OF assms(1)] by auto
  then show "\<forall>m \<in> set ms. 1 \<le> Version m \<and> Version m \<le> int (length ms)" by auto
qed

lemma Apply_migrated:
  assumes "Load files = Inr ms" "migrated run s0 ms k d" "Apply run files w d = ((res, n), d')"
  shows "\<exists>k' \<ge> k. migrated run s0 ms k' d' \<and> (res = None \<longrightarrow> k' = length ms \<and> n = length ms - k)"
proof -
  let ?rows = "case mrows d of None \<Rightarrow> [] | Some rs \<Rightarrow> rs"
  note vs = recorded_versions(1) [OF assms(1,2)] and dist = recorded_versions(2) [OF assms(1,2)]
  have d1: "migrated run s0 ms k (d\<lparr>mrows := Some ?rows\<rparr>)" using assms(2) by (simp add: migrated_def)
  have fresh: "\<forall>m \<in> set (drop k ms). Version m \<notin> fst ` set ?rows" unfolding vs by (rule recorded_versions(3) [OF assms(1,2)])
  have skip: "applyLoop run w (fst ` set ?rows) 0 (d\<lparr>mrows := Some ?rows\<rparr>) ms =
      applyLoop run w (fst ` set ?rows) 0 (d\<lparr>mrows := Some ?rows\<rparr>) (drop k ms)"
    using applyLoop_skips [of "take k ms" "fst ` set ?rows" run w 0 "d\<lparr>mrows := Some ?rows\<rparr>" "drop k ms"] unfolding vs by simp
  from assms(3) consider "d' = d" "res \<noteq> None" | "d' = d\<lparr>mrows := Some ?rows\<rparr>" "res \<noteq> None"
    | "applyLoop run w (fst ` set ?rows) 0 (d\<lparr>mrows := Some ?rows\<rparr>) ms = ((res, n), d')"
    using assms(1) by (auto simp: Apply_def Let_def split: option.splits)
  then show ?thesis
  proof cases
    case 3
    from applyLoop_migrated [OF dist fresh d1 3 [unfolded skip]] show ?thesis by simp
  qed (use assms(2) d1 in auto)
qed

text \<open>A run that nothing disturbs.\<close>

definition undisturbed :: mworld where
  "undisturbed = \<lparr>tableErr = None, readErr = None, beginErr = \<lambda>v. None, recordErr = \<lambda>v. None, commitErr = \<lambda>v. None\<rparr>"

lemma applyLoop_undisturbed:
  assumes "distinct (map Version ms)" "\<forall>m \<in> set (drop k ms). Version m \<notin> vs" "\<forall>m \<in> set ms. int32 (Version m)"
    and "runAll run ms s0 \<noteq> None" "migrated run s0 ms k d" "mrows d \<noteq> None"
  shows "\<exists>d'. applyLoop run undisturbed vs n d (drop k ms) = ((None, n + (length ms - k)), d')"
  using assms(2,5,6)
proof (induction "length ms - k" arbitrary: k n d)
  case 0
  then have "k = length ms" by (simp add: migrated_def)
  then show ?case by simp
next
  case (Suc j)
  then have k: "k < length ms" by simp
  have rest: "drop k ms = ms ! k # drop (Suc k) ms" "take (Suc k) ms = take k ms @ [ms ! k]"
    using k by (simp_all add: Cons_nth_drop_Suc take_Suc_conv_app_nth)
  have rows: "the (mrows d) = map (\<lambda>m. (Version m, Name m)) (take k ms)" using Suc.prems(2,3) by (auto simp: migrated_def)
  have "Version (ms ! k) \<notin> set (map Version (take k ms))"
  proof -
    have "distinct (map Version (take (Suc k) ms))" using assms(1) by (metis distinct_take take_map)
    then show ?thesis by (simp add: rest(2))
  qed
  then have new: "Version (ms ! k) \<notin> fst ` set (the (mrows d))" unfolding rows by force
  have "runAll run (take k ms @ ms ! k # drop (Suc k) ms) s0 \<noteq> None" using assms(4) rest(1) by (metis append_take_drop_id)
  moreover have "runAll run (take k ms) s0 = Some (schema d)" using Suc.prems(2) by (simp add: migrated_def)
  ultimately obtain s where s: "run (SQL (ms ! k)) (schema d) = Inr s" by (auto simp: runAll_append split: sum.splits)
  obtain d1 where one: "applyOne run undisturbed d (ms ! k) = (None, d1)"
    using new s assms(3) k Suc.prems(3) by (auto simp: applyOne_def undisturbed_def Let_def split: option.splits)
  note step = applyOne_migrated [OF Suc.prems(2) k one]
  have "j = length ms - Suc k" using Suc.hyps(2) by simp
  from Suc.hyps(1) [OF this, of d1 "Suc n"] step Suc.prems(1) rest(1) obtain d' where
    "applyLoop run undisturbed vs (Suc n) d1 (drop (Suc k) ms) = ((None, Suc n + (length ms - Suc k)), d')" by auto
  with rest(1) one Suc.prems(1) k show ?case by simp
qed

lemma Apply_undisturbed:
  assumes "Load files = Inr ms" "runAll run ms s0 \<noteq> None" "length ms < 2147483647" "migrated run s0 ms k d"
  shows "\<exists>d'. Apply run files undisturbed d = ((None, length ms - k), d')"
proof -
  let ?rows = "case mrows d of None \<Rightarrow> [] | Some rs \<Rightarrow> rs" and ?d = "d\<lparr>mrows := Some (case mrows d of None \<Rightarrow> [] | Some rs \<Rightarrow> rs)\<rparr>"
  note vs = recorded_versions [OF assms(1,4)]
  have "\<forall>m \<in> set ms. int32 (Version m)" using vs(4) assms(3) by (auto simp: int32_def)
  moreover have "migrated run s0 ms k ?d" "mrows ?d \<noteq> None" using assms(4) by (simp_all add: migrated_def)
  ultimately obtain d' where
    "applyLoop run undisturbed (set (map Version (take k ms))) 0 ?d (drop k ms) = ((None, 0 + (length ms - k)), d')"
    using applyLoop_undisturbed [OF vs(2,3) _ assms(2)] by blast
  with applyLoop_skips [of "take k ms" "set (map Version (take k ms))" run undisturbed 0 ?d "drop k ms"]
  have "applyLoop run undisturbed (set (map Version (take k ms))) 0 ?d ms = ((None, length ms - k), d')" by simp
  then show ?thesis using assms(1) vs(1) by (simp add: Apply_def undisturbed_def Let_def)
qed

lemma applyLoop_rows: "mrows d \<noteq> None \<Longrightarrow> applyLoop run w vs n d ms = (r, d') \<Longrightarrow> mrows d' \<noteq> None"
proof (induction ms arbitrary: n d)
  case (Cons m ms)
  obtain r1 d1 where one: "applyOne run w d m = (r1, d1)" by force
  from applyOne_cases [OF this] Cons.prems(1) have "mrows d1 \<noteq> None" by auto
  with Cons one show ?case by (cases "Version m \<in> vs"; cases r1) auto
qed auto

lemma Apply_rows: "Apply run files w d = ((None, n), d') \<Longrightarrow> mrows d' \<noteq> None"
  by (auto simp: Apply_def Let_def dest!: applyLoop_rows [rotated] split: option.splits sum.splits)

lemma Apply_all:
  assumes "Load files = Inr ms" "migrated run s0 ms (length ms) d" "mrows d \<noteq> None"
  shows "Apply run files undisturbed d = ((None, 0), d)"
proof -
  obtain rows where rows: "mrows d = Some rows" using assms(3) by blast
  have "fst ` set rows = set (map Version ms)" using recorded_versions(1) [OF assms(1,2)] rows by simp
  with applyLoop_skips [of ms "fst ` set rows" run undisturbed 0 d "[]"] have "applyLoop run undisturbed (fst ` set rows) 0 d ms = ((None, 0), d)" by simp
  moreover have same: "d\<lparr>mrows := Some rows\<rparr> = d" using rows by simp
  have "tableErr undisturbed = None" "readErr undisturbed = None" by (simp_all add: undisturbed_def)
  ultimately show ?thesis using assms(1) rows by (simp add: Apply_def Let_def same)
qed

section \<open>Properties\<close>

text \<open>
  The migrations of the repository load only complete and in order: what \<^verbatim>\<open>Load\<close> returns is numbered 1, 2, 3
  and so on without a gap or a repetition, every number is the one its file name starts with, and every
  file of the directory is there with its contents.
\<close>

theorem Load_gapless:
  assumes "Load (Some fs) = Inr ms"
  shows "map Version ms = map (\<lambda>j. int j + 1) [0..<length fs] \<and> mset (map (\<lambda>m. (Name m, Some (SQL m))) ms) = mset fs \<and>
    (\<forall>m \<in> set ms. \<exists>ver. cutVersion (Name m) = Some ver \<and> Atoi ver = Some (Version m))"
proof -
  obtain us where us: "loadFiles fs = Inr us" "ms = sort_key Version us"
    using assms by (auto simp: Load_def Let_def split: sum.splits option.splits)
  have files: "map (\<lambda>m. (Name m, Some (SQL m))) us = fs" by (rule loadFiles_map [OF us(1)])
  have "length ms = length fs" unfolding us(2) files [symmetric] by simp
  moreover have "mset (map (\<lambda>m. (Name m, Some (SQL m))) ms) = mset fs" unfolding files [symmetric] us(2) by (simp add: mset_map)
  moreover have "\<forall>m \<in> set us. \<exists>ver. cutVersion (Name m) = Some ver \<and> Atoi ver = Some (Version m)"
    using us(1) by (induction fs arbitrary: us rule: loadFiles.induct) (auto split: option.splits sum.splits)
  ultimately show ?thesis using Load_versions [OF assms] us(2) by simp
qed

theorem Load_gapless_witness:
  "\<exists>ms. Load (Some [(''0002_postings_entries.sql'', Some ''b''), (''0001_accounts.sql'', Some ''a'')]) = Inr ms \<and>
     map Version ms = [1, 2]"
proof -
  let ?fs = "[(''0002_postings_entries.sql'', Some ''b''), (''0001_accounts.sql'', Some ''a'')]"
  have "case Load (Some ?fs) of Inl e \<Rightarrow> False | Inr ms \<Rightarrow> True" by code_simp
  then obtain ms where ms: "Load (Some ?fs) = Inr ms" by (auto split: sum.splits)
  from Load_gapless [OF ms] ms show ?thesis by (simp add: upt_conv_Cons)
qed

text \<open>
  C20. Migrating can be interrupted anywhere and run again: after any sequence of attempts on a new database, whatever
  failed in each of them, lost commits included, exactly the first migrations are recorded and the
  schema is what running those once in order makes; an undisturbed attempt then applies the
  rest and no other, ends with the schema of all of them, and one more changes nothing.
\<close>

theorem Apply_resumable:
  assumes "Load files = Inr ms" "runAll run ms s0 \<noteq> None" "length ms < 2147483647"
    and "d = foldl (\<lambda>d w. snd (Apply run files w d)) \<lparr>mrows = None, schema = s0\<rparr> ws"
  shows "\<exists>k d'. k \<le> length ms \<and>
    (case mrows d of None \<Rightarrow> [] | Some rs \<Rightarrow> rs) = map (\<lambda>m. (Version m, Name m)) (take k ms) \<and>
    runAll run (take k ms) s0 = Some (schema d) \<and>
    Apply run files undisturbed d = ((None, length ms - k), d') \<and> runAll run ms s0 = Some (schema d') \<and>
    Apply run files undisturbed d' = ((None, 0), d')"
proof -
  have "\<exists>k. migrated run s0 ms k (foldl (\<lambda>d w. snd (Apply run files w d)) \<lparr>mrows = None, schema = s0\<rparr> ws)" for ws
  proof (induction ws rule: rev_induct)
    case Nil
    show ?case by (intro exI [of _ 0]) (simp add: migrated_def)
  next
    case (snoc w ws)
    let ?d = "foldl (\<lambda>d w. snd (Apply run files w d)) \<lparr>mrows = None, schema = s0\<rparr> ws"
    obtain res n d' where A: "Apply run files w ?d = ((res, n), d')" by (metis surj_pair)
    from snoc obtain k where "migrated run s0 ms k ?d" by blast
    from Apply_migrated [OF assms(1) this A] A show ?case by auto
  qed
  then obtain k where k: "migrated run s0 ms k d" unfolding assms(4) by blast
  from Apply_undisturbed [OF assms(1-3) k] obtain d' where d': "Apply run files undisturbed d = ((None, length ms - k), d')" by blast
  from Apply_migrated [OF assms(1) k d'] have m': "migrated run s0 ms (length ms) d'" by auto
  have "Apply run files undisturbed d' = ((None, 0), d')" by (rule Apply_all [OF assms(1) m' Apply_rows [OF d']])
  with k m' d' show ?thesis by (intro exI [of _ k] exI [of _ d']) (auto simp: migrated_def)
qed

definition sampleFiles :: "(string \<times> string option) list option" where
  "sampleFiles = Some [(''0001_a.sql'', Some ''a''), (''0002_b.sql'', Some ''b''), (''0003_c.sql'', Some ''c'')]"

definition sampleMigrations :: "Migration list" where
  "sampleMigrations = [\<lparr>Version = 1, Name = ''0001_a.sql'', SQL = ''a''\<rparr>, \<lparr>Version = 2, Name = ''0002_b.sql'', SQL = ''b''\<rparr>,
     \<lparr>Version = 3, Name = ''0003_c.sql'', SQL = ''c''\<rparr>]"

text \<open>The schema is the list of scripts run; the commit of the second migration is reported lost but reached the database.\<close>

definition sampleScript :: "string \<Rightarrow> string list \<Rightarrow> string + string list" where
  "sampleScript sql s = Inr (s @ [sql])"

theorem Apply_resumable_witness:
  "\<exists>d'. Apply sampleScript sampleFiles undisturbed (snd (Apply sampleScript sampleFiles
        (undisturbed\<lparr>commitErr := (\<lambda>v. if v = 2 then Some (''lost'', True) else None)\<rparr>) \<lparr>mrows = None, schema = []\<rparr>)) = ((None, 1), d') \<and>
     schema d' = [''a'', ''b'', ''c'']"
proof -
  let ?w = "undisturbed\<lparr>commitErr := (\<lambda>v. if v = 2 then Some (''lost'', True) else None)\<rparr>"
  let ?d = "foldl (\<lambda>d w. snd (Apply sampleScript sampleFiles w d)) \<lparr>mrows = None, schema = []\<rparr> [?w]"
  have load: "Load sampleFiles = Inr sampleMigrations" by code_simp
  have all: "runAll sampleScript sampleMigrations [] = Some [''a'', ''b'', ''c'']" by code_simp
  then have "runAll sampleScript sampleMigrations [] \<noteq> None" "length sampleMigrations < 2147483647"
    by (simp_all add: sampleMigrations_def)
  from Apply_resumable [OF load this refl, of "[?w]"] obtain k d' where
    k: "runAll sampleScript (take k sampleMigrations) [] = Some (schema ?d)" "k \<le> length sampleMigrations"
    "Apply sampleScript sampleFiles undisturbed ?d = ((None, length sampleMigrations - k), d')"
    "runAll sampleScript sampleMigrations [] = Some (schema d')" by blast
  have "schema ?d = [''a'', ''b'']" by code_simp
  moreover have len: "runAll sampleScript ms s = Some s' \<Longrightarrow> length s' = length s + length ms" for ms s s'
    by (induction ms arbitrary: s) (auto simp: sampleScript_def)
  ultimately have "k = 2" using len [OF k(1)] k(2) by simp
  with k(3,4) all show ?thesis by (intro exI [of _ d']) (simp add: sampleMigrations_def)
qed

end
