(* ===== verification/Sweep.thy ===== *)
theory Sweep
  imports Names Migrations
begin

text \<open>
  \<^verbatim>\<open>Runner.Run\<close> and \<^verbatim>\<open>Runner.one\<close> of \<^verbatim>\<open>internal/harness/ablation/run.go\<close>: the sweep over configurations and
  runs, and the steps of one run in their order. What the steps return is a record of answers, one per
  run; the theory \<open>Onerun\<close> composes the functions they are the answers of and shows that each run it
  makes is one of these.
\<close>

section \<open>One run\<close>

record answers =
  anProvision :: "string + string"
  anOpen :: "string option"
  anMigrate :: "mig_error option"
  anSuspense :: "cons_error option"
  anSeed :: "store_error + uuid list"
  anTopic :: "broker_error option"
  anLedger :: "ledger_error option"
  anProducer :: "broker_error option"
  anDrive :: "int \<times> (int \<rightharpoonup> int) \<times> drive_error option"
  anChaos :: "ChaosRecord list option"
  anDrain :: "bool \<times> drain_error option"
  anDrainTime :: int
  anLag :: "broker_error + int"
  anCounts :: "db \<times> db \<times> db"
  anRows :: "string + (string \<times> int) list"

datatype one_error = OneProvision string | OneOpen string | OneMigrate mig_error | OneSuspense cons_error | OneSeed store_error
  | OneTopic broker_error | OneLedger ledger_error | OneProducer broker_error | OneDrive drive_error | OneMeasure measure_error

record Cluster =
  clVersion :: string
  clDocker :: bool

definition newArtefact :: "Spec \<Rightarrow> Cluster \<Rightarrow> Mode \<Rightarrow> string \<Rightarrow> string \<Rightarrow> Artefact" where
  "newArtefact s cl m run sweep = \<lparr>RunID = run, Config = m, aSeed = sSeed s, aProfile = sProfile s, RatePerSec = sRate s,
     DurationSec = toInt64 (Seconds (sDuration s)), Schedule = sSchedule s, LedgerSHA = sLedgerSHA s,
     aBrokerVersion = clVersion cl, SweepID = sweep, Executed = [], Sent = 0, aApplied = 0, Lost = 0, Duplicated = 0, InFlight = 0,
     P50 = 0, P95 = 0, P99 = 0, LagPeak = 0, DrainSeconds = 0, InvariantHeld = False, Effects = 0, Drained = False,
     ExactCounts = False\<rparr>"

text \<open>What happens once the load has been sent: the schedule, the drain, the lag, the measurements.\<close>

definition observedRun :: "Spec \<Rightarrow> Cluster \<Rightarrow> answers \<Rightarrow> Artefact \<Rightarrow> Artefact" where
  "observedRun s cl an art =
     (let ran = (if \<not> clDocker cl \<or> sSchedule s = [] then Some [] else anChaos an);
          art1 = (case ran of None \<Rightarrow> art | Some recs \<Rightarrow> art\<lparr>Executed := recs\<rparr>);
          art2 = art1\<lparr>Drained := fst (anDrain an), DrainSeconds := Seconds (anDrainTime an)\<rparr> in
      case anLag an of Inl _ \<Rightarrow> art2 | Inr behind \<Rightarrow> art2\<lparr>InFlight := behind\<rparr>)"

definition afterLoad :: "Spec \<Rightarrow> Cluster \<Rightarrow> answers \<Rightarrow> Artefact \<Rightarrow> Artefact \<times> one_error option" where
  "afterLoad s cl an art =
     (let art3 = observedRun s cl an art; (d1, d2, d3) = anCounts an in
      case measure_run d1 d2 d3 art3 of Inl e \<Rightarrow> (art3, Some (OneMeasure e))
      | Inr art4 \<Rightarrow> (case anRows an of Inl _ \<Rightarrow> (art4, None)
          | Inr rows \<Rightarrow> (snd (measureLatency (max 0 (driveTotal s)) (fst (snd (anDrive an))) rows art4), None)))"

definition one :: "Spec \<Rightarrow> Cluster \<Rightarrow> Mode \<Rightarrow> string \<Rightarrow> string \<Rightarrow> answers \<Rightarrow> Artefact \<times> one_error option" where
  "one s cl m run sweep an =
     (let art = newArtefact s cl m run sweep in
      case anProvision an of Inl e \<Rightarrow> (art, Some (OneProvision e)) | Inr dsn \<Rightarrow>
      case anOpen an of Some e \<Rightarrow> (art, Some (OneOpen e)) | None \<Rightarrow>
      case anMigrate an of Some e \<Rightarrow> (art, Some (OneMigrate e)) | None \<Rightarrow>
      case anSuspense an of Some e \<Rightarrow> (art, Some (OneSuspense e)) | None \<Rightarrow>
      case anSeed an of Inl e \<Rightarrow> (art, Some (OneSeed e)) | Inr accs \<Rightarrow>
      case anTopic an of Some e \<Rightarrow> (art, Some (OneTopic e)) | None \<Rightarrow>
      case anLedger an of Some e \<Rightarrow> (art, Some (OneLedger e)) | None \<Rightarrow>
      case anProducer an of Some e \<Rightarrow> (art, Some (OneProducer e)) | None \<Rightarrow>
      let (snt, sentAt, err) = anDrive an; art' = art\<lparr>Sent := snt\<rparr> in
      case err of Some e \<Rightarrow> (art', Some (OneDrive e)) | None \<Rightarrow> afterLoad s cl an art')"

section \<open>The sweep\<close>

datatype run_error = RunSpec spec_error | RunNoCluster | RunHolds Kind string Kind | RunOne string one_error | RunWrite string

fun runsLoop :: "codec \<Rightarrow> Spec \<Rightarrow> Cluster \<Rightarrow> string \<Rightarrow> (string \<Rightarrow> answers) \<Rightarrow> (string \<Rightarrow> string option) \<Rightarrow> (Mode \<times> nat) list \<Rightarrow>
    Artefact list \<Rightarrow> (string \<rightharpoonup> string) \<Rightarrow> (Artefact list \<times> run_error option) \<times> (string \<rightharpoonup> string)" where
  "runsLoop js s cl sweep an wr [] out files = ((out, None), files)"
| "runsLoop js s cl sweep an wr ((m, i) # rest) out files =
     (let run = runID (sProfile s) m i; (art, err) = one s cl m run sweep (an run) in
      case err of Some e \<Rightarrow> ((out, Some (RunOne run e)), files) | None \<Rightarrow>
      case wr run of Some e \<Rightarrow> ((out, Some (RunWrite e)), files)
      | None \<Rightarrow> runsLoop js s cl sweep an wr rest (out @ [art]) (Write js art files))"

definition runner_Run :: "codec \<Rightarrow> (string \<Rightarrow> string option) \<Rightarrow> Cluster option \<Rightarrow> Spec \<Rightarrow> ablation_error + Artefact list \<Rightarrow> int \<Rightarrow>
    (string \<Rightarrow> answers) \<Rightarrow> (string \<Rightarrow> string option) \<Rightarrow> (string \<rightharpoonup> string) \<Rightarrow> (Artefact list \<times> run_error option) \<times> (string \<rightharpoonup> string)" where
  "runner_Run js stt target spec existing now an wr files =
     (let s = setDefaults spec in
      case spec_validate stt s of Some e \<Rightarrow> (([], Some (RunSpec e)), files) | None \<Rightarrow>
      case target of None \<Rightarrow> (([], Some RunNoCluster), files) | Some cl \<Rightarrow>
      let mine = kind_of (newArtefact s cl [] [] []);
          other = (case existing of Inl _ \<Rightarrow> None | Inr as \<Rightarrow> find (\<lambda>a. kind_of a \<noteq> mine) as) in
      case other of Some a \<Rightarrow> (([], Some (RunHolds (kind_of a) (RunID a) mine)), files)
      | None \<Rightarrow> runsLoop js s cl (sweepID now) an wr (concat (map (\<lambda>m. map (Pair m) [0..<nat (sRuns s)]) (sConfigs s))) [] files)"

section \<open>What a run keeps\<close>

definition fixedOf :: "Artefact \<Rightarrow> string \<times> Mode \<times> int \<times> string \<times> int \<times> int \<times> Event list \<times> string \<times> string \<times> string" where
  "fixedOf a = (RunID a, Config a, aSeed a, aProfile a, RatePerSec a, DurationSec a, Schedule a, LedgerSHA a, aBrokerVersion a, SweepID a)"

lemma measure_run_fixed: "measure_run d1 d2 d3 a = Inr a' \<Longrightarrow> fixedOf a' = fixedOf a \<and> Drained a' = Drained a \<and> Sent a' = Sent a"
  by (auto simp: measure_run_def Let_def fixedOf_def split: if_splits sum.splits)

lemma measureLatency_fixed: "fixedOf (snd (measureLatency tot sentAt rows a)) = fixedOf a \<and>
    Drained (snd (measureLatency tot sentAt rows a)) = Drained a \<and> Sent (snd (measureLatency tot sentAt rows a)) = Sent a"
  by (simp add: measureLatency_def Let_def fixedOf_def)

lemma observedRun_fixed: "fixedOf (observedRun s cl an a) = fixedOf a \<and> Drained (observedRun s cl an a) = fst (anDrain an) \<and>
    Sent (observedRun s cl an a) = Sent a"
  by (simp add: observedRun_def Let_def fixedOf_def split: option.split sum.split)

lemma one_fixed:
  assumes "one s cl m run sweep an = (art, None)"
  shows "fixedOf art = fixedOf (newArtefact s cl m run sweep) \<and> Drained art = fst (anDrain an) \<and> Sent art = fst (anDrive an)"
proof -
  obtain snt sentAt err where dr: "anDrive an = (snt, sentAt, err)" by (metis surj_pair)
  with assms have A: "afterLoad s cl an ((newArtefact s cl m run sweep)\<lparr>Sent := snt\<rparr>) = (art, None)"
    by (auto simp: one_def Let_def split: sum.splits option.splits)
  obtain d1 d2 d3 where c: "anCounts an = (d1, d2, d3)" by (metis surj_pair)
  let ?art3 = "observedRun s cl an ((newArtefact s cl m run sweep)\<lparr>Sent := snt\<rparr>)"
  from A c obtain art4 where art4: "measure_run d1 d2 d3 ?art3 = Inr art4"
    "art = art4 \<or> (\<exists>rows. art = snd (measureLatency (max 0 (driveTotal s)) (fst (snd (anDrive an))) rows art4))"
    by (auto simp: afterLoad_def Let_def split: sum.splits)
  have "fixedOf art = fixedOf art4 \<and> Drained art = Drained art4 \<and> Sent art = Sent art4" using art4(2) measureLatency_fixed by auto
  with measure_run_fixed [OF art4(1)] observedRun_fixed [of s cl an "(newArtefact s cl m run sweep)\<lparr>Sent := snt\<rparr>"] dr
  show ?thesis by (simp add: fixedOf_def)
qed

text \<open>The plan of a sweep: every run of every configuration, in order.\<close>

definition plan :: "Spec \<Rightarrow> (Mode \<times> nat) list" where
  "plan s = concat (map (\<lambda>m. map (Pair m) [0..<nat (sRuns s)]) (sConfigs s))"

lemma runsLoop_result:
  assumes "runsLoop js s cl sweep an wr rest out files = ((out', err), files')"
  shows "\<exists>arts. out' = out @ arts \<and> length arts \<le> length rest \<and> (err = None \<longrightarrow> length arts = length rest) \<and>
    files' = fold (Write js) arts files \<and>
    list_all2 (\<lambda>(m, i) a. one s cl m (runID (sProfile s) m i) sweep (an (runID (sProfile s) m i)) = (a, None)) (take (length arts) rest) arts"
  using assms
proof (induction rest arbitrary: out files)
  case Nil
  then show ?case by (intro exI [of _ "[]"]) simp
next
  case (Cons c rest)
  obtain m i where c: "c = (m, i)" by force
  obtain a e where o: "one s cl m (runID (sProfile s) m i) sweep (an (runID (sProfile s) m i)) = (a, e)" by force
  show ?case
  proof (cases "e = None \<and> wr (runID (sProfile s) m i) = None")
    case True
    with Cons.prems c o have "runsLoop js s cl sweep an wr rest (out @ [a]) (Write js a files) = ((out', err), files')"
      by (simp add: Let_def)
    from Cons.IH [OF this] obtain arts where "out' = (out @ [a]) @ arts" "length arts \<le> length rest" "err = None \<longrightarrow> length arts = length rest"
      "files' = fold (Write js) arts (Write js a files)"
      "list_all2 (\<lambda>(m, i) a. one s cl m (runID (sProfile s) m i) sweep (an (runID (sProfile s) m i)) = (a, None)) (take (length arts) rest) arts"
      by blast
    with True c o show ?thesis by (intro exI [of _ "a # arts"]) simp
  next
    case False
    with Cons.prems c o have "out' = out" "files' = files" "err \<noteq> None" by (auto simp: Let_def split: option.splits)
    then show ?thesis by (intro exI [of _ "[]"]) simp
  qed
qed

lemma ran_config:
  assumes "list_all2 (\<lambda>(m, i) a. one s cl m (runID (sProfile s) m i) sweep (an (runID (sProfile s) m i)) = (a, None)) ps arts"
  shows "map (\<lambda>a. (Config a, RunID a)) arts = map (\<lambda>(m, i). (m, runID (sProfile s) m i)) ps \<and>
    (\<forall>a \<in> set arts. \<exists>m run. fixedOf a = fixedOf (newArtefact s cl m run sweep) \<and> Drained a = fst (anDrain (an run)) \<and>
      Sent a = fst (anDrive (an run)))"
  using assms
proof (induction ps arts rule: list_all2_induct)
  case (Cons p ps a arts)
  obtain m i where p: "p = (m, i)" by force
  from one_fixed [of s cl m "runID (sProfile s) m i" sweep "an (runID (sProfile s) m i)" a] Cons.hyps p
  have f: "fixedOf a = fixedOf (newArtefact s cl m (runID (sProfile s) m i) sweep)"
    "Drained a = fst (anDrain (an (runID (sProfile s) m i)))" "Sent a = fst (anDrive (an (runID (sProfile s) m i)))" by simp_all
  then have "Config a = m" "RunID a = runID (sProfile s) m i" by (simp_all add: fixedOf_def newArtefact_def)
  with Cons.IH f p show ?case by auto
qed simp

lemma fold_Write_file:
  "distinct (map RunID arts) \<Longrightarrow> a \<in> set arts \<Longrightarrow> fold (Write js) arts files (RunID a) = Some (marshalArtefact js a @ [CHR 0x0A])"
proof (induction arts rule: rev_induct)
  case (snoc b arts)
  show ?case
  proof (cases "a = b")
    case False
    with snoc.prems have a: "a \<in> set arts" by auto
    then have "RunID a \<in> RunID ` set arts" by simp
    with snoc.prems(1) have "RunID a \<noteq> RunID b" by auto
    with snoc a show ?thesis by (simp add: Write_def)
  qed (simp add: Write_def)
qed simp

lemma runner_Run_ok:
  assumes "runner_Run js stt target spec existing now an wr files = ((out, None), files')"
  obtains cl where "target = Some cl" "spec_validate stt (setDefaults spec) = None"
    "runsLoop js (setDefaults spec) cl (sweepID now) an wr (plan (setDefaults spec)) [] files = ((out, None), files')"
  using assms by (auto simp: runner_Run_def Let_def plan_def split: option.splits)

lemma defaults_configs: "sConfigs (setDefaults spec) \<noteq> []"
  by (simp add: setDefaults_def Let_def)

lemma plan_runs: "length (filter (\<lambda>p. fst p = m) (plan s)) = count_list (sConfigs s) m * nat (sRuns s)"
proof -
  have "length (filter (\<lambda>p. fst p = m) (concat (map (\<lambda>m. map (Pair m) [0..<nat (sRuns s)]) ms))) = count_list ms m * nat (sRuns s)" for ms
    by (induction ms) (auto simp: filter_map o_def)
  then show ?thesis by (simp add: plan_def)
qed

lemma same_fixed_key:
  assumes "fixedOf a = fixedOf (newArtefact s cl m run sweep)" "fixedOf b = fixedOf (newArtefact s cl m' run' sweep)"
  shows "fixedKey js a = fixedKey js b" "kind_of a = kind_of b" "aBrokerVersion a = clVersion cl"
  using assms by (simp_all add: fixedOf_def newArtefact_def fixedKey_def kind_of_def)

lemma runID_inj:
  assumes "Valid m" "Valid m'" "runID p m i = runID p m' i'"
  shows "m = m' \<and> i = i'"
proof -
  from runID_split [OF assms(1)] obtain c where c: "m = [c]"
    "map dbChar (runID p m i) = map dbChar p @ [CHR ''_'', dbChar c, CHR ''_''] @ decimal (Suc i)" by metis
  from runID_split [OF assms(2)] obtain c' where c': "m' = [c']"
    "map dbChar (runID p m' i') = map dbChar p @ [CHR ''_'', dbChar c', CHR ''_''] @ decimal (Suc i')" by metis
  from c(2) c'(2) assms(3) have "dbChar c = dbChar c'" "decimal (Suc i) = decimal (Suc i')" by simp_all
  with mode_letters(2) [OF assms(1,2) [unfolded c(1) c'(1)]] c(1) c'(1) show ?thesis by (simp add: decimal_inj)
qed

lemma plan_distinct:
  assumes "\<forall>m \<in> set (sConfigs s). Valid m" "distinct (sConfigs s)"
  shows "distinct (map (\<lambda>(m, i). runID p m i) (plan s))"
proof -
  have "distinct (concat (map (\<lambda>m. map (Pair m) [0..<n]) ms))" if "distinct ms" for ms :: "Mode list" and n
    using that by (induction ms) (auto simp: distinct_map inj_on_def)
  then have "distinct (plan s)" using assms(2) by (simp add: plan_def)
  moreover have "inj_on (\<lambda>(m, i). runID p m i) (set (plan s))"
    using assms(1) by (auto simp: inj_on_def plan_def dest!: runID_inj [rotated 2])
  ultimately show ?thesis by (simp add: distinct_map)
qed

lemma validated:
  assumes "spec_validate stt s = None"
  shows "3 \<le> sRuns s" "\<forall>m \<in> set (sConfigs s). Valid m"
  using assms by (auto simp: spec_validate_def MinRuns_def find_None_iff split: if_splits option.splits)

definition quietAnswers :: answers where
  "quietAnswers = \<lparr>anProvision = Inr ''dsn'', anOpen = None, anMigrate = None, anSuspense = None, anSeed = Inr [], anTopic = None,
     anLedger = None, anProducer = None, anDrive = (0, Map.empty, None), anChaos = None, anDrain = (True, None), anDrainTime = 0,
     anLag = Inr 0, anCounts = (emptyDB, emptyDB, emptyDB), anRows = Inl ''none''\<rparr>"

definition quietSpec :: Spec where
  "quietSpec = \<lparr>sConfigs = [InboxDedup], sRuns = 0, sSeed = 7, sProfile = ''steady'', sRate = 2, sDuration = 1000000000,
     sSchedule = [], AdminDSN = ''dsn'', LedgerBinary = ''ledger'', OutDir = ''out'', sLedgerSHA = ''sha'', sAccounts = 2\<rparr>"

definition quietCluster :: Cluster where
  "quietCluster = \<lparr>clVersion = ''v24'', clDocker = False\<rparr>"

lemma quiet_runs: "snd (one s cl m run sweep quietAnswers) = None"
proof -
  have "case GlobalInvariant emptyDB of Inl e \<Rightarrow> False | Inr x \<Rightarrow> True" by code_simp
  moreover have "appliedCount emptyDB = 0" "inbox emptyDB = []" by (simp_all add: appliedCount_def emptyDB_def)
  ultimately show ?thesis
    by (auto simp: one_def quietAnswers_def afterLoad_def Let_def measure_run_def split: sum.splits)
qed

lemma quiet_loop: "\<exists>out files'. runsLoop js s cl sweep (\<lambda>_. quietAnswers) (\<lambda>_. None) rest acc files = ((out, None), files')"
proof (induction rest arbitrary: acc files)
  case (Cons c rest)
  obtain m i where c: "c = (m, i)" by force
  obtain a where "one s cl m (runID (sProfile s) m i) sweep quietAnswers = (a, None)"
    using quiet_runs [of s cl m "runID (sProfile s) m i" sweep] by (metis prod.collapse)
  with Cons.IH c show ?case by (simp add: Let_def)
qed simp

lemma quiet_defaults: "setDefaults quietSpec = quietSpec\<lparr>sRuns := 3\<rparr>"
  by (simp add: setDefaults_def quietSpec_def Let_def MinRuns_def)

lemma quiet_fields: "sConfigs (setDefaults quietSpec) = [InboxDedup]" "sRuns (setDefaults quietSpec) = 3"
  "AdminDSN (setDefaults quietSpec) = ''dsn''" "LedgerBinary (setDefaults quietSpec) = ''ledger''"
  unfolding quiet_defaults by (simp_all add: quietSpec_def)

lemma quiet_sweep: "\<exists>out files'. runner_Run js (\<lambda>_. None) (Some quietCluster) quietSpec (Inr []) 1700000000 (\<lambda>_. quietAnswers) (\<lambda>_. None) Map.empty =
    ((out, None), files')"
proof -
  have "spec_validate (\<lambda>_. None) (setDefaults quietSpec) = None"
    by (simp add: quiet_fields spec_validate_def MinRuns_def Valid_def)
  with quiet_loop [of js "setDefaults quietSpec" quietCluster "sweepID 1700000000" "plan (setDefaults quietSpec)" "[]" Map.empty]
  show ?thesis by (simp add: runner_Run_def Let_def plan_def)
qed

section \<open>Properties\<close>

text \<open>
  However a sweep ends, what it reports is on disk: the artefacts returned are those of the first runs of the
  plan, in its order and each under its own run id, every one is the file of its run, and no
  error means that every run of every configuration is there.
\<close>

theorem sweep_writes:
  assumes "runner_Run js stt (Some cl) spec existing now an wr files = ((out, err), files')"
    and "distinct (sConfigs (setDefaults spec))"
  shows "map (\<lambda>a. (Config a, RunID a)) out =
      map (\<lambda>(m, i). (m, runID (sProfile (setDefaults spec)) m i)) (take (length out) (plan (setDefaults spec))) \<and>
    distinct (map RunID out) \<and> (\<forall>a \<in> set out. files' (RunID a) = Some (marshalArtefact js a @ [CHR 0x0A])) \<and>
    (err = None \<longrightarrow> length out = length (plan (setDefaults spec)))"
proof -
  let ?s = "setDefaults spec"
  consider "out = []" "err \<noteq> None" | "spec_validate stt ?s = None"
      "runsLoop js ?s cl (sweepID now) an wr (plan ?s) [] files = ((out, err), files')"
    using assms(1) by (auto simp: runner_Run_def Let_def plan_def split: option.splits)
  then show ?thesis
  proof cases
    case 2
    from runsLoop_result [OF 2(2)] have r: "length out \<le> length (plan ?s)" "err = None \<longrightarrow> length out = length (plan ?s)"
      "files' = fold (Write js) out files"
      "list_all2 (\<lambda>(m, i) a. one ?s cl m (runID (sProfile ?s) m i) (sweepID now) (an (runID (sProfile ?s) m i)) = (a, None))
        (take (length out) (plan ?s)) out" by auto
    note order = conjunct1 [OF ran_config [OF r(4)]]
    have "map RunID out = map snd (map (\<lambda>a. (Config a, RunID a)) out)" by simp
    also have "\<dots> = map (\<lambda>(m, i). runID (sProfile ?s) m i) (take (length out) (plan ?s))"
      unfolding order by (simp add: case_prod_beta' o_def)
    finally have "map RunID out = take (length out) (map (\<lambda>(m, i). runID (sProfile ?s) m i) (plan ?s))" by (simp add: take_map)
    then have "distinct (map RunID out)"
      using plan_distinct [OF validated(2) [OF 2(1)] assms(2)] by (simp add: distinct_take)
    with order r fold_Write_file show ?thesis by blast
  qed auto
qed

theorem sweep_writes_witness:
  "\<exists>out files'. runner_Run sampleCodec (\<lambda>_. None) (Some quietCluster) quietSpec (Inr []) 1700000000 (\<lambda>_. quietAnswers) (\<lambda>_. None) Map.empty =
     ((out, None), files') \<and> length out = 3 \<and> (\<forall>a \<in> set out. files' (RunID a) = Some (marshalArtefact sampleCodec a @ [CHR 0x0A]))"
proof -
  obtain out files' where R: "runner_Run sampleCodec (\<lambda>_. None) (Some quietCluster) quietSpec (Inr []) 1700000000 (\<lambda>_. quietAnswers)
    (\<lambda>_. None) Map.empty = ((out, None), files')" using quiet_sweep by blast
  have "distinct (sConfigs (setDefaults quietSpec))" by (simp add: quiet_fields)
  from sweep_writes [OF R this] R show ?thesis by (simp add: plan_def quiet_fields)
qed

text \<open>
  C21. A finished sweep forms a table: if every run drained and the cluster is not the in-process fake, \<^verbatim>\<open>Table\<close>
  accepts the artefacts as they are, with one row for each configuration, in order, over at least three
  runs of it; no other condition can refuse them.
\<close>

theorem sweep_folds:
  assumes "runner_Run js stt (Some cl) spec existing now an wr files = ((out, None), files')"
    and "\<forall>run. fst (anDrain (an run))" "\<not> HasPrefix (clVersion cl) BrokerFake"
  shows "\<exists>rows. Table js out MinRuns = Inr rows \<and> map rConfig rows = sorted_list_of_set (set (sConfigs (setDefaults spec))) \<and>
    (\<forall>r \<in> set rows. rRuns r = count_list (sConfigs (setDefaults spec)) (rConfig r) * nat (sRuns (setDefaults spec)) \<and> 3 \<le> rRuns r)"
proof -
  let ?s = "setDefaults spec"
  from runner_Run_ok [OF assms(1)] have v: "spec_validate stt ?s = None"
    and R: "runsLoop js ?s cl (sweepID now) an wr (plan ?s) [] files = ((out, None), files')" by (metis option.inject)+
  from runsLoop_result [OF R] have
    "list_all2 (\<lambda>(m, i) a. one ?s cl m (runID (sProfile ?s) m i) (sweepID now) (an (runID (sProfile ?s) m i)) = (a, None)) (plan ?s) out"
    by auto
  note ran = ran_config [OF this]
  have "map Config out = map fst (map (\<lambda>a. (Config a, RunID a)) out)" by simp
  also have "\<dots> = map fst (plan ?s)" unfolding conjunct1 [OF ran] by (simp add: case_prod_beta' o_def)
  finally have configs: "map Config out = map fst (plan ?s)" .
  have counts: "length (filter (\<lambda>a. Config a = m) out) = count_list (sConfigs ?s) m * nat (sRuns ?s)" for m
  proof -
    have "length (filter (\<lambda>a. Config a = m) out) = length (filter (\<lambda>c. c = m) (map Config out))" by (simp add: filter_map o_def)
    also have "\<dots> = length (filter (\<lambda>p. fst p = m) (plan ?s))" unfolding configs by (simp add: filter_map o_def)
    finally show ?thesis using plan_runs [of m ?s] by simp
  qed
  have pos: "3 \<le> nat (sRuns ?s)" using validated(1) [OF v] by simp
  have "Config ` set out = fst ` set (plan ?s)" using configs by (metis list.set_map)
  also have "\<dots> = set (sConfigs ?s)" using pos by (force simp: plan_def)
  finally have set: "Config ` set out = set (sConfigs ?s)" .
  have many: "3 \<le> length (filter (\<lambda>b. Config b = m) out)" if "m \<in> set (sConfigs ?s)" for m
  proof -
    have "1 \<le> count_list (sConfigs ?s) m" using that by (metis One_nat_def Suc_leI count_list_0_iff gr0I)
    then show ?thesis unfolding counts using pos by (metis mult_le_mono nat_mult_1)
  qed
  have ne: "out \<noteq> []" using set defaults_configs [of spec] by auto
  then have hd: "hd out \<in> set out" by simp
  have all: "IsMeasurement a \<and> Drained a \<and> kind_of a = kind_of (hd out) \<and> fixedKey js a = fixedKey js (hd out)" if "a \<in> set out" for a
  proof -
    from ran that obtain m run where a: "fixedOf a = fixedOf (newArtefact ?s cl m run (sweepID now))" "Drained a = fst (anDrain (an run))" by blast
    from ran hd obtain m' run' where b: "fixedOf (hd out) = fixedOf (newArtefact ?s cl m' run' (sweepID now))" by blast
    from same_fixed_key [OF a(1) b] a(2) assms(2,3) show ?thesis by (simp add: IsMeasurement_def)
  qed
  let ?rows = "map (\<lambda>c. rowOf c (filter (\<lambda>a. Config a = c) out)) (sorted_list_of_set (Config ` set out))"
  have runs: "MinRuns \<le> length (filter (\<lambda>b. Config b = Config a) out)" if "a \<in> set out" for a
    using many [of "Config a"] that set by (auto simp: MinRuns_def)
  have "Table js out MinRuns = Inr ?rows"
    unfolding Table_iff using ne all runs by blast
  moreover have "map rConfig ?rows = sorted_list_of_set (set (sConfigs ?s))" by (simp add: set rowOf_def Let_def split_beta o_def)
  moreover have "rRuns r = count_list (sConfigs ?s) (rConfig r) * nat (sRuns ?s) \<and> 3 \<le> rRuns r" if "r \<in> set ?rows" for r
  proof -
    from that obtain c where c: "c \<in> set (sConfigs ?s)" "r = rowOf c (filter (\<lambda>a. Config a = c) out)" unfolding set by auto
    then have "rConfig r = c" "rRuns r = length (filter (\<lambda>a. Config a = c) out)" by (simp_all add: rowOf_def Let_def split_beta)
    with counts [of c] many [OF c(1)] show ?thesis by simp
  qed
  ultimately show ?thesis by blast
qed

theorem sweep_folds_witness:
  "\<exists>out files' rows. runner_Run sampleCodec (\<lambda>_. None) (Some quietCluster) quietSpec (Inr []) 1700000000 (\<lambda>_. quietAnswers) (\<lambda>_. None) Map.empty =
     ((out, None), files') \<and> Table sampleCodec out MinRuns = Inr rows \<and> map rConfig rows = [''C'']"
proof -
  obtain out files' where R: "runner_Run sampleCodec (\<lambda>_. None) (Some quietCluster) quietSpec (Inr []) 1700000000 (\<lambda>_. quietAnswers)
    (\<lambda>_. None) Map.empty = ((out, None), files')" using quiet_sweep by blast
  have "\<forall>run :: string. fst (anDrain quietAnswers)" "\<not> HasPrefix (clVersion quietCluster) BrokerFake"
    by (simp_all add: quietAnswers_def quietCluster_def HasPrefix_def BrokerFake_def)
  from sweep_folds [OF R this] R show ?thesis by (auto simp: quiet_fields InboxDedup_def)
qed

text \<open>
  A configuration named twice runs twice under the same run ids, so the second pass shares topics, groups
  and databases with the first and its artefacts replace those of the first on disk.
\<close>

theorem repeated_configuration_collides:
  assumes "runner_Run js stt (Some cl) spec existing now an wr files = ((out, None), files')"
    and "sConfigs (setDefaults spec) = [m, m]" "i < nat (sRuns (setDefaults spec))"
  shows "length out = 2 * nat (sRuns (setDefaults spec)) \<and> RunID (out ! (nat (sRuns (setDefaults spec)) + i)) = RunID (out ! i) \<and>
    topicName (sweepID now) (RunID (out ! (nat (sRuns (setDefaults spec)) + i))) = topicName (sweepID now) (RunID (out ! i))"
proof -
  let ?s = "setDefaults spec"
  let ?n = "nat (sRuns ?s)"
  from runner_Run_ok [OF assms(1)] have
    R: "runsLoop js ?s cl (sweepID now) an wr (plan ?s) [] files = ((out, None), files')" by (metis option.inject)
  from runsLoop_result [OF R] have
    "list_all2 (\<lambda>(m, i) a. one ?s cl m (runID (sProfile ?s) m i) (sweepID now) (an (runID (sProfile ?s) m i)) = (a, None)) (plan ?s) out"
    by auto
  note order = conjunct1 [OF ran_config [OF this]]
  have plan: "plan ?s = map (Pair m) [0..<?n] @ map (Pair m) [0..<?n]" by (simp add: plan_def assms(2))
  have "length out = length (plan ?s)" using arg_cong [OF order, of length] by simp
  then have len: "length out = 2 * ?n" by (simp add: plan)
  have "RunID (out ! k) = snd ((\<lambda>(m, i). (m, runID (sProfile ?s) m i)) (plan ?s ! k))" if "k < length out" for k
    using arg_cong [OF order, of "\<lambda>xs. snd (xs ! k)"] that \<open>length out = length (plan ?s)\<close> by simp
  then have "RunID (out ! (?n + i)) = runID (sProfile ?s) m i" "RunID (out ! i) = runID (sProfile ?s) m i"
    using assms(3) by (simp_all add: len plan nth_append)
  with len show ?thesis by simp
qed

theorem repeated_configuration_collides_witness:
  "\<exists>out files'. runner_Run sampleCodec (\<lambda>_. None) (Some quietCluster) (quietSpec\<lparr>sConfigs := [InboxDedup, InboxDedup]\<rparr>) (Inr []) 1700000000
     (\<lambda>_. quietAnswers) (\<lambda>_. None) Map.empty = ((out, None), files') \<and> RunID (out ! 3) = RunID (out ! 0)"
proof -
  let ?spec = "quietSpec\<lparr>sConfigs := [InboxDedup, InboxDedup]\<rparr>"
  have d: "setDefaults ?spec = ?spec\<lparr>sRuns := 3\<rparr>" by (simp add: setDefaults_def quietSpec_def Let_def MinRuns_def)
  have "spec_validate (\<lambda>_. None) (setDefaults ?spec) = None"
    unfolding d by (simp add: quietSpec_def spec_validate_def MinRuns_def Valid_def)
  with quiet_loop [of sampleCodec "setDefaults ?spec" quietCluster "sweepID 1700000000" "plan (setDefaults ?spec)" "[]" Map.empty]
  obtain out files' where R: "runner_Run sampleCodec (\<lambda>_. None) (Some quietCluster) ?spec (Inr []) 1700000000
     (\<lambda>_. quietAnswers) (\<lambda>_. None) Map.empty = ((out, None), files')" by (auto simp: runner_Run_def Let_def plan_def)
  have c: "sConfigs (setDefaults ?spec) = [InboxDedup, InboxDedup]" "sRuns (setDefaults ?spec) = 3"
    unfolding d by simp_all
  from repeated_configuration_collides [OF R c(1), of 0] R show ?thesis by (simp add: c)
qed

end
