(* ===== verification/Commands.thy ===== *)
theory Commands
  imports Sweep Kafka
begin

text \<open>
  \<^verbatim>\<open>cmd/ledger\<close> and \<^verbatim>\<open>cmd/harness\<close>: how the ledger process chooses its broker, and what the harness
  checks before a sweep, hands to it, and folds into the input of the report. Flags arrive as records.
\<close>

definition envOr :: "(string \<Rightarrow> string) \<Rightarrow> string \<Rightarrow> string \<Rightarrow> string" where
  "envOr getenv key fallback = (if getenv key \<noteq> [] then getenv key else fallback)"

text \<open>\<^verbatim>\<open>strings.Split\<close> with a separator of one character.\<close>

fun splitOn :: "char \<Rightarrow> string \<Rightarrow> string list" where
  "splitOn c [] = [[]]"
| "splitOn c (x # xs) =
     (if x = c then [] # splitOn c xs
      else case splitOn c xs of [] \<Rightarrow> [[x]] | y # ys \<Rightarrow> (x # y) # ys)"

section \<open>The broker of the ledger\<close>

datatype 'k dialed =
    DialFake Fake string
  | DialPlain 'k "'k KafkaConsumer" string
  | DialTxn 'k "'k KafkaTransactionalConsumer" string

text \<open>A failure to build the consumer closes the producer, whose state is returned with the error.\<close>

definition dialBroker :: "'k kgo \<Rightarrow> string \<Rightarrow> string \<Rightarrow> Mode \<Rightarrow> string \<Rightarrow> (broker_error \<times> 'k option) + 'k dialed" where
  "dialBroker g seeds grp m topic =
     (if TrimSpace seeds = [] then Inr (DialFake NewFake ''in-process fake'')
      else let addrs = map TrimSpace (splitOn (CHR '','') seeds);
               grp' = (if grp = [] then ''shadowbook-'' @ m else grp) in
        case NewKafkaProducer g \<lparr>Seeds = addrs, Group = [], Topics = [], PollTimeout = 0, ClientID = ''shadowbook-relay-'' @ m\<rparr> of
          Inl e \<Rightarrow> Inl (e, None)
        | Inr pr \<Rightarrow>
          let kcfg = \<lparr>Seeds = addrs, Group = grp', Topics = [topic], PollTimeout = 0, ClientID = ''shadowbook-consumer-'' @ m\<rparr>;
              label = (\<lambda>kind. kind @ '' ['' @ joinArgs addrs @ ''] group='' @ grp') in
          if m = Transactional
          then (case NewKafkaTransactionalConsumer g kcfg of Inl e \<Rightarrow> Inl (e, Some (closeClient g pr))
            | Inr c \<Rightarrow> Inr (DialTxn pr c (label ''kafka+txn'')))
          else (case NewKafkaConsumer g kcfg of Inl e \<Rightarrow> Inl (e, Some (closeClient g pr))
            | Inr c \<Rightarrow> Inr (DialPlain pr c (label ''kafka''))))"

section \<open>The harness\<close>

definition parseModes :: "string \<Rightarrow> Mode list" where
  "parseModes s = filter (\<lambda>part. part \<noteq> []) (map TrimSpace (splitOn (CHR '','') s))"

fun allExact :: "Artefact list \<Rightarrow> bool" where
  "allExact [] = True"
| "allExact (a # as) = (if \<not> ExactCounts a then False else allExact as)"

datatype harness_error = HarnessRuns | HarnessNoDSN | HarnessSchedule chaos_error | HarnessSim string | HarnessNoDocker string
  | HarnessUnavailable | HarnessLoad ablation_error | HarnessKind ablation_error

definition preflight :: "'w docker_exec \<Rightarrow> CLI \<Rightarrow> 'w \<Rightarrow> harness_error option \<times> 'w" where
  "preflight ex cli w =
     (let ((ok, detail), w') = Available ex cli w in
      if \<not> ok then (Some HarnessUnavailable, w')
      else case chaos_Validate DefaultSchedule of Some e \<Rightarrow> (Some (HarnessSchedule e), w') | None \<Rightarrow> (None, w'))"

record ablateFlags =
  fRuns :: int
  fOut :: string
  fBrokers :: string
  fBrokerVersion :: string
  fDSN :: string
  fBinary :: string
  fSeed :: int
  fRate :: int
  fDuration :: int
  fSHA :: string
  fSimulated :: bool
  fSimBrokers :: int
  fConfigs :: string

definition ablateSpec :: "ablateFlags \<Rightarrow> harness_error + Spec" where
  "ablateSpec f =
     (if fRuns f < int MinRuns then Inl HarnessRuns
      else if fDSN f = [] then Inl HarnessNoDSN
      else let sched = Scale DefaultSchedule (fDuration f) in
        case chaos_Validate sched of Some e \<Rightarrow> Inl (HarnessSchedule e)
        | None \<Rightarrow> Inr \<lparr>sConfigs = parseModes (fConfigs f), sRuns = fRuns f, sSeed = fSeed f, sProfile = ''payday'', sRate = fRate f,
            sDuration = fDuration f, sSchedule = sched, AdminDSN = fDSN f, LedgerBinary = fBinary f, OutDir = fOut f,
            sLedgerSHA = fSHA f, sAccounts = 0\<rparr>)"

text \<open>The cluster: simulated, or real if a Docker daemon answers.\<close>

definition ablateCluster :: "'f kfake \<Rightarrow> 'w docker_exec \<Rightarrow> CLI \<Rightarrow> ablateFlags \<Rightarrow> 'w \<Rightarrow>
    (harness_error + 'f SimCluster + RealCluster) \<times> 'w" where
  "ablateCluster k ex cli f w =
     (if fSimulated f
      then (case NewSimCluster k (fSimBrokers f) of Inl e \<Rightarrow> Inl (HarnessSim e) | Inr s \<Rightarrow> Inr (Inl s), w)
      else let ((ok, detail), w') = Available ex cli w in
        if \<not> ok then (Inl (HarnessNoDocker detail), w')
        else (Inr (Inr \<lparr>Addrs = splitOn (CHR '','') (fBrokers f), Ver = fBrokerVersion f, ReplicationFactor = 0\<rparr>), w'))"

datatype ablate_error = AblateHarness harness_error | AblateRun run_error | AblateTable ablation_error

text \<open>
  \<^verbatim>\<open>ablate\<close>: the artefacts and the error, if any, the files and the world the docker command ran in.
  \<open>existing\<close> is what \<^verbatim>\<open>Load\<close> finds in the output directory; closing the simulated cluster frees
  its sockets only.
\<close>

definition ablate :: "codec \<Rightarrow> (string \<Rightarrow> string option) \<Rightarrow> 'f kfake \<Rightarrow> 'w docker_exec \<Rightarrow> CLI \<Rightarrow> ablateFlags \<Rightarrow> ablation_error + Artefact list \<Rightarrow> int \<Rightarrow>
    (string \<Rightarrow> answers) \<Rightarrow> (string \<Rightarrow> string option) \<Rightarrow> (string \<rightharpoonup> string) \<Rightarrow> 'w \<Rightarrow>
    ((Artefact list \<times> ablate_error option) \<times> (string \<rightharpoonup> string)) \<times> 'w" where
  "ablate js stt k ex cli f existing now an wr files w =
     (case ablateSpec f of Inl e \<Rightarrow> ((([], Some (AblateHarness e)), files), w) | Inr spec \<Rightarrow>
      let (target, w') = ablateCluster k ex cli f w in
      case target of Inl e \<Rightarrow> ((([], Some (AblateHarness e)), files), w') | Inr c \<Rightarrow>
      let ver = (case c of Inl s \<Rightarrow> sim_Version s | Inr r \<Rightarrow> Ver r);
          ((arts, err), files') = runner_Run js stt (Some \<lparr>clVersion = ver, clDocker = True\<rparr>) spec existing now an wr files in
      case err of Some e \<Rightarrow> (((arts, Some (AblateRun e)), files'), w') | None \<Rightarrow>
      case Table js arts MinRuns of Inl e \<Rightarrow> (((arts, Some (AblateTable e)), files'), w')
      | Inr rows \<Rightarrow> (((arts, None), files'), w'))"

record foldPayload =
  fpRunsPerConfig :: nat
  fpRows :: "Row list option"
  fpReason :: "ablation_error option"
  fpKind :: "Kind option"
  fpBroker :: "string option"
  fpExact :: "bool option"

text \<open>What \<^verbatim>\<open>fold\<close> writes for the report.\<close>

definition fold_payload :: "codec \<Rightarrow> dirEntry list \<Rightarrow> nat \<Rightarrow> harness_error + foldPayload" where
  "fold_payload js files minRuns =
     (case abl_Load js files of Inl e \<Rightarrow> Inl (HarnessLoad e) | Inr arts \<Rightarrow>
      (case Table js arts minRuns of
        Inl e \<Rightarrow> Inr \<lparr>fpRunsPerConfig = minRuns, fpRows = None, fpReason = Some e, fpKind = None, fpBroker = None, fpExact = None\<rparr>
      | Inr rows \<Rightarrow> (case KindOf arts of Inl e \<Rightarrow> Inl (HarnessKind e)
          | Inr k \<Rightarrow> Inr \<lparr>fpRunsPerConfig = minRuns, fpRows = Some rows, fpReason = None, fpKind = Some k,
              fpBroker = Some (aBrokerVersion (hd arts)), fpExact = Some (allExact arts)\<rparr>)))"

section \<open>Where an artefact comes from\<close>

lemma runner_Run_version:
  assumes "runner_Run js stt (Some cl) spec existing now an wr files = ((out, err), files')"
  shows "\<forall>a \<in> set out. aBrokerVersion a = clVersion cl"
proof -
  let ?s = "setDefaults spec"
  consider "out = []" | "runsLoop js ?s cl (sweepID now) an wr (plan ?s) [] files = ((out, err), files')"
    using assms by (auto simp: runner_Run_def Let_def plan_def split: option.splits)
  then show ?thesis
  proof cases
    case 2
    from runsLoop_result [OF 2] obtain n where
      "list_all2 (\<lambda>(m, i) a. one ?s cl m (runID (sProfile ?s) m i) (sweepID now) (an (runID (sProfile ?s) m i)) = (a, None))
        (take n (plan ?s)) out" by auto
    from ran_config [OF this] show ?thesis by (fastforce dest: same_fixed_key(3))
  qed simp
qed

lemma KindOf_hd:
  assumes "KindOf as = Inr k"
  shows "k = kind_of (hd as)"
proof (cases as)
  case (Cons a as')
  have "sameKind a as' = Inr k \<Longrightarrow> k = kind_of a" by (induction as') (auto split: if_splits)
  with assms Cons show ?thesis by simp
qed (use assms in simp)

lemma sim_not_fake: "HasPrefix v BrokerSim \<Longrightarrow> \<not> HasPrefix v BrokerFake"
  by (cases v) (simp_all add: HasPrefix_def BrokerSim_def BrokerFake_def)

lemma nameBrokers_sver [simp]: "sver (nameBrokers i bs s) = sver s"
  by (induction i bs s rule: nameBrokers.induct) simp_all

lemma NewSimCluster_version: "NewSimCluster k n = Inr s \<Longrightarrow> HasPrefix (sim_Version s) BrokerSim"
  by (auto simp: NewSimCluster_def mapBrokers_def sim_Version_def HasPrefix_def Let_def split: if_splits sum.splits option.splits)

section \<open>Properties\<close>

text \<open>
  What \<^verbatim>\<open>fold\<close> writes is decided by the artefacts alone and it never fails once they are loaded: either the rows of
  a table every artefact of which is a drained measurement of one kind and one set of fixed parameters,
  with that kind and whether all counts are exact, or the reason there is no table and nothing else.
\<close>

theorem fold_decides:
  assumes "abl_Load js files = Inr arts"
  shows "\<exists>p. fold_payload js files n = Inr p \<and> (fpRows p = None \<longleftrightarrow> fpReason p \<noteq> None) \<and>
    (\<forall>rows. fpRows p = Some rows \<longrightarrow> arts \<noteq> [] \<and> (\<forall>a \<in> set arts. IsMeasurement a \<and> Drained a \<and> fpKind p = Some (kind_of a) \<and>
        fixedKey js a = fixedKey js (hd arts)) \<and> fpKind p \<noteq> Some KindPlumbing \<and>
      (fpExact p = Some True \<longleftrightarrow> (\<forall>a \<in> set arts. ExactCounts a)) \<and> length rows = card (Config ` set arts))"
proof (cases "Table js arts n")
  case (Inl e)
  with assms show ?thesis by (simp add: fold_payload_def)
next
  case (Inr rows)
  note T = Inr [unfolded Table_iff]
  then obtain k where k: "KindOf arts = Inr k" using KindOf_iff [of arts] by blast
  note kind = KindOf_hd [OF k]
  have exact: "allExact arts \<longleftrightarrow> (\<forall>a \<in> set arts. ExactCounts a)" by (induction arts) auto
  from T have ne: "arts \<noteq> []" and all: "\<forall>a \<in> set arts. IsMeasurement a \<and> Drained a \<and> kind_of a = k \<and> fixedKey js a = fixedKey js (hd arts)"
    and rows: "rows = map (\<lambda>c. rowOf c (filter (\<lambda>a. Config a = c) arts)) (sorted_list_of_set (Config ` set arts))"
    unfolding kind by blast+
  have len: "length rows = card (Config ` set arts)" unfolding rows by simp
  have "IsMeasurement (hd arts)" using all ne by simp
  then have plumbing: "k \<noteq> KindPlumbing"
    by (auto simp: kind kind_of_def IsMeasurement_def KindSimulated_def KindReal_def KindPlumbing_def)
  let ?p = "\<lparr>fpRunsPerConfig = n, fpRows = Some rows, fpReason = None, fpKind = Some k, fpBroker = Some (aBrokerVersion (hd arts)),
    fpExact = Some (allExact arts)\<rparr>"
  have fold: "fold_payload js files n = Inr ?p" using assms Inr k by (simp add: fold_payload_def)
  have kinds: "\<forall>a \<in> set arts. IsMeasurement a \<and> Drained a \<and> fpKind ?p = Some (kind_of a) \<and> fixedKey js a = fixedKey js (hd arts)"
    using all unfolding foldPayload.select_convs option.inject by metis
  have rest: "fpRows ?p = Some rows" "fpReason ?p = None" "fpKind ?p \<noteq> Some KindPlumbing"
    "fpExact ?p = Some True \<longleftrightarrow> (\<forall>a \<in> set arts. ExactCounts a)" using plumbing exact by simp_all
  show ?thesis
  proof (intro exI [of _ ?p] conjI allI impI)
    show "fold_payload js files n = Inr ?p" by (rule fold)
    show "fpRows ?p = None \<longleftrightarrow> fpReason ?p \<noteq> None" using rest(1,2) by simp
    fix rows'
    assume "fpRows ?p = Some rows'"
    then have "rows' = rows" by simp
    then show "length rows' = card (Config ` set arts)" using len by simp
  qed (rule ne kinds rest)+
qed

theorem fold_decides_witness:
  "\<exists>p. fold_payload sampleCodec (walk (Write sampleCodec sampleArtefact Map.empty)) 1 = Inr p \<and> (fpRows p = None \<longleftrightarrow> fpReason p \<noteq> None)"
proof -
  have "abl_Load sampleCodec (walk (Write sampleCodec sampleArtefact Map.empty)) = Inr [sampleArtefact]"
  proof -
    have "walk (Write sampleCodec sampleArtefact Map.empty) = [\<lparr>fpath = RunID sampleArtefact @ ''/artefact.json'',
        fbase = ''artefact.json'', fdir = False, fcontent = Inr (marshalArtefact sampleCodec sampleArtefact @ [CHR 0x0A])\<rparr>]"
      unfolding walk_def dom_Write by (simp add: Write_def)
    then have "loadWalk sampleCodec (walk (Write sampleCodec sampleArtefact Map.empty)) =
        (case unmarshalArtefact sampleCodec (marshalArtefact sampleCodec sampleArtefact @ [CHR 0x0A]) of None \<Rightarrow>
           Inl (ErrReadArtefact (RunID sampleArtefact @ ''/artefact.json'')) | Some a \<Rightarrow> Inr [a])"
      by (simp split: option.split)
    moreover have "unmarshalArtefact sampleCodec (marshalArtefact sampleCodec sampleArtefact @ [CHR 0x0A]) = Some sampleArtefact"
      by (simp add: sampleCodec_def) (simp add: sampleArtefact_def)
    ultimately show ?thesis by (simp add: abl_Load_def)
  qed
  from fold_decides [OF this, of 1] obtain p where "fold_payload sampleCodec (walk (Write sampleCodec sampleArtefact Map.empty)) 1 = Inr p"
    "fpRows p = None \<longleftrightarrow> fpReason p \<noteq> None" by (elim exE conjE)
  then show ?thesis by (intro exI [of _ p] conjI)
qed

text \<open>
  C23. Simulated results say so: whatever a sweep against the simulated cluster returns, finished or not, every
  artefact is of the kind \<^verbatim>\<open>simulated\<close>, so no table made of it can be one of the real kind; with an error of
  the flags or the cluster nothing is written.
\<close>

theorem simulated_labelled:
  assumes "fSimulated f" "ablate js stt k ex cli f existing now an wr files w = (((arts, err), files'), w')"
  shows "(\<forall>a \<in> set arts. kind_of a = KindSimulated) \<and> (\<forall>e. err = Some (AblateHarness e) \<longrightarrow> arts = [] \<and> files' = files) \<and>
    (\<forall>rows n. Table js arts n = Inr rows \<longrightarrow> KindOf arts = Inr KindSimulated)"
proof -
  have "(\<forall>a \<in> set arts. kind_of a = KindSimulated) \<and> (\<forall>e. err = Some (AblateHarness e) \<longrightarrow> arts = [] \<and> files' = files)"
  proof (cases "(\<exists>spec. ablateSpec f = Inr spec) \<and> (\<exists>s. NewSimCluster k (fSimBrokers f) = Inr s)")
    case True
    then obtain spec s where o: "ablateSpec f = Inr spec" "NewSimCluster k (fSimBrokers f) = Inr s" by blast
    let ?cl = "\<lparr>clVersion = sim_Version s, clDocker = True\<rparr>"
    obtain out e fs where R: "runner_Run js stt (Some ?cl) spec existing now an wr files = ((out, e), fs)" by (metis surj_pair)
    have L: "ablateCluster k ex cli f w = (Inr (Inl s), w)" using assms(1) o(2) by (simp add: ablateCluster_def)
    note A = assms(2) [unfolded ablate_def o(1) L Let_def sum.case prod.case R]
    have out: "arts = out \<and> (\<forall>e. err \<noteq> Some (AblateHarness e))"
    proof (cases e)
      case None
      with A show ?thesis by (cases "Table js out MinRuns") auto
    next
      case (Some e')
      with A show ?thesis by auto
    qed
    have "HasPrefix (sim_Version s) BrokerSim" "\<not> HasPrefix (sim_Version s) BrokerFake"
      using NewSimCluster_version [OF o(2)] sim_not_fake by blast+
    then show ?thesis using runner_Run_version [OF R] out by (simp add: kind_of_def)
  next
    case False
    then have "(\<exists>e. ablateSpec f = Inl e) \<or> (\<exists>e. NewSimCluster k (fSimBrokers f) = Inl e)"
      by (cases "ablateSpec f"; cases "NewSimCluster k (fSimBrokers f)") simp_all
    then have "arts = [] \<and> files' = files"
    proof
      assume "\<exists>e. ablateSpec f = Inl e"
      with assms(2) show ?thesis by (auto simp: ablate_def)
    next
      assume "\<exists>e. NewSimCluster k (fSimBrokers f) = Inl e"
      then obtain e where L: "ablateCluster k ex cli f w = (Inl (HarnessSim e), w)" using assms(1) by (auto simp: ablateCluster_def)
      from assms(2) show ?thesis by (cases "ablateSpec f") (simp_all add: ablate_def L)
    qed
    then show ?thesis by simp
  qed
  moreover have "KindOf arts = Inr KindSimulated" if "Table js arts n = Inr rows" "\<forall>a \<in> set arts. kind_of a = KindSimulated" for rows n
  proof -
    from that(1) have T: "arts \<noteq> []" "\<forall>a \<in> set arts. kind_of a = kind_of (hd arts)" unfolding Table_iff by blast+
    then obtain k' where k': "KindOf arts = Inr k'" using KindOf_iff [of arts] by blast
    from KindOf_hd [OF this] that(2) T(1) have "k' = KindSimulated" by simp
    with k' show ?thesis by simp
  qed
  ultimately show ?thesis by blast
qed

definition noDocker :: "unit docker_exec" where
  "noDocker w t bin as = (\<lparr>cmdErr = Some ''exit status 1'', cmdOut = [], cmdCombined = ''no daemon''\<rparr>, w)"

definition sampleAblate :: ablateFlags where
  "sampleAblate = \<lparr>fRuns = 3, fOut = ''out'', fBrokers = [], fBrokerVersion = ''v24'', fDSN = ''dsn'', fBinary = ''ledger'', fSeed = 7,
     fRate = 2, fDuration = 1000000000, fSHA = ''sha'', fSimulated = True, fSimBrokers = 3, fConfigs = '' C,''\<rparr>"

theorem simulated_labelled_witness:
  "\<exists>arts err files' w'. ablate sampleCodec (\<lambda>_. None) sampleKfake noDocker NewCLI sampleAblate (Inr []) 1700000000
      (\<lambda>_. quietAnswers) (\<lambda>_. None) Map.empty () = (((arts, err), files'), w') \<and> length arts = 3 \<and> (\<forall>a \<in> set arts. kind_of a = KindSimulated)"
proof -
  have "chaos_Validate DefaultSchedule = None" by (simp add: DefaultSchedule_def Validate_paired)
  then have sched: "chaos_Validate (Scale DefaultSchedule d) = None" for d using Validate_shape [OF Scale_shape] by blast
  obtain s where sim: "NewSimCluster sampleKfake 3 = Inr s"
    by (simp add: NewSimCluster_def mapBrokers_def sampleKfake_def)
  have modes: "parseModes '' C,'' = [InboxDedup]" by code_simp
  let ?spec = "\<lparr>sConfigs = [InboxDedup], sRuns = 3, sSeed = 7, sProfile = ''payday'', sRate = 2, sDuration = 1000000000,
    sSchedule = Scale DefaultSchedule 1000000000, AdminDSN = ''dsn'', LedgerBinary = ''ledger'', OutDir = ''out'', sLedgerSHA = ''sha'', sAccounts = 0\<rparr>"
  let ?cl = "\<lparr>clVersion = sim_Version s, clDocker = True\<rparr>"
  let ?s = "setDefaults ?spec"
  have S: "ablateSpec sampleAblate = Inr ?spec" using sched modes by (simp add: ablateSpec_def sampleAblate_def MinRuns_def)
  have L: "ablateCluster sampleKfake noDocker NewCLI sampleAblate () = (Inr (Inl s), ())"
    using sim by (simp add: ablateCluster_def sampleAblate_def)
  have d: "sConfigs ?s = [InboxDedup]" "sRuns ?s = 3" "AdminDSN ?s = ''dsn''" "LedgerBinary ?s = ''ledger''"
    by (simp_all add: setDefaults_def Let_def MinRuns_def)
  have v: "spec_validate (\<lambda>_. None) ?s = None" by (simp add: d spec_validate_def MinRuns_def Valid_def)
  obtain out files' where Q: "runsLoop sampleCodec ?s ?cl (sweepID 1700000000) (\<lambda>_. quietAnswers) (\<lambda>_. None) (plan ?s) [] Map.empty = ((out, None), files')"
    using quiet_loop by blast
  have R: "runner_Run sampleCodec (\<lambda>_. None) (Some ?cl) ?spec (Inr []) 1700000000 (\<lambda>_. quietAnswers) (\<lambda>_. None) Map.empty = ((out, None), files')"
    using v Q by (simp add: runner_Run_def Let_def plan_def)
  have len: "length out = 3" using runsLoop_result [OF Q] by (auto simp: plan_def d)
  obtain err where A: "ablate sampleCodec (\<lambda>_. None) sampleKfake noDocker NewCLI sampleAblate (Inr []) 1700000000
      (\<lambda>_. quietAnswers) (\<lambda>_. None) Map.empty () = (((out, err), files'), ())"
    unfolding ablate_def S L Let_def sum.case prod.case R option.case by (cases "Table sampleCodec out MinRuns") simp_all
  have "fSimulated sampleAblate" by (simp add: sampleAblate_def)
  from simulated_labelled [OF this A] A len show ?thesis by blast
qed

end
