(* ===== verification/Instant.thy ===== *)
theory Instant
  imports Posting Timeformat
begin

text \<open>
  Instants written by \<^verbatim>\<open>t.UTC().Format(time.RFC3339Nano)\<close> are read back by \<^verbatim>\<open>time.Parse\<close>: what the ledger
  puts into events and responses and what clients send back is the same instant.
\<close>

lemma numval_zeros: "numval (s @ replicate j (CHR ''0'')) = numval s * 10 ^ j"
proof (induction j)
  case (Suc j)
  have "numval ((s @ replicate j (CHR ''0'')) @ [CHR ''0'']) = 10 * numval (s @ replicate j (CHR ''0'')) + digitVal CHR ''0''"
    by (rule numval_snoc)
  moreover have "digitVal CHR ''0'' = 0" by code_simp
  ultimately show ?case using Suc by (simp add: replicate_append_same)
qed simp

lemma trimZeros_split: "\<exists>j. s = trimZeros s @ replicate j (CHR ''0'')"
proof -
  let ?z = "\<lambda>c. c = CHR ''0''"
  have "rev s = takeWhile ?z (rev s) @ dropWhile ?z (rev s)" by simp
  moreover have "takeWhile ?z (rev s) = replicate (length (takeWhile ?z (rev s))) (CHR ''0'')"
    by (rule replicate_eqI) (auto dest: set_takeWhileD)
  ultimately have "rev s = replicate (length (takeWhile ?z (rev s))) (CHR ''0'') @ dropWhile ?z (rev s)" by metis
  then have "s = trimZeros s @ replicate (length (takeWhile ?z (rev s))) (CHR ''0'')"
    unfolding trimZeros_def by (metis rev_append rev_replicate rev_rev_ident)
  then show ?thesis by blast
qed

lemma parseFraction_trimmed:
  assumes "0 < n" "n < 10 ^ 9"
  shows "parseFraction (CHR ''.'' # trimZeros (fmt_0d 9 n) @ ''Z'') = (n, ''Z'')"
proof -
  let ?s = "expansion 9 (nat n)"
  have s: "fmt_0d 9 n = ?s" using assms by (simp add: fmt_0d_expansion)
  obtain j where j: "?s = trimZeros ?s @ replicate j (CHR ''0'')" using trimZeros_split by blast
  have val: "numval ?s = n" using assms numval_expansion [of "nat n" 9] by (simp add: nat_less_iff)
  have len: "length (trimZeros ?s) + j = 9" using arg_cong [OF j, of length] by simp
  have digits: "list_all isDigit (trimZeros ?s)" using j list_all_isDigit_expansion [of 9 "nat n"] by (metis list_all_append)
  have "trimZeros ?s \<noteq> []"
  proof
    assume "trimZeros ?s = []"
    with j have "?s = [] @ replicate j (CHR ''0'')" by simp
    with numval_zeros [of "[]" j] val assms(1) show False by (simp add: numval_def)
  qed
  then obtain c cs where c: "trimZeros ?s = c # cs" by (cases "trimZeros ?s") auto
  have z: "\<not> isDigit CHR ''Z''" by (simp add: isDigit_def)
  have tw: "takeWhile isDigit (trimZeros ?s @ ''Z'') = trimZeros ?s"
    using digits z by (simp add: takeWhile_append2 list_all_iff)
  have "numval (trimZeros ?s) * 10 ^ j = n" using numval_zeros [of "trimZeros ?s" j] j val by simp
  moreover have "j = 9 - length (trimZeros ?s)" "length (trimZeros ?s) \<le> 9" using len by simp_all
  ultimately have "parseNanoseconds (trimZeros ?s) = n" by (simp add: parseNanoseconds_def numval_def Let_def)
  then show ?thesis using tw c digits unfolding s by (simp add: parseFraction_def Let_def)
qed

lemma parseClock_printed:
  assumes "0 \<le> h" "h < 24" "0 \<le> m" "m < 60" "0 \<le> sec" "sec < 60" "0 \<le> ns" "ns < 10 ^ 9"
  shows "parseClock (fmt_0d 2 h @ '':'' @ fmt_0d 2 m @ '':'' @ fmt_0d 2 sec @ (if ns = 0 then [] else ''.'' @ trimZeros (fmt_0d 9 ns)) @ ''Z'') =
    Some (((h * 60 + m) * 60 + sec) * 1000000000 + ns)"
proof -
  have f: "fmt_0d 2 h = expansion 2 (nat h)" "fmt_0d 2 m = expansion 2 (nat m)" "fmt_0d 2 sec = expansion 2 (nat sec)"
    using assms by (simp_all add: fmt_0d_expansion)
  have b: "nat h < 10 ^ 2" "nat m < 10 ^ 2" "nat sec < 10 ^ 2" using assms by simp_all
  have "parseFraction ((if ns = 0 then [] else ''.'' @ trimZeros (fmt_0d 9 ns)) @ ''Z'') = (ns, ''Z'')"
  proof (cases "ns = 0")
    case True
    then show ?thesis by (simp add: parseFraction_def)
  next
    case False
    with parseFraction_trimmed [of ns] assms(7,8) show ?thesis by simp
  qed
  moreover define tail where "tail = (if ns = 0 then [] else ''.'' @ trimZeros (fmt_0d 9 ns)) @ ''Z''"
  ultimately have "parseFraction tail = (ns, ''Z'')" by simp
  then show ?thesis
    using assms unfolding tail_def [symmetric] by (simp add: f b parseClock_def getnum_var_def skip_char_def parseZone_def)
qed

lemma clock_parts:
  assumes "0 \<le> s" "s < (86400 :: int)"
  shows "0 \<le> s div 3600" "s div 3600 < 24" "0 \<le> s div 60 mod 60" "s div 60 mod 60 < 60" "0 \<le> s mod 60" "s mod 60 < 60"
    "(s div 3600 * 60 + s div 60 mod 60) * 60 + s mod 60 = s"
proof -
  have "s div 3600 = s div 60 div 60" using zdiv_zmult2_eq [of 60 s 60] by simp
  then have "s div 3600 * 60 + s div 60 mod 60 = s div 60" by simp
  then show "(s div 3600 * 60 + s div 60 mod 60) * 60 + s mod 60 = s" by simp
qed (use assms in simp_all)

lemma parseClock_time:
  assumes "0 \<le> s" "s < 86400" "0 \<le> ns" "ns < 10 ^ 9"
  shows "parseClock (fmt_0d 2 (s div 3600) @ '':'' @ fmt_0d 2 (s div 60 mod 60) @ '':'' @ fmt_0d 2 (s mod 60) @
      (if ns = 0 then [] else ''.'' @ trimZeros (fmt_0d 9 ns)) @ ''Z'') = Some (s * 1000000000 + ns)"
  using parseClock_printed [OF clock_parts(1-6) [OF assms(1,2)] assms(3,4)] unfolding clock_parts(7) [OF assms(1,2)] .

lemma RFC3339Nano_read:
  assumes "0 \<le> year (absDate (dayOf t))" "year (absDate (dayOf t)) \<le> 9999"
  shows "time_Parse_RFC3339Nano (RFC3339Nano t) = Some t"
proof -
  let ?d = "absDate (dayOf t)" and ?r = "t mod nsPerDay"
  let ?s = "?r div 1000000000"
  have r: "0 \<le> ?r" "?r < 86400000000000" by (simp_all add: nsPerDay_def)
  have ns: "t mod 1000000000 = ?r mod 1000000000" by (simp add: nsPerDay_def mod_mod_cancel)
  have date: "BusinessDate_String ?d = expansion 4 (nat (year ?d)) @ ''-'' @ expansion 2 (nat (month ?d)) @ ''-'' @ expansion 2 (nat (day ?d))"
    by (rule BusinessDate_String_expansion [OF valid_absDate assms])
  have parsed: "time_Parse (BusinessDate_String ?d) = Some ?d"
    unfolding time_Parse_Some date using assms by simp
  have len: "length (BusinessDate_String ?d) = 10" unfolding date by simp
  have s: "0 \<le> ?s" "?s < 86400" using r by simp_all
  have clock: "parseClock (fmt_0d 2 (?s div 3600) @ '':'' @ fmt_0d 2 (?s div 60 mod 60) @ '':'' @ fmt_0d 2 (?s mod 60) @
      (if t mod 1000000000 = 0 then [] else ''.'' @ trimZeros (fmt_0d 9 (t mod 1000000000))) @ ''Z'') =
    Some (?s * 1000000000 + t mod 1000000000)"
    by (rule parseClock_time [OF s]) simp_all
  have "?s * 1000000000 + t mod 1000000000 = ?r" unfolding ns by (rule div_mult_mod_eq)
  moreover have "bd_time (Date (year ?d) (month ?d) (day ?d)) + ?r = t"
    by (simp add: Date_bd_days bd_time_def dayOf_def nsPerDay_def)
  ultimately show ?thesis
    using parsed len clock by (simp add: time_Parse_RFC3339Nano_def RFC3339Nano_def Let_def skip_char_def)
qed

section \<open>Properties\<close>

text \<open>
  An instant survives the wire: for every instant of the years 0 to 9999, to the nanosecond,
  parsing what the ledger prints gives the instant back.
\<close>

theorem RFC3339Nano_roundtrip:
  assumes "0 \<le> year (absDate (dayOf t))" "year (absDate (dayOf t)) \<le> 9999"
  shows "time_Parse_RFC3339Nano (RFC3339Nano t) = Some t"
  using assms by (rule RFC3339Nano_read)

theorem RFC3339Nano_roundtrip_witness:
  "time_Parse_RFC3339Nano (RFC3339Nano 63965689445120000000) = Some 63965689445120000000"
  by (rule RFC3339Nano_roundtrip) code_simp+

end
