(* ===== verification/Loadgen.thy ===== *)
theory Loadgen
  imports Experiment Instant Httpapi
begin

unbundle bit_operations_syntax

text \<open>
  \<^verbatim>\<open>internal/harness/load/profiles.go\<close>: the four load profiles, when the next request goes (the pacers,
  in float64 without fused operations) and what it is (the targeter, whose choices are FNV-1a
  hashes of the seed and the request number). A body is the JSON value that is marshalled, its
  fields in the order \<^verbatim>\<open>encoding/json\<close> writes the keys of a map.
\<close>

section \<open>Profiles\<close>

type_synonym Profile = string

definition Steady :: Profile where "Steady = ''steady''"
definition Payday :: Profile where "Payday = ''payday''"
definition MonthEnd :: Profile where "MonthEnd = ''month-end''"
definition HotKey :: Profile where "HotKey = ''hot-key''"

lemmas profile_defs = Steady_def Payday_def MonthEnd_def HotKey_def

definition Profile_Valid :: "Profile \<Rightarrow> bool" where
  "Profile_Valid p \<longleftrightarrow> p = Steady \<or> p = Payday \<or> p = MonthEnd \<or> p = HotKey"

record LoadOptions =
  loProfile :: Profile
  loRate :: int
  loDuration :: int
  loSeed :: int
  loAccounts :: "uuid list"
  loBaseURL :: string
  loCurrency :: string
  loDate :: BusinessDate

datatype load_error = ErrUnknownProfile string | ErrRate int | ErrFewAccounts nat | ErrNilTarget

section \<open>Pacers\<close>

record Rate =
  Freq :: int
  Per :: int

record RampPacer =
  rpStart :: Rate
  rpEnd :: Rate
  rpOver :: int

datatype Pacer = ConstantPacer Rate | SinePacer (spPeriod: int) (spMean: Rate) (spAmp: Rate) | Ramp RampPacer

definition second :: int where
  "second = 1000000000"

definition PacerFor :: "LoadOptions \<Rightarrow> load_error + Pacer" where
  "PacerFor o' =
     (if \<not> Profile_Valid (loProfile o') then Inl (ErrUnknownProfile (loProfile o'))
      else if loRate o' \<le> 0 then Inl (ErrRate (loRate o'))
      else let rate = \<lparr>Freq = loRate o', Per = second\<rparr>; p = loProfile o' in
        if p = Steady \<or> p = HotKey then Inr (ConstantPacer rate)
        else if p = Payday then Inr (SinePacer (max (loDuration o') (60 * second)) rate \<lparr>Freq = quot64 (loRate o') 2, Per = second\<rparr>)
        else if p = MonthEnd then Inr (Ramp \<lparr>rpStart = rate, rpEnd = \<lparr>Freq = mul64 (loRate o') 2, Per = second\<rparr>, rpOver = loDuration o'\<rparr>)
        else Inl (ErrUnknownProfile p))"

definition ramp_Rate :: "RampPacer \<Rightarrow> int \<Rightarrow> rat" where
  "ramp_Rate r elapsed =
     (if rpOver r \<le> 0 then 0
      else if elapsed \<ge> rpOver r then fromInt64 (Freq (rpEnd r))
      else let frac = fdiv (Seconds elapsed) (Seconds (rpOver r)) in
        fadd (fromInt64 (Freq (rpStart r))) (fmul (fromInt64 (sub64 (Freq (rpEnd r)) (Freq (rpStart r)))) frac))"

text \<open>The wait and whether to stop; the hits are a \<^verbatim>\<open>uint64\<close>.\<close>

definition ramp_Pace :: "RampPacer \<Rightarrow> int \<Rightarrow> 64 word \<Rightarrow> int \<times> bool" where
  "ramp_Pace r elapsed hits =
     (if rpOver r \<le> 0 \<or> Freq (rpStart r) \<le> 0 then (0, True)
      else if elapsed \<ge> rpOver r then (0, True)
      else let seconds = Seconds elapsed; over = Seconds (rpOver r); start = fromInt64 (Freq (rpStart r));
               slope = fromInt64 (sub64 (Freq (rpEnd r)) (Freq (rpStart r)));
               expected = fadd (fmul start seconds) (fdiv (fmul (fmul slope seconds) seconds) (fmul 2 over)) in
        if f64 (of_int (uint hits)) < expected then (0, False)
        else let current = fadd start (fdiv (fmul slope seconds) over) in
          if current \<le> 0 then (0, True) else (toInt64 (fdiv (fromInt64 second) current), False))"

section \<open>Choices\<close>

definition fnv64a :: "string \<Rightarrow> 64 word" where
  "fnv64a s = foldl (\<lambda>h c. (h XOR of_nat (of_char c)) * 0x100000001b3) 0xcbf29ce484222325 s"

definition det :: "int \<Rightarrow> string \<Rightarrow> 64 word \<Rightarrow> 64 word" where
  "det seed label n = fnv64a (show_d seed @ ''/'' @ label @ ''/'' @ show_d (uint n))"

definition HotKeyShare :: rat where
  "HotKeyShare = f64 (3 / 10)"

definition selectAccount :: "LoadOptions \<Rightarrow> uuid list \<Rightarrow> 64 word \<Rightarrow> uuid" where
  "selectAccount o' hot n =
     (let pool = take (length (loAccounts o') - 1) (loAccounts o');
          half = length pool div 2;
          anyone = pool ! unat (det (loSeed o') ''acct'' n mod of_nat (length pool)) in
      if loProfile o' = HotKey then
        (if fdiv (f64 (of_int (uint (det (loSeed o') ''hot'' n mod 1000)))) 1000 < HotKeyShare
         then hot ! unat (det (loSeed o') ''which'' n mod 2) else anyone)
      else if loProfile o' = MonthEnd then
        (if half > 0 \<and> det (loSeed o') ''bias'' n mod 100 < 70
         then pool ! unat (det (loSeed o') ''acct'' n mod of_nat half) else anyone)
      else anyone)"

section \<open>Requests\<close>

record Target =
  tMethod :: string
  tURL :: string
  tBody :: json
  tHeader :: "(string \<times> string) list"

definition load_amount :: "LoadOptions \<Rightarrow> 64 word \<Rightarrow> int" where
  "load_amount o' n = 1000 + uint (det (loSeed o') ''amt'' n mod 250000)"

definition load_body :: "LoadOptions \<Rightarrow> string \<Rightarrow> uuid \<Rightarrow> uuid \<Rightarrow> int \<Rightarrow> json" where
  "load_body o' cur account suspense amount =
     (let date = JString (BusinessDate_String (loDate o')) in
      JObject [(''business_date'', date), (''currency'', JString cur),
        (''entries'', JArray [JObject [(''account_id'', JString (uuid_String account)), (''amount_minor'', JInt amount)],
          JObject [(''account_id'', JString (uuid_String suspense)), (''amount_minor'', JInt (- amount))]]),
        (''kind'', JString ''transfer''),
        (''posted_at'', JString (RFC3339Nano (bd_time (Date (year (loDate o')) (month (loDate o')) (day (loDate o'))) + 12 * 3600 * second))),
        (''reverses_posting_id'', JNull), (''value_date'', date)])"

definition load_key :: "LoadOptions \<Rightarrow> 64 word \<Rightarrow> string" where
  "load_key o' n = ''load-'' @ loProfile o' @ ''-'' @ show_d (loSeed o') @ ''-'' @ show_d (uint n)"

text \<open>The closure \<^verbatim>\<open>TargeterFor\<close> returns, on the counter; the counter is taken atomically.\<close>

definition nextTarget :: "LoadOptions \<Rightarrow> string \<Rightarrow> bool \<Rightarrow> 64 word \<Rightarrow> (load_error + Target) \<times> 64 word" where
  "nextTarget o' cur isNil counter =
     (if isNil then (Inl ErrNilTarget, counter)
      else let n = counter + 1; accs = loAccounts o';
               suspense = accs ! (length accs - 1); hot = take 2 accs;
               account = selectAccount o' hot n in
        (Inr \<lparr>tMethod = ''POST'', tURL = loBaseURL o' @ ''/v1/postings'',
           tBody = load_body o' cur account suspense (load_amount o' n),
           tHeader = [(''Content-Type'', ''application/json''), (''X-Principal'', ''sim''), (''Idempotency-Key'', load_key o' n)]\<rparr>, n))"

definition TargeterFor :: "LoadOptions \<Rightarrow> load_error + (bool \<Rightarrow> 64 word \<Rightarrow> (load_error + Target) \<times> 64 word)" where
  "TargeterFor o' =
     (if \<not> Profile_Valid (loProfile o') then Inl (ErrUnknownProfile (loProfile o'))
      else if length (loAccounts o') < 3 then Inl (ErrFewAccounts (length (loAccounts o')))
      else Inr (nextTarget o' (if loCurrency o' = [] then ''USD'' else loCurrency o')))"

lemma fnv64a_examples: "fnv64a [] = 0xcbf29ce484222325" "fnv64a ''a'' = 0xaf63dc4c8601ec8c"
  by code_simp+

section \<open>Durations and ramps\<close>

lemma seconds_parts:
  assumes "0 \<le> d" "in64 d"
  shows "Seconds d = fadd (of_int (d div 1000000000)) (fdiv (of_int (d mod 1000000000)) 1000000000)"
    "0 \<le> d div 1000000000" "d div 1000000000 \<le> 9223372036"
proof -
  have q: "0 \<le> d div 1000000000" "d div 1000000000 \<le> 9223372036"
    using assms zdiv_mono1 [of d 9223372036854775807 1000000000] by (simp_all add: in64_iff pos_imp_zdiv_nonneg_iff)
  moreover have "0 \<le> d mod 1000000000" "d mod 1000000000 < 1000000000" by simp_all
  ultimately show "Seconds d = fadd (of_int (d div 1000000000)) (fdiv (of_int (d mod 1000000000)) 1000000000)"
    "0 \<le> d div 1000000000" "d div 1000000000 \<le> 9223372036"
    using assms by (simp_all add: Seconds_def quot64_nonneg rem64_nonneg fromInt64_exact)
qed

lemma f64_pos: "0 < x \<Longrightarrow> 0 < f64 x"
  by (simp add: f64_def f64pos_pos)

lemma fdiv_unit: "0 \<le> x \<Longrightarrow> x \<le> y \<Longrightarrow> 0 < y \<Longrightarrow> 0 \<le> fdiv x y \<and> fdiv x y \<le> 1"
  using f64_mono [of "x / y" 1] f64_nonneg [of "x / y"] f64_int [of 1] by (simp add: fdiv_def)

lemma fdiv_mono: "0 < y \<Longrightarrow> x \<le> x' \<Longrightarrow> fdiv x y \<le> fdiv x' y"
  unfolding fdiv_def by (rule f64_mono) (simp add: divide_right_mono)

lemma fadd_mono: "x \<le> x' \<Longrightarrow> y \<le> y' \<Longrightarrow> fadd x y \<le> fadd x' y'"
  unfolding fadd_def by (rule f64_mono) simp

lemma Seconds_mono:
  assumes "0 \<le> d" "d \<le> d'" "in64 d'"
  shows "Seconds d \<le> Seconds d'"
proof -
  have d: "in64 d" "0 \<le> d'" using assms by (simp_all add: in64_iff)
  let ?q = "d div 1000000000" and ?q' = "d' div 1000000000"
  let ?r = "fdiv (of_int (d mod 1000000000)) 1000000000" and ?r' = "fdiv (of_int (d' mod 1000000000)) 1000000000"
  have unit: "0 \<le> fdiv (of_int (e mod 1000000000)) 1000000000 \<and> fdiv (of_int (e mod 1000000000)) 1000000000 \<le> 1" for e :: int
  proof (rule fdiv_unit)
    have "e mod 1000000000 \<le> 1000000000" using pos_mod_bound [of 1000000000 e] by simp
    then have "(of_int (e mod 1000000000) :: rat) \<le> of_int 1000000000" by (simp only: of_int_le_iff)
    then show "(of_int (e mod 1000000000) :: rat) \<le> 1000000000" by simp
  qed simp_all
  have "fadd (of_int ?q) ?r \<le> fadd (of_int ?q') ?r'"
  proof (cases "?q = ?q'")
    case True
    then have "d mod 1000000000 \<le> d' mod 1000000000" using assms(2) by (simp add: minus_div_mult_eq_mod [symmetric])
    with True show ?thesis by (intro fadd_mono fdiv_mono) simp_all
  next
    case False
    with zdiv_mono1 [OF assms(2), of 1000000000] have "?q + 1 \<le> ?q'" by simp
    then have "(of_int ?q + 1 :: rat) \<le> of_int ?q'" by (metis of_int_1 of_int_add of_int_le_iff)
    with unit [of d] unit [of d'] have "of_int ?q + ?r \<le> of_int ?q' + ?r'" by linarith
    then show ?thesis unfolding fadd_def by (rule f64_mono)
  qed
  then show ?thesis using seconds_parts(1) [OF assms(1) d(1)] seconds_parts(1) [OF d(2) assms(3)] by simp
qed

lemma Seconds_pos:
  assumes "0 < d" "in64 d"
  shows "0 < Seconds d"
proof -
  have "Seconds 1 \<le> Seconds d" using assms by (intro Seconds_mono) simp_all
  moreover have "0 < Seconds 1"
  proof -
    have "0 < f64 (f64 (1 / 1000000000))" by (intro f64_pos) simp
    then show ?thesis using seconds_parts(1) [of 1] by (simp add: in64_iff fadd_def fdiv_def)
  qed
  ultimately show ?thesis by simp
qed

lemma ramp_frac:
  assumes "0 \<le> e" "e \<le> e'" "e' < rpOver r" "in64 (rpOver r)"
  shows "0 \<le> fdiv (Seconds e) (Seconds (rpOver r))" "fdiv (Seconds e) (Seconds (rpOver r)) \<le> fdiv (Seconds e') (Seconds (rpOver r))"
    "fdiv (Seconds e') (Seconds (rpOver r)) \<le> 1"
proof -
  have small: "in64 e'" "in64 0" "0 \<le> e'" "0 < rpOver r" using assms by (simp_all add: in64_iff)
  have pos: "0 < Seconds (rpOver r)" using small(4) assms(4) by (rule Seconds_pos)
  have "Seconds 0 \<le> Seconds e" "Seconds e \<le> Seconds e'" "Seconds e' \<le> Seconds (rpOver r)"
    using assms small by (auto intro!: Seconds_mono simp: in64_iff)
  moreover have "Seconds 0 = 0" using seconds_parts(1) [of 0] by (simp add: in64_iff fadd_def fdiv_def)
  ultimately show "0 \<le> fdiv (Seconds e) (Seconds (rpOver r))" "fdiv (Seconds e) (Seconds (rpOver r)) \<le> fdiv (Seconds e') (Seconds (rpOver r))"
    "fdiv (Seconds e') (Seconds (rpOver r)) \<le> 1"
    using fdiv_unit [of "Seconds e" "Seconds (rpOver r)"] fdiv_unit [of "Seconds e'" "Seconds (rpOver r)"] fdiv_mono [OF pos] pos
    by simp_all
qed

lemma fmul_part: "0 \<le> z \<Longrightarrow> z \<le> 1 \<Longrightarrow> 0 \<le> fromInt64 k \<Longrightarrow> 0 \<le> fmul (fromInt64 k) z \<and> fmul (fromInt64 k) z \<le> f64 (fromInt64 k)"
  unfolding fmul_def by (auto intro!: f64_mono f64_nonneg mult_nonneg_nonneg simp: mult_left_le)

section \<open>The hash\<close>

text \<open>The draw for a hot account, in float64, is the integer comparison with 300.\<close>

lemma hot_draw:
  assumes "k < 1000"
  shows "fdiv (f64 (of_int (int k))) 1000 < HotKeyShare \<longleftrightarrow> k < 300"
proof -
  have exact: "f64 (of_int (int k)) = of_int (int k)" by (rule f64_int) (use assms in simp)
  have gap: "fdiv 299 1000 < f64 (3 / 10)" by code_simp
  show ?thesis
  proof (cases "k < 300")
    case True
    then have "fdiv (of_int (int k)) 1000 \<le> fdiv 299 1000" by (intro fdiv_mono) simp_all
    with gap exact True show ?thesis by (simp add: HotKeyShare_def)
  next
    case False
    then have "(300 :: rat) \<le> of_int (int k)" by simp
    then have "f64 (3 / 10) \<le> fdiv (of_int (int k)) 1000" unfolding fdiv_def by (intro f64_mono) simp
    with exact False show ?thesis by (simp add: HotKeyShare_def)
  qed
qed

lemma hot_draw_word:
  fixes k :: "64 word"
  assumes "unat k < 1000"
  shows "fdiv (f64 (of_int (uint k))) 1000 < HotKeyShare \<longleftrightarrow> k < 300"
proof -
  have "k < 300 \<longleftrightarrow> unat k < 300" by (simp add: word_less_nat_alt)
  with hot_draw [OF assms] show ?thesis by (simp only: uint_nat)
qed

lemma pick_in: "0 < n \<Longrightarrow> n < 2 ^ 64 \<Longrightarrow> unat (w mod (of_nat n :: 64 word)) < n"
  by (simp add: unat_mod unat_of_nat)

section \<open>Properties\<close>

text \<open>
  The ramp rises from its first rate to its last: below the deadline the reported rate lies between the
  two and never falls as time passes, whatever the rounding of the float64 operations.
\<close>

theorem ramp_Rate_rises:
  assumes "0 \<le> Freq (rpStart r)" "Freq (rpStart r) \<le> Freq (rpEnd r)" "Freq (rpEnd r) \<le> 2 ^ 53"
    and "0 \<le> e" "e \<le> e'" "e' < rpOver r" "in64 (rpOver r)"
  shows "of_int (Freq (rpStart r)) \<le> ramp_Rate r e \<and> ramp_Rate r e \<le> ramp_Rate r e' \<and> ramp_Rate r e' \<le> of_int (Freq (rpEnd r))"
proof -
  let ?s = "Freq (rpStart r)" and ?e = "Freq (rpEnd r)" and ?f = "\<lambda>e. fdiv (Seconds e) (Seconds (rpOver r))"
  note frac = ramp_frac [OF assms(4-7)]
  have k: "sub64 ?e ?s = ?e - ?s" "fromInt64 (?e - ?s) = of_int (?e - ?s)" "fromInt64 ?s = of_int ?s" "f64 (of_int ?e) = of_int ?e"
    "f64 (of_int ?s) = of_int ?s" "f64 (of_int (?e - ?s)) = of_int (?e - ?s)"
    using assms(1-3) by (simp_all only: fromInt64_exact f64_int) (simp_all add: sub64_exact in64_iff fromInt64_exact f64_int del: of_int_diff)
  have nn: "(0 :: rat) \<le> of_int (?e - ?s)" using assms(2) by simp
  have R: "ramp_Rate r t = fadd (of_int ?s) (fmul (of_int (?e - ?s)) (?f t))" if "t < rpOver r" "0 \<le> t" for t
    using that k by (simp add: ramp_Rate_def Let_def del: of_int_diff)
  have part: "0 \<le> fmul (of_int (?e - ?s)) (?f e)" "fmul (of_int (?e - ?s)) (?f e) \<le> fmul (of_int (?e - ?s)) (?f e')"
    "fmul (of_int (?e - ?s)) (?f e') \<le> of_int (?e - ?s)"
    using frac nn fmul_part [of "?f e" "?e - ?s"] fmul_part [of "?f e'" "?e - ?s"] k
    by (simp_all add: fmul_def f64_mono mult_left_mono del: of_int_diff)
  have "fadd (of_int ?s) 0 \<le> fadd (of_int ?s) (fmul (of_int (?e - ?s)) (?f e))"
    "fadd (of_int ?s) (fmul (of_int (?e - ?s)) (?f e)) \<le> fadd (of_int ?s) (fmul (of_int (?e - ?s)) (?f e'))"
    "fadd (of_int ?s) (fmul (of_int (?e - ?s)) (?f e')) \<le> fadd (of_int ?s) (of_int (?e - ?s))"
    using part by (auto intro: fadd_mono)
  then show ?thesis using R [of e] R [of e'] assms(4-6) k by (simp add: fadd_def)
qed

theorem ramp_Rate_rises_witness:
  "let r = \<lparr>rpStart = \<lparr>Freq = 100, Per = second\<rparr>, rpEnd = \<lparr>Freq = 200, Per = second\<rparr>, rpOver = 60 * second\<rparr> in
     100 \<le> ramp_Rate r 5000000000 \<and> ramp_Rate r 5000000000 \<le> ramp_Rate r 30000000001 \<and> ramp_Rate r 30000000001 \<le> 200"
  using ramp_Rate_rises [of "\<lparr>rpStart = \<lparr>Freq = 100, Per = second\<rparr>, rpEnd = \<lparr>Freq = 200, Per = second\<rparr>, rpOver = 60 * second\<rparr>" 5000000000 30000000001]
  by (simp add: Let_def second_def in64_iff)

lemma Parse_printed:
  assumes "valid_date b" "0 \<le> year b" "year b \<le> 9999"
  shows "Parse (BusinessDate_String b) = Inr b"
proof -
  have "time_Parse (BusinessDate_String b) = Some b"
    unfolding time_Parse_Some BusinessDate_String_expansion [OF assms] using assms by simp
  then show ?thesis using assms(1) by (simp add: Parse_def Date_bd_days absDate_bd_days)
qed

lemma field_names:
  "sameField ''business_date'' ''kind'' = False" "sameField ''business_date'' ''currency'' = False"
  "sameField ''currency'' ''kind'' = False" "sameField ''entries'' ''kind'' = False" "sameField ''entries'' ''currency'' = False"
  "sameField ''entries'' ''business_date'' = False" "sameField ''entries'' ''value_date'' = False" "sameField ''entries'' ''posted_at'' = False"
  "sameField ''entries'' ''reverses_posting_id'' = False" "sameField ''posted_at'' ''kind'' = False" "sameField ''posted_at'' ''currency'' = False"
  "sameField ''posted_at'' ''business_date'' = False" "sameField ''posted_at'' ''value_date'' = False"
  "sameField ''reverses_posting_id'' ''kind'' = False" "sameField ''reverses_posting_id'' ''currency'' = False"
  "sameField ''reverses_posting_id'' ''business_date'' = False" "sameField ''reverses_posting_id'' ''value_date'' = False"
  "sameField ''reverses_posting_id'' ''posted_at'' = False" "sameField ''value_date'' ''kind'' = False"
  "sameField ''value_date'' ''currency'' = False" "sameField ''value_date'' ''business_date'' = False"
  "sameField ''amount_minor'' ''account_id'' = False"
  by code_simp+

lemma sameField_refl: "sameField a a"
  by (simp add: sameField_def)

lemma decode_load_body:
  assumes "parse (uuid_String acc) = Some acc" "parse (uuid_String sus) = Some sus" "1000 \<le> amt" "amt < 251000"
  shows "decodePosting parse (Some (load_body o' cur acc sus amt)) =
    Some \<lparr>bKind = ''transfer'', bCur = cur, bBusinessDate = BusinessDate_String (loDate o'), bValueDate = BusinessDate_String (loDate o'),
      bPostedAt = RFC3339Nano (bd_time (Date (year (loDate o')) (month (loDate o')) (day (loDate o'))) + 12 * 3600 * second),
      bReverses = None, bEntries = [\<lparr>qAccount = acc, qAmountMinor = amt\<rparr>, \<lparr>qAccount = sus, qAmountMinor = - amt\<rparr>]\<rparr>"
proof -
  have "in64 amt" "in64 (- amt)" using assms(3,4) by (simp_all add: in64_iff)
  with assms(1,2) show ?thesis
    by (simp add: load_body_def Let_def decodePosting_def postingField_def entryField_def asString_def asInt64_def asEntry_def
        emptyPostingBody_def zeroEntry_def field_names sameField_refl)
qed

lemma selectAccount_in:
  assumes "3 \<le> length (loAccounts o')" "length (loAccounts o') < 2 ^ 64"
  shows "selectAccount o' (take 2 (loAccounts o')) n \<in> set (butlast (loAccounts o'))"
proof -
  let ?accs = "loAccounts o'" and ?pool = "take (length (loAccounts o') - 1) (loAccounts o')"
  have pool: "?pool = butlast ?accs" "length ?pool = length ?accs - 1" by (simp_all add: butlast_conv_take)
  have any: "?pool ! unat (w mod of_nat (length ?pool)) \<in> set ?pool" for w :: "64 word"
    using assms by (intro nth_mem pick_in) auto
  have half: "?pool ! unat (w mod of_nat (length ?pool div 2)) \<in> set ?pool" for w :: "64 word"
    using assms by (intro nth_mem less_le_trans [OF pick_in]) auto
  have hot: "take 2 ?accs ! unat (w mod 2) \<in> set ?pool" for w :: "64 word"
  proof -
    have "unat (w mod 2) < 2" using pick_in [of 2 w] by simp
    then have "take 2 ?accs ! unat (w mod 2) = ?pool ! unat (w mod 2)" "unat (w mod 2) < length ?pool" using assms(1) by simp_all
    then show ?thesis by (metis nth_mem)
  qed
  show ?thesis using any half hot by (simp add: selectAccount_def Let_def pool(1) [symmetric])
qed

lemma load_amount_bounds: "1000 \<le> load_amount o' n" "load_amount o' n < 251000"
proof -
  have "unat (w mod of_nat 250000) < 250000" for w :: "64 word" by (rule pick_in) simp_all
  then have "int (unat (w mod of_nat 250000)) < 250000" for w :: "64 word" using of_nat_less_iff [of "unat (w mod of_nat 250000)" 250000, where 'a = int] by simp
  then have "uint (w mod 250000) < 250000" for w :: "64 word" by (metis of_nat_numeral uint_nat)
  then show "1000 \<le> load_amount o' n" "load_amount o' n < 251000" by (simp_all add: load_amount_def)
qed


definition sampleLoad :: "Profile \<Rightarrow> LoadOptions" where
  "sampleLoad p = \<lparr>loProfile = p, loRate = 100, loDuration = 60 * second, loSeed = 7, loAccounts = [1, 2, 3],
     loBaseURL = ''http://ledger'', loCurrency = [], loDate = BusinessDate 2028 2 29\<rparr>"

definition sampleLoadParse :: "string \<Rightarrow> uuid option" where
  "sampleLoadParse s = (if s = uuid_String 1 then Some 1 else if s = uuid_String 2 then Some 2
     else if s = uuid_String 3 then Some 3 else None)"

lemma sample_uuids: "uuid_String 1 \<noteq> uuid_String 2" "uuid_String 1 \<noteq> uuid_String 3" "uuid_String 2 \<noteq> uuid_String 3"
proof -
  have final: "last (uuid_String u) = hexDigit (unat u mod 16)" for u
    by (simp add: uuid_String_def uuid_hex_def upt_conv_Cons)
  have "hexDigit 1 \<noteq> hexDigit 2" "hexDigit 1 \<noteq> hexDigit 3" "hexDigit 2 \<noteq> hexDigit 3" by code_simp+
  then have "last (uuid_String 1) \<noteq> last (uuid_String 2)" "last (uuid_String 1) \<noteq> last (uuid_String 3)"
    "last (uuid_String 2) \<noteq> last (uuid_String 3)" unfolding final by simp_all
  then show "uuid_String 1 \<noteq> uuid_String 2" "uuid_String 1 \<noteq> uuid_String 3" "uuid_String 2 \<noteq> uuid_String 3" by metis+
qed

lemma sampleLoad_fields:
  "loProfile (sampleLoad p) = p" "loAccounts (sampleLoad p) = [1, 2, 3]" "loCurrency (sampleLoad p) = []"
  "loDate (sampleLoad p) = BusinessDate 2028 2 29" "loSeed (sampleLoad p) = 7"
  by (simp_all add: sampleLoad_def)

lemma sampleLoadParse_uuid: "sampleLoadParse (uuid_String 1) = Some 1" "sampleLoadParse (uuid_String 2) = Some 2"
  "sampleLoadParse (uuid_String 3) = Some 3"
  using sample_uuids unfolding sampleLoadParse_def by presburger+


text \<open>
  A key is never sent with two bodies: however the workers interleave, each call takes the
  next number, the idempotency keys of different calls differ, and equal keys mean the same request
  (below 2^64 calls, when the counter wraps).
\<close>

theorem load_keys_distinct:
  assumes "TargeterFor o' = Inr f" "f False c = (Inr t, c1)" "f False d = (Inr t', d1)"
  shows "c1 = c + 1 \<and> (map_of (tHeader t) ''Idempotency-Key'' = map_of (tHeader t') ''Idempotency-Key'' \<longleftrightarrow> c = d) \<and>
    (c = d \<longleftrightarrow> t = t')"
proof -
  have f: "f = nextTarget o' (if loCurrency o' = [] then ''USD'' else loCurrency o')" using assms(1) by (auto simp: TargeterFor_def split: if_splits)
  have t: "map_of (tHeader t) ''Idempotency-Key'' = Some (load_key o' (c + 1))" "map_of (tHeader t') ''Idempotency-Key'' = Some (load_key o' (d + 1))"
    "c1 = c + 1" "c = d \<Longrightarrow> t = t'"
    using assms(2,3) by (auto simp: f nextTarget_def Let_def)
  have "load_key o' (c + 1) = load_key o' (d + 1) \<longleftrightarrow> c + 1 = d + 1" by (auto simp: load_key_def simp flip: word_uint_eq_iff dest!: show_d_inj)
  with t show ?thesis by auto
qed

theorem load_keys_distinct_witness:
  "\<exists>t t'. fst (nextTarget (sampleLoad Payday) ''USD'' False 0) = Inr t \<and> fst (nextTarget (sampleLoad Payday) ''USD'' False 5) = Inr t' \<and>
     map_of (tHeader t) ''Idempotency-Key'' \<noteq> map_of (tHeader t') ''Idempotency-Key''"
proof -
  let ?o = "sampleLoad Payday"
  obtain t where t: "nextTarget ?o ''USD'' False 0 = (Inr t, 1)" by (simp add: nextTarget_def Let_def)
  obtain t' where t': "nextTarget ?o ''USD'' False 5 = (Inr t', 6)" by (simp add: nextTarget_def Let_def)
  have f: "TargeterFor ?o = Inr (nextTarget ?o ''USD'')" by (simp add: TargeterFor_def sampleLoad_def Profile_Valid_def)
  from load_keys_distinct [OF f t t'] t t' show ?thesis by auto
qed

text \<open>
  The hot-key profile sends a request to one of the first two accounts exactly when its draw of 1000 is below
  300, the float64 comparison with 0.30 included, and otherwise to any account of the book but
  the suspense account.
\<close>

theorem hot_key_share:
  assumes "loProfile o' = HotKey" "3 \<le> length (loAccounts o')" "length (loAccounts o') < 2 ^ 64"
  shows "selectAccount o' (take 2 (loAccounts o')) n =
    (if det (loSeed o') ''hot'' n mod 1000 < 300 then loAccounts o' ! unat (det (loSeed o') ''which'' n mod 2)
     else butlast (loAccounts o') ! unat (det (loSeed o') ''acct'' n mod of_nat (length (loAccounts o') - 1)))"
proof -
  let ?k = "det (loSeed o') ''hot'' n mod 1000"
  have "unat (w mod of_nat 1000) < 1000" for w :: "64 word" by (rule pick_in) simp_all
  then have "unat ?k < 1000" by (metis of_nat_numeral)
  note draw = hot_draw_word [OF this]
  have "unat (det (loSeed o') ''which'' n mod 2) < 2" using pick_in [of 2] by simp
  then have "take 2 (loAccounts o') ! unat (det (loSeed o') ''which'' n mod 2) = loAccounts o' ! unat (det (loSeed o') ''which'' n mod 2)" by simp
  moreover have "length (take (length (loAccounts o') - 1) (loAccounts o')) = length (loAccounts o') - 1" by simp
  ultimately show ?thesis
    unfolding selectAccount_def Let_def draw butlast_conv_take by (simp only: assms(1) if_True refl)
qed

theorem hot_key_share_witness:
  "selectAccount (sampleLoad HotKey) (take 2 (loAccounts (sampleLoad HotKey))) 7 =
    (if det (loSeed (sampleLoad HotKey)) ''hot'' 7 mod 1000 < 300
     then loAccounts (sampleLoad HotKey) ! unat (det (loSeed (sampleLoad HotKey)) ''which'' 7 mod 2)
     else butlast (loAccounts (sampleLoad HotKey)) ! unat (det (loSeed (sampleLoad HotKey)) ''acct'' 7 mod
       of_nat (length (loAccounts (sampleLoad HotKey)) - 1)))"
  by (rule hot_key_share) (simp_all add: sampleLoad_fields)

end
