(* ===== verification/Process.thy ===== *)
theory Process
  imports Commands Migrations Outbox Httpapi Delivery
begin

text \<open>
  \<^verbatim>\<open>cmd/ledger/main.go\<close>: the flags of the ledger process, its start-up, and the group of loops it then
  runs until one of them fails or a signal arrives: the invariant checker, the relay, the movement
  consumer, the HTTP server and the shutdown. A step of the process is one call of a loop as the
  other theories model it, so the loops interleave between calls and share the database, the
  broker and the metrics. The errgroup is not part of the repository: it is a record of two functions
  whose documented contract is \<open>group_contract\<close>.
\<close>

section \<open>Flags and start-up\<close>

definition postingsTopic :: string where
  "postingsTopic = ''shadowbook.postings.v1''"

definition movementsTopic :: string where
  "movementsTopic = ''shadowbook.movements.v1''"

record ledgerFlags =
  lfAddr :: string
  lfDSN :: string
  lfMode :: string
  lfPrincipals :: string
  lfInterval :: int
  lfBrokers :: string
  lfGroup :: string
  lfTopic :: string

text \<open>The flags when none is given on the command line.\<close>

definition ledgerDefaults :: "(string \<Rightarrow> string) \<Rightarrow> ledgerFlags" where
  "ledgerDefaults getenv = \<lparr>lfAddr = envOr getenv ''SHADOWBOOK_ADDR'' '':8080'', lfDSN = envOr getenv ''SHADOWBOOK_LEDGER_DSN'' [],
     lfMode = envOr getenv ''SHADOWBOOK_CONSUMER_MODE'' ''C'', lfPrincipals = envOr getenv ''SHADOWBOOK_PRINCIPALS'' ''sim,eod,consumer'',
     lfInterval = 500 * 1000000, lfBrokers = envOr getenv ''SHADOWBOOK_BROKERS'' [], lfGroup = envOr getenv ''SHADOWBOOK_GROUP'' [],
     lfTopic = envOr getenv ''SHADOWBOOK_MOVEMENTS_TOPIC'' movementsTopic\<rparr>"

datatype start_error = StartNoDSN | StartMode string | StartOpen string | StartMigrate mig_error | StartSuspense cons_error
  | StartPanic string | StartDial broker_error | StartConsumer cons_error

record 'k started =
  stServer :: Server
  stDialed :: "'k dialed"
  stRelay :: Relay
  stConsumer :: Consumer

text \<open>
  Everything before the loops. \<open>opened\<close> is the error of opening the database, if any; the
  migrations are those of \<open>Apply\<close> over the database of the ledger.
\<close>

definition startup ::
  "(string \<Rightarrow> db \<Rightarrow> string + db) \<Rightarrow> (string \<times> string option) list option \<Rightarrow> mworld \<Rightarrow> string option \<Rightarrow> 'k kgo \<Rightarrow> ext \<Rightarrow>
   ledgerFlags \<Rightarrow> db mdb \<Rightarrow> (start_error + 'k started) \<times> db mdb" where
  "startup run files w opened g x fl d =
     (if lfDSN fl = [] then (Inl StartNoDSN, d)
      else if \<not> Valid (lfMode fl) then (Inl (StartMode (lfMode fl)), d)
      else case opened of Some e \<Rightarrow> (Inl (StartOpen e), d) | None \<Rightarrow>
      let ((err, applied), d1) = Apply run files w d in
      case err of Some e \<Rightarrow> (Inl (StartMigrate e), d1) | None \<Rightarrow>
      let (res, s2) = EnsureSuspenseAccounts x (schema d1) (Date 2028 1 1); d2 = d1\<lparr>schema := s2\<rparr> in
      case res of Inl e \<Rightarrow> (Inl (StartSuspense e), d2) | Inr _ \<Rightarrow>
      case NewMetrics [] of Inl e \<Rightarrow> (Inl (StartPanic e), d2) | Inr (m, reg) \<Rightarrow>
      let srv = NewServer (splitOn (CHR '','') (lfPrincipals fl)) (Some (NewChecker (lfInterval fl))) m in
      case dialBroker g (lfBrokers fl) (lfGroup fl) (lfMode fl) (lfTopic fl) of Inl (e, _) \<Rightarrow> (Inl (StartDial e), d2) | Inr bus \<Rightarrow>
      case NewConsumer \<lparr>oMode = lfMode fl, oTopic = lfTopic fl, oBatch = 0, oMetrics = True\<rparr> of Inl e \<Rightarrow> (Inl (StartConsumer e), d2)
      | Inr c \<Rightarrow> (Inr \<lparr>stServer = srv, stDialed = bus, stRelay = NewRelay postingsTopic 0, stConsumer = c\<rparr>, d2))"

section \<open>The group of loops\<close>

datatype worker = Checking | Relaying | Moving | Serving | Stopping

definition workers :: "worker list" where
  "workers = [Checking, Relaying, Moving, Serving, Stopping]"

datatype proc_error = PRelay relay_error | PMovements cons_error | PServe string | PShutdown string

text \<open>The errgroup: whether its context is done and what \<^verbatim>\<open>Wait\<close> returns, from what its functions returned, in order.\<close>

record errgroup =
  gDone :: "bool \<Rightarrow> proc_error option list \<Rightarrow> bool"
  gWait :: "proc_error option list \<Rightarrow> proc_error option"

text \<open>
  Its documentation: the context is done when the parent is or a function has returned an error, and
  \<^verbatim>\<open>Wait\<close> returns the first error, if any.
\<close>

definition group_contract :: "errgroup \<Rightarrow> bool" where
  "group_contract g \<longleftrightarrow> (\<forall>parent rs. gDone g parent rs \<longleftrightarrow> parent \<or> (\<exists>e. Some e \<in> set rs)) \<and>
     (\<forall>rs. gWait g rs = (case filter (\<lambda>r. r \<noteq> None) rs of [] \<Rightarrow> None | r # _ \<Rightarrow> r))"

record 'b wiring =
  wProduce :: "bool \<Rightarrow> 'b \<Rightarrow> Record list \<Rightarrow> (broker_error + unit) \<times> 'b"
  wOps :: "bool \<Rightarrow> 'b broker_ops"
  wExt :: ext
  wCext :: cext
  wConsumer :: Consumer
  wRelay :: Relay
  wParse :: "string \<Rightarrow> uuid option"
  wGroup :: errgroup

record 'b process =
  pDb :: db
  pBus :: 'b
  pServer :: Server
  pCounters :: Counters
  pSignalled :: bool
  pShut :: bool
  pReturned :: "(worker \<times> proc_error option) list"

definition alive :: "'b process \<Rightarrow> worker \<Rightarrow> bool" where
  "alive p l \<longleftrightarrow> l \<notin> fst ` set (pReturned p)"

definition cancelled :: "'b wiring \<Rightarrow> 'b process \<Rightarrow> bool" where
  "cancelled W p = gDone (wGroup W) (pSignalled p) (map snd (pReturned p))"

definition exited :: "'b process \<Rightarrow> bool" where
  "exited p \<longleftrightarrow> list_all (\<lambda>l. \<not> alive p l) workers"

definition leave :: "worker \<Rightarrow> proc_error option \<Rightarrow> 'b process \<Rightarrow> 'b process" where
  "leave l err p = p\<lparr>pReturned := pReturned p @ [(l, err)]\<rparr>"

text \<open>
  One call of a loop, or an event from outside. A flag \<open>gone\<close> says that the context ended while the
  call was running, so that the broker refuses it.
\<close>

record call =
  cWorld :: world
  cNew :: uuid
  cStart :: int
  cFinish :: int
  cPing :: "string option"
  cPage :: string
  cMethod :: string
  cSegs :: "string list"
  cRequest :: http_request

datatype action =
    Signal
  | Evaluate "string option" "string option" int int
  | CheckStop
  | RelayTick bool "string option"
  | RelayStop "string option"
  | Turn bool "nat \<Rightarrow> uuid" "nat \<Rightarrow> world"
  | MoveStop
  | Request call
  | ServeFail string
  | Shutdown
  | ServeClosed
  | ShutdownDone "string option"

fun perform :: "'b wiring \<Rightarrow> action \<Rightarrow> 'b process \<Rightarrow> 'b process option" where
  "perform W Signal p = Some (p\<lparr>pSignalled := True\<rparr>)"
| "perform W (Evaluate f1 f2 t0 t1) p =
     (if \<not> alive p Checking then None
      else case checker (pServer p) of None \<Rightarrow> None | Some c \<Rightarrow>
      let (c', m') = once f1 f2 (pDb p) t0 t1 c (metrics (pServer p)) in
      Some (p\<lparr>pServer := (pServer p)\<lparr>checker := Some c', metrics := m'\<rparr>\<rparr>))"
| "perform W CheckStop p = (if alive p Checking \<and> cancelled W p then Some (leave Checking None p) else None)"
| "perform W (RelayTick gone mf) p =
     (if \<not> alive p Relaying \<or> gone \<and> \<not> cancelled W p then None
      else case drainTick (wProduce W gone) (wRelay W) mf (pDb p) (pBus p) of None \<Rightarrow> None
      | Some (err, d', b') \<Rightarrow> let p' = p\<lparr>pDb := d', pBus := b'\<rparr> in
          Some (case err of None \<Rightarrow> p' | Some e \<Rightarrow> leave Relaying (Some (PRelay e)) p'))"
| "perform W (RelayStop mf) p =
     (if \<not> alive p Relaying \<or> \<not> cancelled W p then None
      else let (err, d', b') = drainAll (wProduce W False) (wRelay W) mf (pDb p) (pBus p) in
        Some (leave Relaying None (p\<lparr>pDb := d', pBus := b'\<rparr>)))"
| "perform W (Turn gone ids ws) p =
     (if \<not> alive p Moving \<or> gone \<and> \<not> cancelled W p then None
      else let ((st, err), d', b', k') = RunOnce (wOps W gone) (wExt W) (wCext W) (wConsumer W) ids ws (pDb p) (pBus p) (pCounters p);
               p' = p\<lparr>pDb := d', pBus := b', pCounters := k'\<rparr> in
        Some (case err of None \<Rightarrow> p'
          | Some e \<Rightarrow> leave Moving (if isCanceled e \<or> isClosed e then None else Some (PMovements e)) p'))"
| "perform W MoveStop p = (if alive p Moving \<and> cancelled W p then Some (leave Moving None p) else None)"
| "perform W (Request c) p =
     (if exited p then None
      else let (resp, s', d') = Handler (wExt W) (wParse W) (cWorld c) (cNew c) (cStart c) (cFinish c) (cPing c) True (cPage c)
             (pServer p) (pDb p) (cMethod c) (cSegs c) (cRequest c) in
        Some (p\<lparr>pServer := s', pDb := d'\<rparr>))"
| "perform W (ServeFail e) p = (if alive p Serving then Some (leave Serving (Some (PServe e)) p) else None)"
| "perform W Shutdown p = (if alive p Stopping \<and> cancelled W p then Some (p\<lparr>pShut := True\<rparr>) else None)"
| "perform W ServeClosed p = (if alive p Serving \<and> pShut p then Some (leave Serving None p) else None)"
| "perform W (ShutdownDone err) p =
     (if alive p Stopping \<and> pShut p then Some (leave Stopping (map_option PShutdown err) p) else None)"

text \<open>The states a process can reach, and what it returns once all its loops have.\<close>

inductive reaches :: "'b wiring \<Rightarrow> 'b process \<Rightarrow> 'b process \<Rightarrow> bool" for W p0 where
  start: "reaches W p0 p0"
| step: "reaches W p0 p \<Longrightarrow> perform W a p = Some p' \<Longrightarrow> reaches W p0 p'"

definition ledger_result :: "'b wiring \<Rightarrow> 'b process \<Rightarrow> proc_error option" where
  "ledger_result W p = gWait (wGroup W) (map snd (pReturned p))"

definition launched :: "'k started \<Rightarrow> db \<Rightarrow> 'b \<Rightarrow> 'b process" where
  "launched st d b = \<lparr>pDb = d, pBus = b, pServer = stServer st, pCounters = \<lparr>movements = [], consumerLag = None\<rparr>,
     pSignalled = False, pShut = False, pReturned = []\<rparr>"

section \<open>Calls keep the books\<close>

lemma PlaceHold_ok: "ledger_ok x d \<Longrightarrow> ledger_ok x (snd (PlaceHold d new a amt placed asOf))"
  using side_ledger_ok [of x d "SInsertHold _"]
  by (simp add: PlaceHold_def PlaceHold_insert_def side_def attempt_def split: sum.split)

lemma ReleaseHold_ok: "ledger_ok x d \<Longrightarrow> ledger_ok x (snd (ReleaseHold d h now kind))"
  using side_ledger_ok [of x d "SReleaseHold h now kind"]
  by (auto simp: ReleaseHold_def side_def attempt_def split: sum.split)

text \<open>A call of an API operation changes the database by one operation of the services and leaves the checker alone.\<close>

lemma nextRequestID_checker: "nextRequestID s = (q, s1) \<Longrightarrow> checker s1 = checker s"
  by (auto simp: nextRequestID_def)

lemma handlePost_checker: "handlePostPosting x parse w t0 t1 s d r = (resp, s', d') \<Longrightarrow> checker s' = checker s"
  by (auto simp: handlePostPosting_def nextRequestID_def Let_def countPosting_def attempt_def
      split: option.splits sum.splits prod.splits if_splits)

lemma handlePlaceHold_keeps:
  assumes "handlePlaceHold parse new s d r = (resp, s', d')"
  shows "checker s' = checker s \<and> (ledger_ok x d \<longrightarrow> ledger_ok x d')"
  using assms
  by (auto simp: handlePlaceHold_def nextRequestID_def Let_def attempt_def
      split: option.splits sum.splits prod.splits if_splits intro: PlaceHold_ok)

lemma handleReleaseHold_keeps:
  assumes "handleReleaseHold parse now s d r = (resp, s', d')"
  shows "checker s' = checker s \<and> (ledger_ok x d \<longrightarrow> ledger_ok x d')"
  using assms
  by (auto simp: handleReleaseHold_def nextRequestID_def Let_def attempt_def
      split: option.splits sum.splits prod.splits if_splits intro: ReleaseHold_ok)

lemma handleBalances_checker: "handleBalances parse clock s d r = (resp, s') \<Longrightarrow> checker s' = checker s"
  by (auto simp: handleBalances_def nextRequestID_def Let_def split: option.splits sum.splits if_splits)

lemma handleEntries_checker: "handleEntries parse s d r = (resp, s') \<Longrightarrow> checker s' = checker s"
  by (auto simp: handleEntries_def nextRequestID_def Let_def split: option.splits sum.splits if_splits)

lemma handlePost_ok:
  assumes "handlePostPosting x parse w t0 t1 s d r = (resp, s', d')" "ledger_ok x d"
  shows "ledger_ok x d'"
  using assms(1) by (cases rule: handlePost_cases) (use assms(2) Post_ledger_ok in blast)+

lemma Handler_keeps:
  assumes "Handler x parse w new t0 t1 png reg page s d m segs r = (resp, s', d')"
  shows "checker s' = checker s \<and> (ledger_ok x d \<longrightarrow> ledger_ok x d')"
proof (cases "routesOf segs")
  case Nil
  with assms show ?thesis by (simp add: Handler_def)
next
  case (Cons p ps)
  obtain pat rt where p: "p = (pat, rt)" by force
  note H = assms [unfolded Handler_def Cons p list.case prod.case]
  show ?thesis
  proof (cases "(rt = GetMetrics \<and> \<not> reg) \<or> \<not> serves pat m")
    case True
    with H show ?thesis by (auto split: if_splits)
  next
    case False
    with H show ?thesis
      by (cases rt) (auto simp: Let_def split: prod.splits
          dest: handlePost_checker handlePost_ok handlePlaceHold_keeps [where x = x] handleReleaseHold_keeps [where x = x]
            handleBalances_checker handleEntries_checker)
  qed
qed

lemma Drain_ok: "ledger_ok x d \<Longrightarrow> Drain produce rl mf d b = ((n, err), d', b') \<Longrightarrow> ledger_ok x d'"
  by (auto simp: Drain_batch attempt_def intro: markRows_ok split: if_splits sum.splits option.splits prod.splits)

lemma drainTick_ok:
  assumes "ledger_ok x d" "drainTick produce rl mf d b = Some (err, d', b')" "0 < batchSize rl"
  shows "ledger_ok x d'"
  by (rule drainTick_inv [where P = "\<lambda>d b. ledger_ok x d", OF _ assms]) (rule Drain_ok)

lemma drainAll_ok:
  assumes "ledger_ok x d" "drainAll produce rl mf d b = (err, d', b')"
  shows "ledger_ok x d'"
  by (rule drainAll_inv [where P = "\<lambda>d b. ledger_ok x d", OF _ assms]) (rule Drain_ok)

lemma RunOnce_ok:
  assumes "cext_ok cx" "ledger_ok x d" "RunOnce br x cx c ids ws d b k = ((st, err), d', b', k')"
  shows "ledger_ok x d'"
  using assms(3)
proof (cases rule: RunOnce_cases)
  case (worked records b1 st0 k0 out k1)
  show ?thesis using apply_ok [OF assms(1)] assms(2) worked(2) by (rule applyAll_preserves)
qed (use assms(2) in simp)

text \<open>The checker's last result, if there is one, is that the books balance.\<close>

definition checker_fine :: "Server \<Rightarrow> bool" where
  "checker_fine s \<longleftrightarrow> (\<forall>c. checker s = Some c \<longrightarrow> Last c = noResult \<or> iOK (Last c))"

lemma once_fine:
  assumes "ledger_ok x d" "once f1 f2 d t0 t1 c m = (c', m')"
  shows "Last c' = Last c \<or> iOK (Last c')"
proof -
  have "\<exists>m. GlobalInvariant d = Inr m"
    using assms(1) scanSums_zero [of "entries d"] unfolding ledger_ok_def GlobalInvariant_def by blast
  with CheckInvariant_ok [of f1 d t0 t1] assms show ?thesis
    by (auto simp: once_def Let_def Last_def ledger_ok_def split: sum.splits)
qed

section \<open>Every interleaving\<close>

lemma leave_fields [simp]:
  "pDb (leave l e p) = pDb p" "pBus (leave l e p) = pBus p" "pServer (leave l e p) = pServer p"
  "pSignalled (leave l e p) = pSignalled p" "pShut (leave l e p) = pShut p"
  "pReturned (leave l e p) = pReturned p @ [(l, e)]"
  by (simp_all add: leave_def)

lemma perform_keeps:
  assumes "perform W a p = Some p'" "cext_ok (wCext W)" "0 < batchSize (wRelay W)"
    and "ledger_ok (wExt W) (pDb p)" "checker_fine (pServer p)"
  shows "ledger_ok (wExt W) (pDb p') \<and> checker_fine (pServer p')"
proof (cases a)
  case (Evaluate f1 f2 t0 t1)
  with assms(1) obtain c c' m' where c: "checker (pServer p) = Some c" "once f1 f2 (pDb p) t0 t1 c (metrics (pServer p)) = (c', m')"
    "p' = p\<lparr>pServer := (pServer p)\<lparr>checker := Some c', metrics := m'\<rparr>\<rparr>"
    by (auto simp: Let_def split: if_splits option.splits prod.splits)
  from once_fine [OF assms(4) c(2)] assms(5) c(1) have "Last c' = noResult \<or> iOK (Last c')" by (auto simp: checker_fine_def)
  with c assms(4) show ?thesis by (simp add: checker_fine_def)
next
  case (RelayTick gone mf)
  with assms(1) obtain err d' b' where D: "drainTick (wProduce W gone) (wRelay W) mf (pDb p) (pBus p) = Some (err, d', b')"
    "pDb p' = d'" "pServer p' = pServer p"
    by (auto simp: Let_def split: if_splits option.splits)
  from drainTick_ok [OF assms(4) D(1) assms(3)] D assms(5) show ?thesis by simp
next
  case (RelayStop mf)
  obtain err d' b' where D: "drainAll (wProduce W False) (wRelay W) mf (pDb p) (pBus p) = (err, d', b')" by (metis surj_pair)
  with assms(1) RelayStop have "pDb p' = d'" "pServer p' = pServer p" by (auto split: if_splits)
  with drainAll_ok [OF assms(4) D] assms(5) show ?thesis by simp
next
  case (Turn gone ids ws)
  obtain st err d' b' k' where R: "RunOnce (wOps W gone) (wExt W) (wCext W) (wConsumer W) ids ws (pDb p) (pBus p) (pCounters p) =
    ((st, err), d', b', k')" by (metis surj_pair)
  with assms(1) Turn have "pDb p' = d'" "pServer p' = pServer p" by (auto simp: Let_def split: if_splits option.splits)
  with RunOnce_ok [OF assms(2,4) R] assms(5) show ?thesis by simp
next
  case (Request c)
  obtain resp s' d' where H: "Handler (wExt W) (wParse W) (cWorld c) (cNew c) (cStart c) (cFinish c) (cPing c) True (cPage c)
    (pServer p) (pDb p) (cMethod c) (cSegs c) (cRequest c) = (resp, s', d')" by (metis surj_pair)
  with assms(1) Request have "pDb p' = d'" "pServer p' = s'" by (auto split: if_splits)
  with Handler_keeps [OF H] assms(4,5) show ?thesis by (simp add: checker_fine_def)
qed (use assms in \<open>auto split: if_splits\<close>)

lemma reaches_keeps:
  assumes "reaches W p0 p" "cext_ok (wCext W)" "0 < batchSize (wRelay W)" "ledger_ok (wExt W) (pDb p0)" "checker_fine (pServer p0)"
  shows "ledger_ok (wExt W) (pDb p) \<and> checker_fine (pServer p)"
  using assms(1)
proof induction
  case (step p a p')
  then show ?case using perform_keeps [OF step.hyps(2) assms(2,3)] by blast
qed (use assms(4,5) in blast)

section \<open>How a process ends\<close>

text \<open>
  What the returns of the loops look like: each returns once; until there is an error or a
  signal only the consumer can return, and no return before the first error is one.
\<close>

definition ending :: "'b process \<Rightarrow> bool" where
  "ending p \<longleftrightarrow> pSignalled p \<or> (\<exists>e. Some e \<in> snd ` set (pReturned p))"

definition orderly :: "'b process \<Rightarrow> bool" where
  "orderly p \<longleftrightarrow> distinct (map fst (pReturned p)) \<and>
     (\<not> ending p \<longrightarrow> fst ` set (pReturned p) \<subseteq> {Moving} \<and> \<not> pShut p) \<and> (\<not> alive p Stopping \<longrightarrow> pShut p)"

lemma cancelled_iff:
  assumes "group_contract (wGroup W)"
  shows "cancelled W p \<longleftrightarrow> ending p"
  using assms by (simp add: cancelled_def ending_def group_contract_def)

lemma orderly_frame: "pReturned p' = pReturned p \<Longrightarrow> pSignalled p' = pSignalled p \<Longrightarrow> pShut p' = pShut p \<Longrightarrow> orderly p \<Longrightarrow> orderly p'"
  by (simp add: orderly_def ending_def alive_def)

lemma leave_ending [simp]: "ending (leave l e p) \<longleftrightarrow> ending p \<or> e \<noteq> None"
  by (cases e) (simp add: ending_def, unfold ending_def leave_fields, simp, blast)

lemma leave_alive [simp]: "alive (leave l e p) m \<longleftrightarrow> alive p m \<and> m \<noteq> l"
  by (auto simp: alive_def)

lemma ending_frame [simp]:
  "ending (p\<lparr>pDb := d, pBus := b\<rparr>) = ending p" "ending (p\<lparr>pDb := d, pBus := b, pCounters := k\<rparr>) = ending p"
  "ending (p\<lparr>pShut := sh\<rparr>) = ending p" "ending (p\<lparr>pSignalled := True\<rparr>)"
  by (simp_all add: ending_def)

lemma alive_frame [simp]:
  "alive (p\<lparr>pDb := d, pBus := b\<rparr>) = alive p" "alive (p\<lparr>pDb := d, pBus := b, pCounters := k\<rparr>) = alive p"
  "alive (p\<lparr>pShut := sh\<rparr>) = alive p" "alive (p\<lparr>pSignalled := True\<rparr>) = alive p"
  by (simp_all add: alive_def fun_eq_iff)

lemma leave_orderly:
  assumes "orderly p" "alive p l" "l = Stopping \<longrightarrow> pShut p" "l = Moving \<or> e \<noteq> None \<or> ending p"
  shows "orderly (leave l e p)"
proof -
  have "distinct (map fst (pReturned p) @ [l])" using assms(1,2) by (simp add: orderly_def alive_def)
  with assms show ?thesis by (auto simp: orderly_def)
qed

lemma perform_orderly:
  assumes "perform W a p = Some p'" "group_contract (wGroup W)" "orderly p"
  shows "orderly p'"
proof -
  note can = cancelled_iff [OF assms(2), of p]
  have shut: "ending p" if "pShut p" using that assms(3) by (auto simp: orderly_def)
  have data: "orderly (p\<lparr>pDb := d, pBus := b\<rparr>) = orderly p" "orderly (p\<lparr>pDb := d, pBus := b, pCounters := k\<rparr>) = orderly p" for d b k
    by (simp_all add: orderly_def)
  show ?thesis
  proof (cases a)
    case Signal
    with assms show ?thesis by (auto simp: orderly_def)
  next
    case (Evaluate f1 f2 t0 t1)
    with assms(1,3) show ?thesis
      by (auto simp: Let_def split: if_splits option.splits prod.splits intro: orderly_frame [where p = p])
  next
    case CheckStop
    with assms can show ?thesis by (auto split: if_splits intro: leave_orderly)
  next
    case (RelayTick gone mf)
    with assms(1,3) show ?thesis
      by (auto simp: Let_def data split: if_splits option.splits intro!: leave_orderly)
  next
    case (RelayStop mf)
    with assms(1,3) can show ?thesis by (auto simp: data split: if_splits prod.splits intro!: leave_orderly)
  next
    case (Turn gone ids ws)
    with assms(1,3) show ?thesis
      by (auto simp: Let_def data split: if_splits option.splits prod.splits intro!: leave_orderly)
  next
    case MoveStop
    with assms show ?thesis by (auto split: if_splits intro: leave_orderly)
  next
    case (Request c)
    with assms(1,3) show ?thesis by (auto split: if_splits prod.splits intro: orderly_frame [where p = p])
  next
    case (ServeFail e)
    with assms show ?thesis by (auto split: if_splits intro: leave_orderly)
  next
    case Shutdown
    with Shutdown assms(1,3) can show ?thesis by (auto simp: orderly_def split: if_splits)
  next
    case ServeClosed
    with assms shut show ?thesis by (auto split: if_splits intro: leave_orderly)
  next
    case (ShutdownDone err)
    with assms shut show ?thesis by (auto split: if_splits intro: leave_orderly)
  qed
qed

lemma reaches_orderly:
  assumes "reaches W p0 p" "group_contract (wGroup W)" "orderly p0"
  shows "orderly p"
  using assms(1) by induction (use assms(2,3) perform_orderly in blast)+

lemma fresh_orderly: "pReturned p0 = [] \<Longrightarrow> \<not> pShut p0 \<Longrightarrow> orderly p0"
  by (simp add: orderly_def alive_def)

lemma first_error: "filter (\<lambda>r. r \<noteq> None) rs = r # rest \<Longrightarrow> \<exists>i < length rs. rs ! i = r \<and> r \<noteq> None \<and> (\<forall>j < i. rs ! j = None)"
proof (induction rs)
  case (Cons q rs)
  show ?case
  proof (cases q)
    case None
    with Cons obtain i where "i < length rs" "rs ! i = r" "r \<noteq> None" "\<forall>j < i. rs ! j = None" by auto
    with None show ?thesis by (intro exI [of _ "Suc i"]) (auto simp: nth_Cons split: nat.splits)
  next
    case (Some e)
    with Cons show ?thesis by (intro exI [of _ 0]) auto
  qed
qed simp

fun performs :: "'b wiring \<Rightarrow> action list \<Rightarrow> 'b process \<Rightarrow> 'b process option" where
  "performs W [] p = Some p"
| "performs W (a # as) p = (case perform W a p of None \<Rightarrow> None | Some p' \<Rightarrow> performs W as p')"

lemma performs_append: "performs W (as @ bs) p = (case performs W as p of None \<Rightarrow> None | Some p' \<Rightarrow> performs W bs p')"
  by (induction as arbitrary: p) (auto split: option.split)

lemma performs_reaches: "reaches W p0 p \<Longrightarrow> performs W as p = Some p' \<Longrightarrow> reaches W p0 p'"
  by (induction as arbitrary: p) (auto split: option.splits intro: reaches.step)

text \<open>One step of the way out: a loop that has not returned returns, and what is ending stays so.\<close>

lemma stop_worker:
  assumes "group_contract (wGroup W)" "ending p"
    and "(l, a) \<in> {(Checking, CheckStop), (Relaying, RelayStop None), (Moving, MoveStop)}"
  shows "\<exists>as p'. length as \<le> 1 \<and> performs W as p = Some p' \<and> ending p' \<and> pShut p' = pShut p \<and>
    (\<forall>m. alive p' m \<longleftrightarrow> alive p m \<and> m \<noteq> l)"
proof (cases "alive p l")
  case False
  then have "\<forall>m. alive p m \<longleftrightarrow> alive p m \<and> m \<noteq> l" by blast
  with assms(2) show ?thesis by (intro exI [of _ "[]"]) simp
next
  case True
  have c: "cancelled W p" using assms(1,2) cancelled_iff by blast
  obtain err d b where D: "drainAll (wProduce W False) (wRelay W) None (pDb p) (pBus p) = (err, d, b)" by (metis surj_pair)
  from assms(2,3) True c D show ?thesis by (intro exI [of _ "[a]"]) auto
qed

lemma stop_serving:
  assumes "group_contract (wGroup W)" "ending p" "\<not> alive p Stopping \<longrightarrow> pShut p"
  shows "\<exists>as p'. length as \<le> 3 \<and> performs W as p = Some p' \<and> (\<forall>m. alive p' m \<longleftrightarrow> alive p m \<and> m \<notin> {Serving, Stopping})"
proof -
  have c: "cancelled W p" using assms(1,2) cancelled_iff by blast
  let ?as = "(if alive p Stopping then [Shutdown] else []) @ (if alive p Serving then [ServeClosed] else []) @
    (if alive p Stopping then [ShutdownDone None] else [])"
  from c assms(3) show ?thesis by (intro exI [of _ ?as]) auto
qed

lemma stops:
  assumes "group_contract (wGroup W)" "ending p" "\<not> alive p Stopping \<longrightarrow> pShut p"
  shows "\<exists>as p'. length as \<le> 6 \<and> performs W as p = Some p' \<and> exited p'"
proof -
  obtain as1 p1 where 1: "length as1 \<le> 1" "performs W as1 p = Some p1" "ending p1" "pShut p1 = pShut p"
    "\<forall>m. alive p1 m \<longleftrightarrow> alive p m \<and> m \<noteq> Checking" using stop_worker [OF assms(1,2), of Checking CheckStop] by auto
  obtain as2 p2 where 2: "length as2 \<le> 1" "performs W as2 p1 = Some p2" "ending p2" "pShut p2 = pShut p1"
    "\<forall>m. alive p2 m \<longleftrightarrow> alive p1 m \<and> m \<noteq> Relaying" using stop_worker [OF assms(1) 1(3), of Relaying "RelayStop None"] by auto
  obtain as3 p3 where 3: "length as3 \<le> 1" "performs W as3 p2 = Some p3" "ending p3" "pShut p3 = pShut p2"
    "\<forall>m. alive p3 m \<longleftrightarrow> alive p2 m \<and> m \<noteq> Moving" using stop_worker [OF assms(1) 2(3), of Moving MoveStop] by auto
  have "\<not> alive p3 Stopping \<longrightarrow> pShut p3" using assms(3) 1 2 3 by simp
  from stop_serving [OF assms(1) 3(3) this] obtain as4 p4 where 4: "length as4 \<le> 3" "performs W as4 p3 = Some p4"
    "\<forall>m. alive p4 m \<longleftrightarrow> alive p3 m \<and> m \<notin> {Serving, Stopping}" by blast
  have "performs W (as1 @ as2 @ as3 @ as4) p = Some p4" by (simp add: performs_append 1 2 3 4)
  moreover have "exited p4" by (simp add: exited_def workers_def 1 2 3 4)
  ultimately show ?thesis using 1(1) 2(1) 3(1) 4(1) by (intro exI [of _ "as1 @ as2 @ as3 @ as4"]) auto
qed

section \<open>Start-up\<close>

lemma ensureLoop_ok:
  assumes "\<forall>c \<in> set cs. length c = 3"
  shows "\<exists>d'. ensureLoop x opened d cs = (Inr (), d') \<and> (ledger_ok x d \<longrightarrow> ledger_ok x d') \<and>
    (\<forall>a. has_account d a \<longrightarrow> has_account d' a) \<and> (\<forall>c \<in> set cs. has_account d' (SuspenseAccountFor x c))"
  using assms
proof (induction cs arbitrary: d)
  case (Cons c cs)
  let ?a = "\<lparr>aId = SuspenseAccountFor x c, aProductCode = ''SUSPENSE'', aCurrency = c, aOpenedOn = opened\<rparr>"
  let ?d1 = "snd (InsertAccount d ?a)"
  have ok: "ledger_ok x d \<longrightarrow> ledger_ok x ?d1" using side_ledger_ok [of x d "SInsertAccount ?a"] by (simp add: side_def)
  have char3: "char3 c = Some c" using Cons.prems by (simp add: char3_def)
  have grow: "has_account ?d1 a" if "has_account d a \<or> a = SuspenseAccountFor x c" for a
    using that char3 by (auto simp: InsertAccount_def has_account_def)
  have step: "ensureLoop x opened d (c # cs) = ensureLoop x opened ?d1 cs"
    using char3 by (simp add: InsertAccount_def attempt_def IsUniqueViolation_def)
  from Cons.IH [of ?d1] Cons.prems obtain d' where "ensureLoop x opened ?d1 cs = (Inr (), d')" "ledger_ok x ?d1 \<longrightarrow> ledger_ok x d'"
    "\<forall>a. has_account ?d1 a \<longrightarrow> has_account d' a" "\<forall>c \<in> set cs. has_account d' (SuspenseAccountFor x c)" by auto
  with step ok grow show ?case by (intro exI [of _ d']) auto
qed simp

lemma EnsureSuspenseAccounts_ok:
  "\<exists>d'. EnsureSuspenseAccounts x d opened = (Inr (), d') \<and> (ledger_ok x d \<longrightarrow> ledger_ok x d') \<and>
    (\<forall>c \<in> {''USD'', ''EUR'', ''JPY''}. has_account d' (SuspenseAccountFor x c))"
  using ensureLoop_ok [of "[''USD'', ''EUR'', ''JPY'']" x opened d] by (auto simp: EnsureSuspenseAccounts_def)

text \<open>What start-up relies on of the migrations: no script breaks a consistent ledger.\<close>

definition migrations_safe :: "ext \<Rightarrow> (string \<Rightarrow> db \<Rightarrow> string + db) \<Rightarrow> bool" where
  "migrations_safe x run \<longleftrightarrow> (\<forall>s a b. ledger_ok x a \<longrightarrow> run s a = Inr b \<longrightarrow> ledger_ok x b)"

lemma applyOne_safe:
  "migrations_safe x run \<Longrightarrow> applyOne run w d m = (e, d') \<Longrightarrow> ledger_ok x (schema d) \<Longrightarrow> ledger_ok x (schema d')"
  by (auto simp: applyOne_def migrations_safe_def Let_def split: option.splits sum.splits if_splits prod.splits)

lemma applyLoop_safe:
  "migrations_safe x run \<Longrightarrow> applyLoop run w vs n d ms = (r, d') \<Longrightarrow> ledger_ok x (schema d) \<Longrightarrow> ledger_ok x (schema d')"
proof (induction run w vs n d ms rule: applyLoop.induct)
  case (2 run w vs n d m ms)
  obtain e d1 where A: "applyOne run w d m = (e, d1)" by force
  have "ledger_ok x (schema d1)" using applyOne_safe [OF 2(3) A 2(5)] .
  with 2 A show ?case by (cases e) (auto split: if_splits)
qed simp

lemma Apply_safe:
  assumes "migrations_safe x run" "Apply run files w d = (r, d')" "ledger_ok x (schema d)"
  shows "ledger_ok x (schema d')"
  using assms(2,3)
  by (auto simp: Apply_def Let_def split: option.splits sum.splits intro: applyLoop_safe [OF assms(1)])

lemma startup_result:
  assumes "startup run files w opened g x fl d = (Inr st, d')"
  obtains n d1 where "Valid (lfMode fl)" "Apply run files w d = ((None, n), d1)" "mrows d' = mrows d1"
    "EnsureSuspenseAccounts x (schema d1) (Date 2028 1 1) = (Inr (), schema d')"
    "stServer st = NewServer (splitOn (CHR '','') (lfPrincipals fl)) (Some (NewChecker (lfInterval fl))) zeroMetrics"
    "dialBroker g (lfBrokers fl) (lfGroup fl) (lfMode fl) (lfTopic fl) = Inr (stDialed st)"
    "stRelay st = NewRelay postingsTopic 0" "cmode (stConsumer st) = lfMode fl"
  using assms
  by (auto simp: startup_def Let_def NewConsumer_def NewMetrics_fresh split: if_splits option.splits sum.splits prod.splits)

lemma startup_ok:
  assumes "startup run files w opened g x fl d = (Inr st, d')" "migrations_safe x run" "ledger_ok x (schema d)"
  shows "ledger_ok x (schema d') \<and> checker_fine (stServer st) \<and> 0 < batchSize (stRelay st) \<and>
    (\<forall>c \<in> {''USD'', ''EUR'', ''JPY''}. has_account (schema d') (SuspenseAccountFor x c))"
  using assms(1)
proof (cases rule: startup_result)
  case (1 n d1)
  have "ledger_ok x (schema d1)" using Apply_safe [OF assms(2) 1(2) assms(3)] .
  with EnsureSuspenseAccounts_ok [of x "schema d1" "Date 2028 1 1"] 1 show ?thesis
    by (auto simp: checker_fine_def NewServer_def NewChecker_def Last_def NewRelay_batch)
qed

section \<open>Properties\<close>

definition sampleGroup :: errgroup where
  "sampleGroup = \<lparr>gDone = (\<lambda>parent rs. parent \<or> list_ex (\<lambda>r. r \<noteq> None) rs),
     gWait = (\<lambda>rs. case filter (\<lambda>r. r \<noteq> None) rs of [] \<Rightarrow> None | r # _ \<Rightarrow> r)\<rparr>"

lemma sample_group: "group_contract sampleGroup"
  by (auto simp: group_contract_def sampleGroup_def list_ex_iff)

definition sampleFlags :: ledgerFlags where
  "sampleFlags = (ledgerDefaults (\<lambda>_. []))\<lparr>lfDSN := ''dsn''\<rparr>"

definition sampleWiring :: "Fake wiring" where
  "sampleWiring = \<lparr>wProduce = Produce, wOps = fakeOps, wExt = consExt, wCext = sampleCext, wConsumer = sampleConsumer InboxDedup,
     wRelay = NewRelay postingsTopic 0, wParse = sampleParse, wGroup = sampleGroup\<rparr>"



text \<open>
  C17. How the process ends: once its five loops have returned, each exactly once, it ends without an error only
  if a signal came and no loop failed, and otherwise with the error of the loop that failed first; nothing
  before that failure was one.
\<close>

theorem process_exit:
  assumes "group_contract (wGroup W)" "pReturned p0 = []" "\<not> pShut p0" "reaches W p0 p" "exited p"
  shows "length (pReturned p) = 5 \<and> distinct (map fst (pReturned p)) \<and>
    (ledger_result W p = None \<longleftrightarrow> (\<forall>r \<in> set (pReturned p). snd r = None)) \<and> (ledger_result W p = None \<longrightarrow> pSignalled p) \<and>
    (\<forall>e. ledger_result W p = Some e \<longrightarrow> (\<exists>i < 5. snd (pReturned p ! i) = Some e \<and> (\<forall>j < i. snd (pReturned p ! j) = None)))"
proof -
  let ?rs = "map snd (pReturned p)"
  have o: "orderly p" using reaches_orderly [OF assms(4,1) fresh_orderly [OF assms(2,3)]] .
  then have d: "distinct (map fst (pReturned p))" by (simp add: orderly_def)
  have all: "fst ` set (pReturned p) = set workers"
  proof
    show "fst ` set (pReturned p) \<subseteq> set workers" by (auto simp: workers_def intro: worker.exhaust)
    show "set workers \<subseteq> fst ` set (pReturned p)" using assms(5) by (auto simp: exited_def alive_def list_all_iff)
  qed
  have "length (pReturned p) = card (set (map fst (pReturned p)))" using d distinct_card by fastforce
  also have "\<dots> = 5" unfolding set_map all by (simp add: workers_def)
  finally have len: "length (pReturned p) = 5" .
  have res: "ledger_result W p = (case filter (\<lambda>r. r \<noteq> None) ?rs of [] \<Rightarrow> None | r # _ \<Rightarrow> r)"
    using assms(1) by (simp add: ledger_result_def group_contract_def)
  have none: "ledger_result W p = None \<longleftrightarrow> (\<forall>r \<in> set (pReturned p). snd r = None)"
  proof (cases "filter (\<lambda>r. r \<noteq> None) ?rs")
    case Nil
    then have "\<forall>r \<in> set ?rs. r = None" by (simp add: filter_empty_conv)
    then show ?thesis unfolding res Nil by simp
  next
    case (Cons r rest)
    then have "r \<in> set (filter (\<lambda>r. r \<noteq> None) ?rs)" by simp
    then have "r \<noteq> None" "r \<in> snd ` set (pReturned p)" by auto
    then have a: "ledger_result W p \<noteq> None" and b: "\<not> (\<forall>q \<in> set (pReturned p). snd q = None)" unfolding res Cons by auto
    show ?thesis by (rule iffI) (use a b in simp_all)
  qed
  have signalled: "pSignalled p" if "ledger_result W p = None"
  proof -
    have "\<not> fst ` set (pReturned p) \<subseteq> {Moving}" unfolding all by (simp add: workers_def)
    with o have "ending p" by (auto simp: orderly_def)
    with that none show ?thesis by (fastforce simp: ending_def)
  qed
  have first: "\<exists>i < 5. snd (pReturned p ! i) = Some e \<and> (\<forall>j < i. snd (pReturned p ! j) = None)" if r: "ledger_result W p = Some e" for e
  proof (cases "filter (\<lambda>r. r \<noteq> None) ?rs")
    case (Cons r rest)
    from first_error [OF Cons] obtain i where i: "i < length ?rs" "?rs ! i = r" "\<forall>j < i. ?rs ! j = None" by blast
    have "snd (pReturned p ! i) = Some e" using i(1,2) r res Cons by simp
    moreover have "\<forall>j < i. snd (pReturned p ! j) = None" using i(1,3) by simp
    ultimately show ?thesis using i(1) len by auto
  qed (use r res in simp)
  from len d none signalled first show ?thesis by blast
qed

text \<open>A process that fails: the server cannot listen, and the others stop.\<close>

definition sampleProcess :: "db \<Rightarrow> Fake process" where
  "sampleProcess d = \<lparr>pDb = d, pBus = NewFake, pServer = sampleServer, pCounters = \<lparr>movements = [], consumerLag = None\<rparr>,
     pSignalled = False, pShut = False, pReturned = []\<rparr>"

lemma sample_cancelled: "cancelled sampleWiring p \<longleftrightarrow> ending p"
  by (rule cancelled_iff) (simp add: sampleWiring_def sample_group)

lemma sample_unsent: "unsent sampleDB = []"
  by (simp add: unsent_def sampleDB_outbox)

lemma drainAll_idle: "unsent d = [] \<Longrightarrow> drainAll produce rl mf d b = (None, d, b)"
  by (subst drainAll.simps) (simp add: Drain_batch batchOf_def)

theorem process_exit_witness:
  "\<exists>p. performs sampleWiring [ServeFail ''in use'', CheckStop, RelayStop None, MoveStop, Shutdown, ShutdownDone None]
      (sampleProcess sampleDB) = Some p \<and> ledger_result sampleWiring p = Some (PServe ''in use'') \<and> length (pReturned p) = 5"
proof -
  let ?as = "[ServeFail ''in use'', CheckStop, RelayStop None, MoveStop, Shutdown, ShutdownDone None]"
  obtain p where p: "performs sampleWiring ?as (sampleProcess sampleDB) = Some p" "exited p"
    "pReturned p = [(Serving, Some (PServe ''in use'')), (Checking, None), (Relaying, None), (Moving, None), (Stopping, None)]"
    by (simp add: sample_cancelled sampleProcess_def alive_def ending_def drainAll_idle sample_unsent exited_def workers_def)
  have "group_contract (wGroup sampleWiring)" by (simp add: sampleWiring_def sample_group)
  note E = process_exit [OF this _ _ performs_reaches [OF reaches.start p(1)] p(2)]
  have "length (pReturned p) = 5 \<and> (ledger_result sampleWiring p = None \<longrightarrow> pSignalled p)" using E by (simp add: sampleProcess_def)
  moreover have "ledger_result sampleWiring p = Some (PServe ''in use'')"
    using p(3) by (simp add: ledger_result_def sampleWiring_def sampleGroup_def)
  ultimately show ?thesis using p(1) by blast
qed

text \<open>
  C18. The process can always stop: from every state it reaches after a signal or a failed loop, at most six more
  steps let all five loops return, whatever the loops were doing and without another signal.
\<close>

theorem process_stops:
  assumes "group_contract (wGroup W)" "pReturned p0 = []" "\<not> pShut p0" "reaches W p0 p" "cancelled W p"
  shows "\<exists>as p'. length as \<le> 6 \<and> performs W as p = Some p' \<and> exited p'"
proof -
  have "orderly p" using reaches_orderly [OF assms(4,1) fresh_orderly [OF assms(2,3)]] .
  then have "\<not> alive p Stopping \<longrightarrow> pShut p" by (simp add: orderly_def)
  with stops [OF assms(1)] assms(1,5) cancelled_iff show ?thesis by blast
qed

theorem process_stops_witness:
  "\<exists>p as p'. perform sampleWiring Signal (sampleProcess sampleDB) = Some p \<and> performs sampleWiring as p = Some p' \<and>
     length as \<le> 6 \<and> exited p'"
proof -
  have g: "group_contract (wGroup sampleWiring)" by (simp add: sampleWiring_def sample_group)
  obtain p where p: "perform sampleWiring Signal (sampleProcess sampleDB) = Some p" "cancelled sampleWiring p"
    by (simp add: sample_cancelled)
  have "pReturned (sampleProcess sampleDB) = []" "\<not> pShut (sampleProcess sampleDB)" by (simp_all add: sampleProcess_def)
  from process_stops [OF g this reaches.step [OF reaches.start p(1)] p(2)] p(1) show ?thesis by blast
qed

text \<open>
  C16. A shutdown can strand a committed posting: if the relay has rows to send and the signal arrives while a
  tick of it is running, the broker refuses the batch, the relay returns the cancellation as an
  error without its final drain, every unsent row stays unsent, and the process ends with that error
  although all it was told was to stop.
\<close>

theorem relay_cancelled_strands:
  assumes "group_contract (wGroup W)" "wProduce W = Produce" "0 < batchSize (wRelay W)" "\<not> closed (pBus p0)" "unsent (pDb p0) \<noteq> []"
    and "pReturned p0 = []"
  shows "\<exists>p. performs W [Signal, RelayTick True None, CheckStop, MoveStop, Shutdown, ServeClosed, ShutdownDone None] p0 = Some p \<and>
    exited p \<and> ledger_result W p = Some (PRelay (ErrProduce ErrCtx)) \<and> unsent (pDb p) = unsent (pDb p0) \<and> pBus p = pBus p0"
proof -
  have "sort_key oId (unsent (pDb p0)) \<noteq> []" using assms(5) by (metis length_0_conv length_sort)
  then have "batchOf (wRelay W) (pDb p0) \<noteq> []" using assms(3) by (simp add: batchOf_def)
  then have D: "Drain (Produce True) (wRelay W) None (pDb p0) (pBus p0) = ((0, Some (ErrProduce ErrCtx)), pDb p0, pBus p0)"
    using assms(4) by (simp add: Drain_batch Produce_def)
  have T: "drainTick (Produce True) (wRelay W) None (pDb p0) (pBus p0) = Some (Some (ErrProduce ErrCtx), pDb p0, pBus p0)"
    by (subst drainTick.simps) (simp add: D)
  have al: "alive p0 l" for l using assms(6) by (simp add: alive_def)
  obtain p where p: "performs W [Signal, RelayTick True None, CheckStop, MoveStop, Shutdown, ServeClosed, ShutdownDone None] p0 = Some p"
    "exited p" "pDb p = pDb p0" "pBus p = pBus p0"
    "map snd (pReturned p) = [Some (PRelay (ErrProduce ErrCtx)), None, None, None, None]"
    using assms(6) by (simp add: cancelled_iff [OF assms(1)] assms(2) T al exited_def workers_def)
  have "ledger_result W p = Some (PRelay (ErrProduce ErrCtx))" using assms(1) p(5) by (simp add: ledger_result_def group_contract_def)
  with p show ?thesis by auto
qed

theorem relay_cancelled_strands_witness:
  "\<exists>d p. Post sampleExt sampleWorld sampleDB sampleRequest = (Inr (postedResult sampleExt sampleDB sampleRequest), d) \<and>
     performs sampleWiring [Signal, RelayTick True None, CheckStop, MoveStop, Shutdown, ServeClosed, ShutdownDone None] (sampleProcess d) = Some p \<and>
     ledger_result sampleWiring p = Some (PRelay (ErrProduce ErrCtx)) \<and> unsent (pDb p) \<noteq> []"
proof -
  obtain pl where P: "Post sampleExt sampleWorld sampleDB sampleRequest =
    (Inr (postedResult sampleExt sampleDB sampleRequest), posted sampleExt sampleDB sampleRequest pl)" using sample_Post by blast
  let ?d = "posted sampleExt sampleDB sampleRequest pl"
  have u: "unsent ?d \<noteq> []" by (simp add: posted_def Let_def unsent_def)
  have "group_contract (wGroup sampleWiring)" "wProduce sampleWiring = Produce" "0 < batchSize (wRelay sampleWiring)"
    "\<not> closed (pBus (sampleProcess ?d))" "unsent (pDb (sampleProcess ?d)) \<noteq> []" "pReturned (sampleProcess ?d) = []"
    "pDb (sampleProcess ?d) = ?d"
    using u by (simp_all add: sampleWiring_def sample_group NewRelay_batch sampleProcess_def NewFake_def)
  with relay_cancelled_strands [of sampleWiring "sampleProcess ?d"] u P show ?thesis by metis
qed

end
