(* ===== verification/Goldencal.thy ===== *)
theory Goldencal
  imports Calendar Daycount Posting
begin

text \<open>
  \<^verbatim>\<open>cmd/goldencal\<close>: the facts of calendar, day count and rounding the Go tree exports for the Python half to
  be tested against. The calendar and its holiday cache are threaded through the loops; a search of
  the calendar that did not return would be \<open>None\<close>. Encoding the facts as JSON is not modelled.
\<close>

record dayFact =
  dfDate :: string
  dfWeekday :: string
  dfBusiness :: bool
  dfHoliday :: string

record monthFact =
  mfYear :: int
  mfMonth :: int
  mfFirst :: string
  mfFirstBusiness :: string

record cutoffFact =
  cfInstant :: string
  cfDate :: string

record dayCountFact =
  dcFrom :: string
  dcTo :: string
  dcBasis :: string
  dcNum :: int
  dcDen :: int

record roundFact =
  rfNum :: int
  rfDen :: int
  rfEven :: int
  rfUp :: int

record golden =
  gDays :: "dayFact list"
  gMonths :: "monthFact list"
  gCutoffs :: "cutoffFact list"
  gDayCounts :: "dayCountFact list"
  gRounding :: "roundFact list"

fun Weekday_String :: "Weekday \<Rightarrow> string" where
  "Weekday_String Sunday = ''Sunday''"
| "Weekday_String Monday = ''Monday''"
| "Weekday_String Tuesday = ''Tuesday''"
| "Weekday_String Wednesday = ''Wednesday''"
| "Weekday_String Thursday = ''Thursday''"
| "Weekday_String Friday = ''Friday''"
| "Weekday_String Saturday = ''Saturday''"

function goldenDays :: "USFederal \<Rightarrow> BusinessDate \<Rightarrow> BusinessDate \<Rightarrow> dayFact list \<Rightarrow> dayFact list \<times> USFederal" where
  "goldenDays c d to out =
     (if After d to then (out, c)
      else let (b, c1) = IsBusinessDay c d; (n, c2) = HolidayName c1 d in
        goldenDays c2 (AddDays d 1) to (out @ [\<lparr>dfDate = BusinessDate_String d, dfWeekday = Weekday_String (weekday d),
          dfBusiness = b, dfHoliday = (case n of None \<Rightarrow> [] | Some h \<Rightarrow> h)\<rparr>]))"
  by auto

termination
  by (relation "measure (\<lambda>(c, d, to, out). nat (bd_days to - bd_days d + 1))")
    (auto simp: After_iff)

declare goldenDays.simps [simp del]

fun goldenMonths :: "USFederal \<Rightarrow> (int \<times> int) list \<Rightarrow> (monthFact list \<times> USFederal) option" where
  "goldenMonths c [] = Some ([], c)"
| "goldenMonths c ((y, m) # ms) =
     (case FirstBusinessDayOfMonth c y m of None \<Rightarrow> None | Some (d, c1) \<Rightarrow>
      case goldenMonths c1 ms of None \<Rightarrow> None | Some (fs, c2) \<Rightarrow>
      Some (\<lparr>mfYear = y, mfMonth = m, mfFirst = BusinessDate_String (FirstOfMonth y m), mfFirstBusiness = BusinessDate_String d\<rparr> # fs, c2))"

fun goldenCutoffs :: "USFederal \<Rightarrow> int list \<Rightarrow> (cutoffFact list \<times> USFederal) option" where
  "goldenCutoffs c [] = Some ([], c)"
| "goldenCutoffs c (t # ts) =
     (case BusinessDateFor c t of None \<Rightarrow> None | Some (d, c1) \<Rightarrow>
      case goldenCutoffs c1 ts of None \<Rightarrow> None | Some (fs, c2) \<Rightarrow>
      Some (\<lparr>cfInstant = RFC3339Nano t, cfDate = BusinessDate_String d\<rparr> # fs, c2))"

definition cutoffInstants :: "int list" where
  "cutoffInstants = concat (map (\<lambda>base. map (\<lambda>(h, m, s, ns). bd_time base + ((h * 60 + m) * 60 + s) * 1000000000 + ns)
     [(0, 0, 0, 0), (16, 59, 59, 999000000), (17, 0, 0, 0), (17, 0, 0, 1000000), (23, 59, 59, 999000000)])
     [Date 2028 3 1, Date 2028 3 31, Date 2028 2 29, Date 2028 10 6])"

definition goldenDayCount :: "BusinessDate \<times> BusinessDate \<times> Basis \<Rightarrow> dayCountFact" where
  "goldenDayCount tc =
     (let (from, to, b) = tc; (num, den) = DayCountFraction from to b in
      \<lparr>dcFrom = BusinessDate_String from, dcTo = BusinessDate_String to, dcBasis = Basis_String b, dcNum = num, dcDen = den\<rparr>)"

definition dayCountCases :: "(BusinessDate \<times> BusinessDate \<times> Basis) list" where
  "dayCountCases = [(Date 2027 3 1, Date 2027 3 2, ACT365), (Date 2028 3 1, Date 2028 3 2, ACTACT), (Date 2027 3 1, Date 2027 3 2, ACTACT),
     (Date 2028 3 1, Date 2028 3 2, ACT360), (Date 2028 2 28, Date 2028 3 1, ACTACT), (Date 2028 1 1, Date 2029 1 1, ACTACT),
     (Date 2028 2 29, Date 2028 3 31, ACT365)]"

definition roundCases :: "(int \<times> int) list" where
  "roundCases = [(5, 2), (7, 2), (- 5, 2), (- 7, 2), (1, 3), (2, 3), (11, 4), (9, 4),
     (0, 7), (- 1, 3), (100, 1), (12345, 365), (12345, 366), (12345, 360)]"

fun goldenRounds :: "(int \<times> int) list \<Rightarrow> go_panic + roundFact list" where
  "goldenRounds [] = Inr []"
| "goldenRounds ((n, d) # tcs) =
     (case RoundHalfEven n d of Inl e \<Rightarrow> Inl e | Inr he \<Rightarrow> case RoundHalfUp n d of Inl e \<Rightarrow> Inl e | Inr hu \<Rightarrow>
      case goldenRounds tcs of Inl e \<Rightarrow> Inl e | Inr fs \<Rightarrow> Inr (\<lparr>rfNum = n, rfDen = d, rfEven = he, rfUp = hu\<rparr> # fs))"

definition goldenMonthList :: "(int \<times> int) list" where
  "goldenMonthList = concat (map (\<lambda>y. map (Pair y) [1..12]) [2027..2029])"

definition goldencal :: "(go_panic + golden) option" where
  "goldencal =
     (let (ds, c1) = goldenDays (NewUSFederal None) (Date 2027 1 1) (Date 2029 12 31) [] in
      case goldenMonths c1 goldenMonthList of None \<Rightarrow> None | Some (ms, c2) \<Rightarrow>
      case goldenCutoffs c2 cutoffInstants of None \<Rightarrow> None | Some (cs, c3) \<Rightarrow>
      Some (case goldenRounds roundCases of Inl e \<Rightarrow> Inl e | Inr rs \<Rightarrow>
        Inr \<lparr>gDays = ds, gMonths = ms, gCutoffs = cs, gDayCounts = map goldenDayCount dayCountCases, gRounding = rs\<rparr>))"

section \<open>The facts are those of the calendar\<close>

definition dayFactOf :: "BusinessDate \<Rightarrow> dayFact" where
  "dayFactOf d = \<lparr>dfDate = BusinessDate_String d, dfWeekday = Weekday_String (weekday d), dfBusiness = businessDay d,
     dfHoliday = (case holidaysIn (year d) d of None \<Rightarrow> [] | Some h \<Rightarrow> h)\<rparr>"

lemma HolidayName_ok:
  assumes "cache_ok c"
  shows "fst (HolidayName c d) = holidaysIn (year d) d \<and> cache_ok (snd (HolidayName c d)) \<and> loc (snd (HolidayName c d)) = loc c"
  using holidays_ok [OF assms, of "year d"] by (simp add: HolidayName_def split_beta)

lemma goldenDays_char:
  assumes "cache_ok c" "valid_date d"
  shows "\<exists>c'. goldenDays c d to out = (out @ map (\<lambda>n. dayFactOf (absDate n)) [bd_days d..bd_days to], c') \<and> cache_ok c' \<and> loc c' = loc c"
  using assms
proof (induction c d to out rule: goldenDays.induct)
  case (1 c d to out)
  show ?case
  proof (cases "After d to")
    case True
    then show ?thesis using 1(2) by (simp add: goldenDays.simps [of c] After_iff)
  next
    case False
    from 1(2) obtain c1 where c1: "IsBusinessDay c d = (businessDay d, c1)" "cache_ok c1" "loc c1 = loc c"
      by (metis IsBusinessDay_ok)
    obtain c2 where c2: "HolidayName c1 d = (holidaysIn (year d) d, c2)" "cache_ok c2" "loc c2 = loc c"
      using HolidayName_ok [OF c1(2), of d] c1(3) by (metis prod.collapse)
    have "[bd_days d..bd_days to] = bd_days d # [bd_days d + 1..bd_days to]"
      using False by (simp add: After_iff upto_rec1)
    moreover have "goldenDays c d to out = goldenDays c2 (AddDays d 1) to (out @ [dayFactOf d])"
      using False by (simp add: goldenDays.simps [of c d] c1(1) c2(1) dayFactOf_def)
    moreover have "\<exists>c'. goldenDays c2 (AddDays d 1) to (out @ [dayFactOf d]) =
        ((out @ [dayFactOf d]) @ map (\<lambda>n. dayFactOf (absDate n)) [bd_days d + 1..bd_days to], c') \<and> cache_ok c' \<and> loc c' = loc c2"
      using 1(1) [OF False c1(1) [symmetric] refl c2(1) [symmetric] refl c2(2)] by (simp add: dayFactOf_def)
    ultimately show ?thesis using 1(3) c2(3) by (auto simp: absDate_bd_days)
  qed
qed

lemma FirstBusinessDayOfMonth_ok:
  assumes "cache_ok c"
  shows "\<exists>d c'. FirstBusinessDayOfMonth c y m = Some (d, c') \<and> cache_ok c' \<and> loc c' = loc c \<and> businessDay d"
proof -
  obtain c1 where c1: "IsBusinessDay c (Date y m 1) = (businessDay (Date y m 1), c1)" "cache_ok c1" "loc c1 = loc c"
    using assms by (metis IsBusinessDay_ok)
  show ?thesis
  proof (cases "businessDay (Date y m 1)")
    case False
    with NextBusinessDay_char [OF c1(2), of "Date y m 1"] c1 show ?thesis by (auto simp: FirstBusinessDayOfMonth_def Let_def)
  qed (use c1 in \<open>simp add: FirstBusinessDayOfMonth_def Let_def\<close>)
qed

lemma goldenMonths_ok:
  assumes "cache_ok c"
  shows "\<exists>fs c'. goldenMonths c ms = Some (fs, c') \<and> cache_ok c' \<and> loc c' = loc c \<and> map (\<lambda>f. (mfYear f, mfMonth f)) fs = ms"
  using assms
proof (induction ms arbitrary: c)
  case (Cons ym ms)
  obtain y m where ym: "ym = (y, m)" by force
  obtain d c1 where 1: "FirstBusinessDayOfMonth c y m = Some (d, c1)" "cache_ok c1" "loc c1 = loc c"
    using FirstBusinessDayOfMonth_ok [OF Cons.prems] by blast
  from Cons.IH [OF 1(2)] obtain fs c' where "goldenMonths c1 ms = Some (fs, c')" "cache_ok c'" "loc c' = loc c1"
    "map (\<lambda>f. (mfYear f, mfMonth f)) fs = ms" by blast
  with 1 ym show ?case by simp
qed simp

lemma BusinessDateFor_loc:
  assumes "cache_ok c" "BusinessDateFor c t = Some (d, c')"
  shows "loc c' = loc c"
proof -
  let ?d = "absDate (dayOf (t + loc c t))"
  obtain c1 where c1: "IsBusinessDay c ?d = (businessDay ?d, c1)" "cache_ok c1" "loc c1 = loc c"
    using assms(1) by (metis IsBusinessDay_ok)
  have "loc c'' = loc c" if "NextBusinessDay c0 ?d = Some (e, c'')" "cache_ok c0" "loc c0 = loc c" for c0 e c''
    using NextBusinessDay_char [OF that(2), of ?d] that by auto
  with assms c1 show ?thesis by (auto simp: BusinessDateFor_def Let_def split: if_splits)
qed

lemma goldenCutoffs_ok:
  assumes "cache_ok c" "loc c = (\<lambda>_. 0)"
  shows "\<exists>fs c'. goldenCutoffs c ts = Some (fs, c') \<and> map cfInstant fs = map RFC3339Nano ts"
  using assms
proof (induction ts arbitrary: c)
  case (Cons t ts)
  from BusinessDateFor_fixed [OF Cons.prems, of t] obtain d c1 where 1: "BusinessDateFor c t = Some (d, c1)" "cache_ok c1" by blast
  with BusinessDateFor_loc [OF Cons.prems(1) 1(1)] Cons.prems(2) have "loc c1 = (\<lambda>_. 0)" by simp
  from Cons.IH [OF 1(2) this] obtain fs c' where "goldenCutoffs c1 ts = Some (fs, c')" "map cfInstant fs = map RFC3339Nano ts" by blast
  with 1 show ?case by simp
qed simp

lemma rounds_evaluated:
  "goldenRounds roundCases = Inr (map (\<lambda>(n, d, he, hu). \<lparr>rfNum = n, rfDen = d, rfEven = he, rfUp = hu\<rparr>)
    [(5, 2, 2, 3), (7, 2, 4, 4), (- 5, 2, - 2, - 3), (- 7, 2, - 4, - 4), (1, 3, 0, 0), (2, 3, 1, 1), (11, 4, 3, 3), (9, 4, 2, 2),
     (0, 7, 0, 0), (- 1, 3, 0, 0), (100, 1, 100, 100), (12345, 365, 34, 34), (12345, 366, 34, 34), (12345, 360, 34, 34)])"
  by code_simp

lemma golden_2027_12_31:
  "dayFactOf (BusinessDate 2027 12 31) = \<lparr>dfDate = ''2027-12-31'', dfWeekday = ''Friday'', dfBusiness = True, dfHoliday = []\<rparr>"
  "observed (Date 2028 1 1) = BusinessDate 2027 12 31"
  by code_simp+

section \<open>Properties\<close>

text \<open>
  The exported facts are those of the calendar: the export always succeeds, its days are every day from
  2027 to 2029 in order with the weekday, holiday and business-day flag of the calendar, its months and instants are
  the planned ones, and the rounded values are right; it also hands on the fault of the calendar, 31 December 2027, the
  observed New Year's Day of 2028, as a plain business day.
\<close>

theorem goldencal_facts:
  "\<exists>g. goldencal = Some (Inr g) \<and>
    gDays g = map (\<lambda>n. dayFactOf (absDate n)) [bd_days (Date 2027 1 1)..bd_days (Date 2029 12 31)] \<and> length (gDays g) = 1096 \<and>
    map (\<lambda>f. (mfYear f, mfMonth f)) (gMonths g) = goldenMonthList \<and> map cfInstant (gCutoffs g) = map RFC3339Nano cutoffInstants \<and>
    map (\<lambda>r. (rfEven r, rfUp r)) (gRounding g) = [(2, 3), (4, 4), (- 2, - 3), (- 4, - 4), (0, 0), (1, 1), (3, 3), (2, 2), (0, 0), (0, 0),
      (100, 100), (34, 34), (34, 34), (34, 34)] \<and>
    \<lparr>dfDate = ''2027-12-31'', dfWeekday = ''Friday'', dfBusiness = True, dfHoliday = []\<rparr> \<in> set (gDays g)"
proof -
  have dates: "valid_date (Date 2027 1 1)" "bd_days (Date 2027 1 1) = 739981" "bd_days (Date 2029 12 31) = 741076"
    "absDate 740345 = BusinessDate 2027 12 31" by code_simp+
  obtain c1 where c1: "goldenDays (NewUSFederal None) (Date 2027 1 1) (Date 2029 12 31) [] =
      (map (\<lambda>n. dayFactOf (absDate n)) [bd_days (Date 2027 1 1)..bd_days (Date 2029 12 31)], c1)" "cache_ok c1" "loc c1 = (\<lambda>_. 0)"
    using goldenDays_char [OF cache_ok_New dates(1), of None "Date 2029 12 31" "[]"] by (auto simp: NewUSFederal_def)
  obtain ms c2 where c2: "goldenMonths c1 goldenMonthList = Some (ms, c2)" "cache_ok c2" "loc c2 = (\<lambda>_. 0)"
    "map (\<lambda>f. (mfYear f, mfMonth f)) ms = goldenMonthList" using goldenMonths_ok [OF c1(2)] c1(3) by metis
  obtain cs c3 where c3: "goldenCutoffs c2 cutoffInstants = Some (cs, c3)" "map cfInstant cs = map RFC3339Nano cutoffInstants"
    using goldenCutoffs_ok [OF c2(2,3)] by blast
  have "dayFactOf (absDate 740345) \<in> (\<lambda>n. dayFactOf (absDate n)) ` {739981..741076}" by (rule imageI) simp
  then have bug: "\<lparr>dfDate = ''2027-12-31'', dfWeekday = ''Friday'', dfBusiness = True, dfHoliday = []\<rparr> \<in>
      set (map (\<lambda>n. dayFactOf (absDate n)) [bd_days (Date 2027 1 1)..bd_days (Date 2029 12 31)])"
    unfolding dates(2-4) golden_2027_12_31(1) set_map set_upto .
  have "length (map f [a..b]) = nat (b - a + 1)" for f :: "int \<Rightarrow> dayFact" and a b by simp
  then have len: "length (map (\<lambda>n. dayFactOf (absDate n)) [bd_days (Date 2027 1 1)..bd_days (Date 2029 12 31)]) = 1096"
    unfolding dates(2,3) by (simp del: upto.simps upto_rec_numeral length_map)
  show ?thesis
    unfolding goldencal_def c1(1) Let_def prod.case c2(1) c3(1) option.case rounds_evaluated sum.case
    by (intro exI conjI, rule refl) (simp_all only: golden.select_convs len c2(4) c3(2) bug, simp)
qed

end
