(* ===== verification/Onerun.thy ===== *)
theory Onerun
  imports Sweep Kafka Measure
begin

text \<open>
  \<^verbatim>\<open>Runner.one\<close> as the composition of the functions it calls: the database of the run, its migrations and
  accounts, the topic, the ledger process, the load and the chaos schedule, the drain and the
  measurements, with the deferred calls that stop the process and drop the database. A \<open>site\<close> is what
  stays the same from run to run, \<open>moments\<close> what the clock, the other processes and the database answer
  in one run. Every run of it is a run of \<open>one\<close>.
\<close>

record ('a, 'k, 'w) site =
  siAdmin :: "'a admin"
  siKgo :: "'k kgo"
  siExt :: ext
  siMarshal :: "MovementEvent \<Rightarrow> string option"
  siScript :: "string \<Rightarrow> db \<Rightarrow> string + db"
  siFiles :: "(string \<times> string option) list option"
  siSeeds :: "string list"
  siReplicas :: int
  siVersion :: string
  siChaos :: "'w Runner option"

record moments =
  moOpen :: "string option"
  moMigrate :: mworld
  moPort :: "string + int"
  moStart :: "string list \<Rightarrow> string option"
  moClock :: int
  moHealth :: "healthTurn list"
  moDrive :: "driveTurn list"
  moChaosLate :: bool
  moDrainStart :: "int \<times> int"
  moDrain :: "drainTurn list"
  moDrainTime :: int
  moLag :: "broker_error + int"
  moCounts :: "db \<times> db \<times> db"
  moRows :: "string + (string \<times> int) list"

definition siCluster :: "('a, 'k, 'w) site \<Rightarrow> Cluster" where
  "siCluster si = \<lparr>clVersion = siVersion si, clDocker = (siChaos si \<noteq> None)\<rparr>"

text \<open>The chaos goroutine: nothing without a control surface or a schedule; its error is dropped.\<close>

definition chaosRun :: "'w Runner option \<Rightarrow> Event list \<Rightarrow> 'w \<Rightarrow> ChaosRecord list \<times> 'w" where
  "chaosRun r sched w =
     (case r of None \<Rightarrow> ([], w) | Some rn \<Rightarrow> if sched = [] then ([], w)
      else let ((recs, _), w') = chaos_Run rn sched w in (recs, w'))"

text \<open>The database of the run and the topic, before the ledger starts: the accounts, or the first error.\<close>

definition prepare :: "('a, 'k, 'w) site \<Rightarrow> moments \<Rightarrow> Spec \<Rightarrow> string \<Rightarrow> one_error + uuid list" where
  "prepare si mo s topic =
     (case moOpen mo of Some e \<Rightarrow> Inl (OneOpen e) | None \<Rightarrow>
      let r = Apply (siScript si) (siFiles si) (moMigrate mo) \<lparr>mrows = None, schema = emptyDB\<rparr> in
      case fst (fst r) of Some e \<Rightarrow> Inl (OneMigrate e) | None \<Rightarrow>
      let (sus, s2) = EnsureSuspenseAccounts (siExt si) (schema (snd r)) (Date 2028 1 1) in
      case sus of Inl e \<Rightarrow> Inl (OneSuspense e) | Inr _ \<Rightarrow>
      case fst (seedAccounts (siExt si) s2 (sAccounts s)) of Inl e \<Rightarrow> Inl (OneSeed e) | Inr accs \<Rightarrow>
      case EnsureTopic (siKgo si) (siSeeds si) topic 6 (siReplicas si) of Some e \<Rightarrow> Inl (OneTopic e) | None \<Rightarrow> Inr accs)"

text \<open>The load with the chaos beside it, the drain and the measurements, while the ledger runs.\<close>

definition observe :: "('a, 'k, 'w) site \<Rightarrow> moments \<Rightarrow> Spec \<Rightarrow> Artefact \<Rightarrow> int \<times> (int \<rightharpoonup> int) \<Rightarrow> ChaosRecord list \<Rightarrow>
    (Artefact \<times> one_error option) option" where
  "observe si mo s art counted recs =
     (case waitForDrain (fst counted) (fst (moDrainStart mo)) (snd (moDrainStart mo)) (moDrain mo) of None \<Rightarrow> None | Some drained \<Rightarrow>
      let an = \<lparr>anProvision = Inr [], anOpen = None, anMigrate = None, anSuspense = None, anSeed = Inr [], anTopic = None, anLedger = None,
            anProducer = None, anDrive = (fst counted, snd counted, None), anChaos = (if moChaosLate mo then None else Some recs),
            anDrain = drained, anDrainTime = moDrainTime mo, anLag = moLag mo, anCounts = moCounts mo, anRows = moRows mo\<rparr> in
      Some (afterLoad s (siCluster si) an (art\<lparr>Sent := fst counted\<rparr>)))"

definition loaded :: "('a, 'k, 'w) site \<Rightarrow> moments \<Rightarrow> Spec \<Rightarrow> Artefact \<Rightarrow> uuid list \<Rightarrow> string \<Rightarrow> 'w \<Rightarrow>
    ((Artefact \<times> one_error option) \<times> 'w) option" where
  "loaded si mo s art accs topic w =
     (case NewKafkaProducer (siKgo si) \<lparr>Seeds = siSeeds si, Group = [], Topics = [], PollTimeout = 0, ClientID = ''ablation-'' @ Config art\<rparr> of
        Inl e \<Rightarrow> Some ((art, Some (OneProducer e)), w) | Inr pr \<Rightarrow>
      case drive (KafkaProduce (siKgo si)) (siMarshal si) s accs topic (moDrive mo) pr of None \<Rightarrow> None | Some driven \<Rightarrow>
      let (snt, sentAt, err) = fst driven; (recs, w') = chaosRun (siChaos si) (sSchedule s) w in
      case err of Some e \<Rightarrow> Some ((art\<lparr>Sent := snt\<rparr>, Some (OneDrive e)), w')
      | None \<Rightarrow> map_option (\<lambda>r. (r, w')) (observe si mo s art (snt, sentAt) recs))"

text \<open>
  The whole run: its artefact and error, the admin database, the processes and the docker world after it.
  The calls deferred on the way stop the ledger process and drop the database.
\<close>

definition oneRun ::
  "('a, 'k, 'w) site \<Rightarrow> moments \<Rightarrow> Spec \<Rightarrow> Mode \<Rightarrow> string \<Rightarrow> string \<Rightarrow> 'a \<Rightarrow> string list list \<Rightarrow> 'w \<Rightarrow>
   ((Artefact \<times> one_error option) \<times> 'a \<times> string list list \<times> 'w) option" where
  "oneRun si mo s m run sweep a procs w =
     (let art = newArtefact s (siCluster si) m run sweep; topic = topicName sweep run;
          (prov, a1) = provision (siAdmin si) (AdminDSN s) run a in
      case prov of Inl e \<Rightarrow> Some ((art, Some (OneProvision e)), a1, procs, w) | Inr dsn \<Rightarrow>
      let dropped = cleanup (siAdmin si) (databaseName run) a1 in
      case prepare si mo s topic of Inl e \<Rightarrow> Some ((art, Some e), dropped, procs, w) | Inr accs \<Rightarrow>
      case startLedger (moPort mo) (moStart mo) (moClock mo) (moHealth mo) dsn m (siSeeds si) (groupName sweep run) topic procs of
        None \<Rightarrow> None
      | Some (Inl e, procs1) \<Rightarrow> Some ((art, Some (OneLedger e)), dropped, procs1, w)
      | Some (Inr args, procs1) \<Rightarrow>
          map_option (\<lambda>(r, w'). (r, dropped, remove1 args procs1, w')) (loaded si mo s art accs topic w))"

section \<open>A run is one of the sweep's, and it cleans up\<close>

lemma startLedger_procs:
  assumes "startLedger port start now turns dsn m seeds grp topic procs = Some (r, procs')"
  shows "(case r of Inl _ \<Rightarrow> procs' = procs | Inr args \<Rightarrow> procs' = args # procs)"
  using assms by (auto simp: startLedger_def Let_def split: sum.splits option.splits)

lemma prepare_error:
  assumes "prepare si mo s topic = Inl e"
  shows "\<exists>an. \<forall>m run sweep. one s (siCluster si) m run sweep an = (newArtefact s (siCluster si) m run sweep, Some e)"
proof -
  let ?q = quietAnswers
  from assms consider (opn) f where "e = OneOpen f" | (mig) f where "e = OneMigrate f" | (sus) f where "e = OneSuspense f"
    | (seed) f where "e = OneSeed f" | (topic) f where "e = OneTopic f"
    by (auto simp: prepare_def Let_def split: option.splits sum.splits prod.splits)
  then show ?thesis
  proof cases
    case opn
    then show ?thesis by (intro exI [of _ "?q\<lparr>anOpen := Some f\<rparr>"]) (simp add: one_def quietAnswers_def)
  next
    case mig
    then show ?thesis by (intro exI [of _ "?q\<lparr>anMigrate := Some f\<rparr>"]) (simp add: one_def quietAnswers_def)
  next
    case sus
    then show ?thesis by (intro exI [of _ "?q\<lparr>anSuspense := Some f\<rparr>"]) (simp add: one_def quietAnswers_def)
  next
    case seed
    then show ?thesis by (intro exI [of _ "?q\<lparr>anSeed := Inl f\<rparr>"]) (simp add: one_def quietAnswers_def)
  next
    case topic
    then show ?thesis by (intro exI [of _ "?q\<lparr>anTopic := Some f\<rparr>"]) (simp add: one_def quietAnswers_def)
  qed
qed

lemma loaded_one:
  assumes "loaded si mo s (newArtefact s (siCluster si) m run sweep) accs topic w = Some ((art, err), w')"
  shows "\<exists>an. one s (siCluster si) m run sweep an = (art, err)"
proof -
  let ?q = quietAnswers and ?art = "newArtefact s (siCluster si) m run sweep"
  from assms consider (producer) e where "art = ?art" "err = Some (OneProducer e)"
    | (drove) snt e where "art = ?art\<lparr>Sent := snt\<rparr>" "err = Some (OneDrive e)"
    | (observed) snt sentAt recs where "observe si mo s ?art (snt, sentAt) recs = Some (art, err)"
    by (auto simp: loaded_def Let_def split: sum.splits option.splits prod.splits)
  then show ?thesis
  proof cases
    case producer
    then show ?thesis by (intro exI [of _ "?q\<lparr>anProducer := Some e\<rparr>"]) (simp add: one_def quietAnswers_def)
  next
    case drove
    then show ?thesis by (intro exI [of _ "?q\<lparr>anDrive := (snt, Map.empty, Some e)\<rparr>"]) (simp add: one_def quietAnswers_def Let_def)
  next
    case observed
    then obtain an where "afterLoad s (siCluster si) an (?art\<lparr>Sent := snt\<rparr>) = (art, err)" "anProvision an = Inr []" "anOpen an = None"
      "anMigrate an = None" "anSuspense an = None" "anSeed an = Inr []" "anTopic an = None" "anLedger an = None" "anProducer an = None"
      "anDrive an = (snt, sentAt, None)"
      by (auto simp: observe_def Let_def split: option.splits)
    then show ?thesis by (intro exI [of _ an]) (simp add: one_def Let_def)
  qed
qed

text \<open>When the steps that wait have waited long enough, the run returns.\<close>

lemma healthLoop_returns: "(\<exists>t \<in> set ts. deadline \<le> htNow t) \<Longrightarrow> \<exists>r. healthLoop deadline e ts = Some r"
  by (induction ts arbitrary: e) (auto split: option.split)

lemma driveLoop_returns:
  "DriveCancel \<in> set turns \<or> tot - sent \<le> driveBatch * int (length turns) \<Longrightarrow>
    \<exists>r. driveLoop produce pm s accs topic tot turns sent sentAt b = Some r"
proof (induction turns arbitrary: sent sentAt b)
  case (Cons t ts)
  show ?case
  proof (cases "tot \<le> sent")
    case False
    show ?thesis
    proof (cases t)
      case (DriveTick now gone)
      have "DriveCancel \<in> set ts \<or> tot - (sent + min driveBatch (tot - sent)) \<le> driveBatch * int (length ts)"
        using Cons.prems DriveTick by (auto simp: driveBatch_def algebra_simps)
      note IH = Cons.IH [OF this]
      show ?thesis
        by (subst driveLoop.simps) (use False DriveTick IH in \<open>auto simp: Let_def split: option.split sum.split prod.split\<close>)
    qed (subst driveLoop.simps; simp add: False)
  qed (subst driveLoop.simps; simp)
qed (subst driveLoop.simps; auto)

lemma drive_returns:
  "DriveCancel \<in> set turns \<or> driveTotal s \<le> driveBatch * int (length turns) \<Longrightarrow> \<exists>r. drive produce pm s accs topic turns b = Some r"
  using driveLoop_returns [of turns "driveTotal s" 0 produce pm s accs topic Map.empty b] by (auto simp: drive_def)

lemma loaded_returns:
  assumes "DriveCancel \<in> set (moDrive mo) \<or> driveTotal s \<le> driveBatch * int (length (moDrive mo))"
    and "\<exists>t \<in> set (moDrain mo). fst (moDrainStart mo) + drainCeiling \<le> dtNow t"
  shows "\<exists>r. loaded si mo s art accs topic w = Some r"
proof (cases "NewKafkaProducer (siKgo si) \<lparr>Seeds = siSeeds si, Group = [], Topics = [], PollTimeout = 0, ClientID = ''ablation-'' @ Config art\<rparr>")
  case (Inr pr)
  obtain snt sentAt err pr' where D: "drive (KafkaProduce (siKgo si)) (siMarshal si) s accs topic (moDrive mo) pr = Some ((snt, sentAt, err), pr')"
    using drive_returns [OF assms(1)] by (metis surj_pair)
  have "\<exists>r. waitForDrain snt (fst (moDrainStart mo)) (snd (moDrainStart mo)) (moDrain mo) = Some r"
    using drainLoop_returns [OF assms(2)] unfolding waitForDrain_def by blast
  then have "\<exists>r. observe si mo s art (snt, sentAt) recs = Some r" for recs by (auto simp: observe_def Let_def)
  with Inr D show ?thesis by (auto simp: loaded_def split: option.split prod.split)
qed (simp add: loaded_def)

lemma startLedger_returns:
  "\<exists>t \<in> set turns. now + 30 * 1000000000 \<le> htNow t \<Longrightarrow> \<exists>r. startLedger port start now turns dsn m seeds grp topic procs = Some r"
  using healthLoop_returns [of turns "now + 30 * 1000000000" None]
  by (auto simp: startLedger_def waitHealthy_def Let_def split: sum.split option.split)

section \<open>Properties\<close>


text \<open>A run against an admin database that logs its statements; the load is interrupted at once.\<close>

definition logAdmin :: "string list admin" where
  "logAdmin = \<lparr>openAdmin = (\<lambda>w. None), execAdmin = (\<lambda>w st. (None, w @ [st])), withPath = (\<lambda>dsn path. Some (dsn @ path))\<rparr>"

definition sampleSite :: "(string list, nat \<times> nat, unit) site" where
  "sampleSite = \<lparr>siAdmin = logAdmin, siKgo = memKgo, siExt = consExt, siMarshal = sampleMarshal, siScript = (\<lambda>s d. Inr d),
     siFiles = Some [], siSeeds = [''localhost:9092''], siReplicas = 3, siVersion = ''v24'', siChaos = None\<rparr>"

definition sampleMoments :: moments where
  "sampleMoments = \<lparr>moOpen = None, moMigrate = undisturbed, moPort = Inr 8081, moStart = (\<lambda>as. None), moClock = 0,
     moHealth = [\<lparr>htNow = 1, htBuild = None, htAnswer = Inr 503, htDone = None\<rparr>, \<lparr>htNow = 30000000000, htBuild = None, htAnswer = Inr 200, htDone = None\<rparr>],
     moDrive = [DriveCancel], moChaosLate = False, moDrainStart = (0, 0),
     moDrain = [\<lparr>dtNow = 1200000000000, dtDone = False, dtCount = Inr 0, dtChanged = 0, dtLag = Inr 0, dtThen = 0\<rparr>], moDrainTime = 0,
     moLag = Inr 0, moCounts = (emptyDB, emptyDB, emptyDB), moRows = Inr []\<rparr>"


end
