(* ===== verification/Spec2Isabelle.thy ===== *)
theory Spec2Isabelle
  imports Money Bizdate Dateformat Daycount Calendar Store Schema Posting Ledger Balance Accrual
    Broker Outbox Timeformat Kafka Consumer Obs Httpapi Delivery Floats Textformat Chaos Simcluster
    Artefact Experiment Measure Names Sweep Commands Instant Loadgen Migrations Process Goldencal Onerun
begin

text \<open>
  Verification of the Go tree of SHADOWBOOK: a double-entry shadow ledger over PostgreSQL and a broker,
  and the harness that measures what its four delivery modes do when brokers are killed.

  \<^bold>\<open>The program.\<close> Movements arrive on a topic and are booked by the consumer; postings arrive over HTTP and
  are booked by the posting service; both write double entries, and a posting also writes an outbox row the
  relay produces to another topic. Balances, holds and checkpoints are read from the entries, the
  end-of-day run posts interest and fees, a checker asks the database whether the books balance. One
  process (\<^verbatim>\<open>cmd/ledger\<close>) runs the checker, the relay, the consumer and the HTTP server as loops of one
  group. The harness (\<^verbatim>\<open>cmd/harness\<close>) runs sweeps: for every delivery mode and run it provisions a
  database, starts a ledger, produces movements while a chaos schedule kills brokers, waits for the
  drain, counts, writes an artefact, and folds the artefacts into a table.

  \<^bold>\<open>Theories, and the code they model.\<close>
  \<^item> \<open>Prelude\<close>: Go's \<^verbatim>\<open>int64\<close> (an \<^verbatim>\<open>int\<close> with a range predicate and wrapped operations), results
    \<open>error + 'a\<close>, \<open>attempt\<close> for a call on the state that may fail, shared facts on lists and maps.
  \<^item> \<open>Money\<close> (\<^verbatim>\<open>internal/money\<close>); \<open>Bizdate\<close>, \<open>Dateformat\<close>, \<open>Daycount\<close>, \<open>Calendar\<close> (\<^verbatim>\<open>internal/bizdate\<close>: civil dates,
    their wire format, day counts and rounding, holidays, business days, the cut-off); \<open>Goldencal\<close>
    (\<^verbatim>\<open>cmd/goldencal\<close>: the facts exported to the Python half).
  \<^item> \<open>Store\<close> (\<^verbatim>\<open>internal/ledger/store\<close>): the tables as a record of lists, each statement of \<^verbatim>\<open>queries.go\<close> with
    the constraints of \<^verbatim>\<open>migrations/*.sql\<close>, commit with the deferred trigger, rollback that keeps advanced
    sequences. \<open>Schema\<close>: what holds of every committed state. \<open>Migrations\<close> (\<^verbatim>\<open>migrations/migrate.go\<close>).
  \<^item> \<open>Posting\<close> (\<^verbatim>\<open>internal/ledger/posting\<close>) and \<open>Ledger\<close>, the reachable states of a ledger;
    \<open>Balance\<close>, \<open>Accrual\<close> (\<^verbatim>\<open>internal/ledger/balance\<close>, \<^verbatim>\<open>accrual\<close>).
  \<^item> \<open>Broker\<close> (the in-memory broker), \<open>Kafka\<close> (the clients of \<^verbatim>\<open>internal/broker/kafka.go\<close>), \<open>Outbox\<close> (the relay),
    \<open>Consumer\<close> (one batch in each mode and the run loop) and \<open>Delivery\<close> (sessions of a consumer
    group: what each mode guarantees over Kafka).
  \<^item> \<open>Timeformat\<close>, \<open>Instant\<close> (RFC 3339 instants), \<open>Httpapi\<close> (\<^verbatim>\<open>internal/ledger/httpapi\<close>), \<open>Obs\<close>
    (\<^verbatim>\<open>internal/ledger/obs\<close>).
  \<^item> \<open>Process\<close> and \<open>Commands\<close> (\<^verbatim>\<open>cmd/ledger\<close>, \<^verbatim>\<open>cmd/harness\<close>): start-up, the group of loops as an interleaving
    of their calls, the broker it dials; preflight, ablate and fold.
  \<^item> \<open>Floats\<close> (float64 as rounded rationals), \<open>Textformat\<close>, \<open>Chaos\<close> (\<^verbatim>\<open>internal/harness/chaos\<close>), \<open>Simcluster\<close>, \<open>Artefact\<close>,
    \<open>Experiment\<close>, \<open>Names\<close>, \<open>Measure\<close>, \<open>Sweep\<close>, \<open>Onerun\<close> (\<^verbatim>\<open>internal/harness/ablation\<close>), \<open>Loadgen\<close>
    (\<^verbatim>\<open>internal/harness/load\<close>).

  \<^bold>\<open>State and errors.\<close> A component that keeps state takes it and returns it: the database \<open>db\<close>, the broker, the
  server with its metrics, the calendar with its holiday cache. Every error is a constructor, so each
  early return of the code is a branch. Where a statement may lose its connection, a parameter says which one
  does and whether a failed commit reached the database (\<open>world\<close>). A panic is an error value.

  \<^bold>\<open>What the lemmas show.\<close>
  \<^item> The books: every committed state has balanced postings of at least two legs (\<open>Schema\<close>), every reachable one
    sums to zero in each currency (\<open>Ledger\<close>, \<open>Accrual\<close>, \<open>Consumer\<close>), and so does every state of the whole process under
    any interleaving of its loops and requests (\<open>Process\<close>).
  \<^item> Exactly once: a posting retried after any failures takes effect once and answers alike; a movement
    is booked at least once in mode B, at most once in mode A, once in modes C and D, over sessions with
    rebalances and failed commits (\<open>Delivery\<close>); the outbox is delivered at least once and in order (\<open>Outbox\<close>).
  \<^item> Refinement: the checkpointed balance query computes the balance derived from all entries, up to
    the condition under which it does; the reads of dates, instants, artefacts and identifiers invert their writes.
  \<^item> Arithmetic: sums, rounding and interest are exact up to stated bounds, with the wrap-around beyond.
  \<^item> The experiment: a schedule that validates keeps the quorum, the driver counts what the topic holds, the
    wait for the drain ends, runs share no names, the figures of modes C and D are exact, a run cleans up, a
    finished sweep forms a table, simulated results are labelled, a table mixes nothing.

  \<^bold>\<open>Interfaces.\<close> The locales \<open>producer\<close> and \<open>live_producer\<close> (what the relay and the driver rely on), \<open>record_source\<close> and
  \<open>group_source\<close> (what a consumer relies on), \<open>kgo_group\<close> (the documented contract of a franz-go consumer
  group), \<open>ledger_service\<close> and the calendar's interface are interpreted on the model's definitions,
  \<open>kgo_group\<close> on an in-memory client.

  \<^bold>\<open>Loops and bounds.\<close> A loop that waits for the outside is a function of the list of its turns, so a
  theorem that it ends says for which turns. The replay loop of a posting is bounded by the code's own
  fifty attempts. The search for a business day and the relay's tick are partial functions with values in \<open>option\<close>; that they
  return is proved (at most eight days ahead; a batch marks a row). All other recursion ends by a measure. The
  process needs at most six more steps to stop once its context is done.

  \<^bold>\<open>Parameters.\<close> Not in the repository, so arguments: hashing and canonical JSON (\<open>ext\<close>, \<open>codec\<close>), the protobuf codec and
  its range of \<^verbatim>\<open>int64\<close> (\<open>cext_ok\<close>), UUID parsing, the franz-go client and its fake cluster (\<open>kgo\<close>, \<open>kfake\<close>), the errgroup
  (\<open>group_contract\<close>), running a command, the admin database, clocks, and what a SQL script does to the
  schema (\<open>migrations_safe\<close>). Every property with such a hypothesis has an instance.

  \<^bold>\<open>Not modelled.\<close> Logging, formatting for logs, metrics exposition, pool settings and the sockets of the HTTP server
  are I/O without a state of the program. A step of the process is one call of one loop: two transactions that
  overlap inside PostgreSQL are taken in the order of their commits, and only the placing of holds, whose check and insert
  are separate statements, is also shown interleaved. JSON decoding starts from a parsed value. The
  generated protobuf code, the test support, and the Python tree (simulator, reconciliation, report)
  are outside the Go implementation this development covers.
\<close>

end
